(* ===== verification/Prelude.thy ===== *)
theory Prelude
  imports Main "HOL-Library.Word" "HOL-Library.AList" "HOL-Library.Multiset"
begin

text \<open>
  Shared vocabulary of the development: the fixed-width integer types of the C++ sources,
  the signed 64-bit integer with its signed order, the association lists that stand for
  \<open>std::unordered_map\<close>, consecutive counter values, and the fact collections the component
  theories extend.
\<close>

named_theorems frame_simps \<open>fields an operation does not write\<close>
named_theorems i64_simps \<open>signed 64-bit arithmetic read through its integer value\<close>

section \<open>Fixed-width integers\<close>

type_synonym u8 = "8 word"
type_synonym u16 = "16 word"
type_synonym u32 = "32 word"
type_synonym u64 = "64 word"

text \<open>
  \<open>std::int64_t\<close>: a 64-bit pattern of its own type, so that \<open>(<)\<close> and \<open>(\<le>)\<close> on it are the
  signed comparisons of C++. Arithmetic wraps around; the theorems that depend on the absence
  of signed overflow (undefined behaviour in C++) prove the bounds.
\<close>

datatype i64 = I64 (bits64: u64)

definition to_int :: "i64 \<Rightarrow> int" where
  "to_int x = sint (bits64 x)"

definition i64_of_int :: "int \<Rightarrow> i64" where
  "i64_of_int n = I64 (word_of_int n)"

lemma to_int_I64 [simp]: "to_int (I64 w) = sint w"
  by (simp add: to_int_def)

lemma to_int_inject [simp]: "to_int x = to_int y \<longleftrightarrow> x = y"
  by (cases x; cases y) (auto intro: signed_word_eqI)

instantiation i64 :: linorder
begin

definition less_eq_i64 :: "i64 \<Rightarrow> i64 \<Rightarrow> bool" where
  "less_eq_i64 x y \<longleftrightarrow> to_int x \<le> to_int y"

definition less_i64 :: "i64 \<Rightarrow> i64 \<Rightarrow> bool" where
  "less_i64 x y \<longleftrightarrow> to_int x < to_int y"

instance
  by standard (auto simp: less_eq_i64_def less_i64_def)

end

instantiation i64 :: ab_group_add
begin

definition zero_i64 :: i64 where
  "zero_i64 = I64 0"

definition plus_i64 :: "i64 \<Rightarrow> i64 \<Rightarrow> i64" where
  "plus_i64 x y = I64 (bits64 x + bits64 y)"

definition minus_i64 :: "i64 \<Rightarrow> i64 \<Rightarrow> i64" where
  "minus_i64 x y = I64 (bits64 x - bits64 y)"

definition uminus_i64 :: "i64 \<Rightarrow> i64" where
  "uminus_i64 x = I64 (- bits64 x)"

instance
  by standard (auto simp: zero_i64_def plus_i64_def minus_i64_def uminus_i64_def)

end

lemma to_int_0 [simp]: "to_int 0 = 0"
  by (simp add: zero_i64_def)

lemma to_int_eq_0 [simp]: "to_int x = 0 \<longleftrightarrow> x = 0"
  by (metis to_int_0 to_int_inject)

lemma less_i64_iff [i64_simps]: "x < y \<longleftrightarrow> to_int x < to_int y"
  by (rule less_i64_def)

lemma le_i64_iff [i64_simps]: "x \<le> y \<longleftrightarrow> to_int x \<le> to_int y"
  by (rule less_eq_i64_def)

lemma less_I64 [simp]: "I64 a < I64 b \<longleftrightarrow> sint a < sint b"
  by (simp add: less_i64_def)

lemma le_I64 [simp]: "I64 a \<le> I64 b \<longleftrightarrow> sint a \<le> sint b"
  by (simp add: less_eq_i64_def)

lemma plus_I64 [simp]: "I64 a + I64 b = I64 (a + b)"
  by (simp add: plus_i64_def)

lemma minus_I64 [simp]: "I64 a - I64 b = I64 (a - b)"
  by (simp add: minus_i64_def)

lemma to_int_bounds: "- (2 ^ 63) \<le> to_int x" "to_int x < 2 ^ 63"
  using sint_ge [of "bits64 x"] sint_lt [of "bits64 x"] by (auto simp: to_int_def)

lemma to_int_min [i64_simps]: "to_int (min x y) = min (to_int x) (to_int y)"
  by (simp add: min_def less_eq_i64_def)

lemma to_int_of_int: "- (2 ^ 63) \<le> n \<Longrightarrow> n < 2 ^ 63 \<Longrightarrow> to_int (i64_of_int n) = n"
  by (simp add: i64_of_int_def sint_sbintrunc' signed_take_bit_int_eq_self)

lemma i64_of_int_to_int [simp]: "i64_of_int (to_int x) = x"
  by (cases x) (simp add: i64_of_int_def)

lemma sint_minus_in_range:
  fixes a b :: u64
  assumes "- (2 ^ 63) \<le> sint a - sint b" "sint a - sint b < 2 ^ 63"
  shows "sint (a - b) = sint a - sint b"
proof -
  have "sint (a - b) = sint (word_of_int (sint a - sint b) :: u64)"
    by simp
  also have "\<dots> = signed_take_bit 63 (sint a - sint b)"
    by (simp only: sint_sbintrunc') simp
  also have "\<dots> = sint a - sint b"
    using assms by (intro signed_take_bit_int_eq_self) auto
  finally show ?thesis .
qed

lemma sint_plus_in_range:
  fixes a b :: u64
  assumes "- (2 ^ 63) \<le> sint a + sint b" "sint a + sint b < 2 ^ 63"
  shows "sint (a + b) = sint a + sint b"
proof -
  have "sint (a + b) = sint (word_of_int (sint a + sint b) :: u64)"
    by simp
  also have "\<dots> = signed_take_bit 63 (sint a + sint b)"
    by (simp only: sint_sbintrunc') simp
  also have "\<dots> = sint a + sint b"
    using assms by (intro signed_take_bit_int_eq_self) auto
  finally show ?thesis .
qed

lemma to_int_minus:
  "- (2 ^ 63) \<le> to_int x - to_int y \<Longrightarrow> to_int x - to_int y < 2 ^ 63 \<Longrightarrow>
   to_int (x - y) = to_int x - to_int y"
  by (cases x; cases y) (simp add: sint_minus_in_range)

lemma to_int_plus:
  "- (2 ^ 63) \<le> to_int x + to_int y \<Longrightarrow> to_int x + to_int y < 2 ^ 63 \<Longrightarrow>
   to_int (x + y) = to_int x + to_int y"
  by (cases x; cases y) (simp add: sint_plus_in_range)

text \<open>Subtracting a part of a non-negative value never overflows.\<close>

lemma to_int_minus_part:
  "0 \<le> to_int y \<Longrightarrow> to_int y \<le> to_int x \<Longrightarrow> to_int (x - y) = to_int x - to_int y"
  using to_int_bounds [of x] by (intro to_int_minus) auto

section \<open>Association lists as finite maps\<close>

text \<open>
  \<open>std::unordered_map\<close> is an association list with distinct keys; \<open>map_of\<close> is its lookup,
  \<open>AList.update\<close> its \<open>operator[]\<close> assignment and \<open>AList.delete\<close> its \<open>erase\<close>.
\<close>

definition keys_distinct :: "('k \<times> 'v) list \<Rightarrow> bool" where
  "keys_distinct al \<longleftrightarrow> distinct (map fst al)"

lemma map_of_update [simp]: "map_of (AList.update k v al) = (map_of al)(k \<mapsto> v)"
  by (rule ext) (simp add: update_conv')

lemma map_of_delete [simp]: "map_of (AList.delete k al) = (map_of al)(k := None)"
  by (rule ext) (simp add: delete_conv')

lemma keys_distinct_Nil [simp]: "keys_distinct []"
  by (simp add: keys_distinct_def)

lemma keys_distinct_update [simp]: "keys_distinct al \<Longrightarrow> keys_distinct (AList.update k v al)"
  by (simp add: keys_distinct_def distinct_update)

lemma keys_distinct_delete [simp]: "keys_distinct al \<Longrightarrow> keys_distinct (AList.delete k al)"
  by (simp add: keys_distinct_def distinct_delete)

lemma keys_distinct_length: "keys_distinct al \<Longrightarrow> length al = card (dom (map_of al))"
  by (metis keys_distinct_def distinct_card dom_map_of_conv_image_fst length_map set_map)

lemma keys_distinct_map_of_iff:
  "keys_distinct al \<Longrightarrow> map_of al k = Some v \<longleftrightarrow> (k, v) \<in> set al"
  by (simp add: keys_distinct_def)

section \<open>Consecutive counter values\<close>

text \<open>The values a counter hands out: \<open>n\<close> of them from \<open>s\<close>, wrapping as the counter does.\<close>

fun consecutive :: "'a::semiring_1 \<Rightarrow> nat \<Rightarrow> 'a list" where
  "consecutive s 0 = []"
| "consecutive s (Suc n) = s # consecutive (s + 1) n"

lemma length_consecutive [simp]: "length (consecutive s n) = n"
  by (induction n arbitrary: s) auto

lemma consecutive_add:
  "consecutive s (m + n) = consecutive s m @ consecutive (s + of_nat m) n"
  by (induction m arbitrary: s) (auto simp: algebra_simps)

lemma consecutive_snoc: "consecutive s (Suc n) = consecutive s n @ [s + of_nat n]"
  using consecutive_add [of s n 1] by simp

lemma nth_consecutive: "i < n \<Longrightarrow> consecutive s n ! i = s + of_nat i"
  by (induction n arbitrary: s i) (auto simp: nth_Cons algebra_simps split: nat.splits)

end
