(* ===== verification/Domain.thy ===== *)
theory Domain
  imports Prelude
begin

text \<open>
  The durable records and enumerations of \<open>src/domain/\<close>: commands, execution events, the enum
  values that are written into them, and the decoding of those values that \<open>src/core/\<close> does at
  its boundary. Fields carry the prefix of their struct (\<open>c_\<close> a command, \<open>e_\<close> an event),
  because HOL record fields share one name space.
\<close>

section \<open>Matching enumerations\<close>

datatype CommandType = NewOrder | CancelOrder | ReplaceOrder

fun command_type_code :: "CommandType \<Rightarrow> u16" where
  "command_type_code NewOrder = 1"
| "command_type_code CancelOrder = 2"
| "command_type_code ReplaceOrder = 3"

datatype Side = Buy | Sell

fun side_code :: "Side \<Rightarrow> u16" where
  "side_code Buy = 1"
| "side_code Sell = 2"

datatype TimeInForce = Gtc

fun time_in_force_code :: "TimeInForce \<Rightarrow> u16" where
  "time_in_force_code Gtc = 1"

datatype ExecutionEventType =
  OrderAccepted | OrderRejected | TradeExecuted | OrderRested
| OrderPartiallyFilled | OrderFullyFilled | OrderCancelled

fun event_type_code :: "ExecutionEventType \<Rightarrow> u16" where
  "event_type_code OrderAccepted = 1"
| "event_type_code OrderRejected = 2"
| "event_type_code TradeExecuted = 3"
| "event_type_code OrderRested = 4"
| "event_type_code OrderPartiallyFilled = 5"
| "event_type_code OrderFullyFilled = 6"
| "event_type_code OrderCancelled = 7"

text \<open>\<open>NoRejection\<close> is \<open>RejectionReason::None\<close>.\<close>

datatype RejectionReason =
  NoRejection | UnsupportedCommand | InvalidSide | InvalidPrice | InvalidQuantity
| DuplicateOrderId | UnsupportedTimeInForce | UnknownOrderId | InstrumentMismatch
| ReplaceWouldDuplicateOrderId | InvalidReplacementOrderId

fun rejection_reason_code :: "RejectionReason \<Rightarrow> u16" where
  "rejection_reason_code NoRejection = 0"
| "rejection_reason_code UnsupportedCommand = 1"
| "rejection_reason_code InvalidSide = 2"
| "rejection_reason_code InvalidPrice = 3"
| "rejection_reason_code InvalidQuantity = 4"
| "rejection_reason_code DuplicateOrderId = 5"
| "rejection_reason_code UnsupportedTimeInForce = 6"
| "rejection_reason_code UnknownOrderId = 7"
| "rejection_reason_code InstrumentMismatch = 8"
| "rejection_reason_code ReplaceWouldDuplicateOrderId = 9"
| "rejection_reason_code InvalidReplacementOrderId = 10"

section \<open>Commands\<close>

record OrderCommandRecordV1 =
  c_command_sequence :: u64
  c_source_ingress_epoch :: u64
  c_source_ingress_sequence :: u64
  c_order_id :: u64
  c_replacement_order_id :: u64
  c_client_id :: u64
  c_price_ticks :: i64
  c_quantity_lots :: i64
  c_instrument_id :: u32
  c_command_type :: u16
  c_side :: u16
  c_time_in_force :: u16
  c_reserved :: u16

text \<open>The value \<open>OrderCommandRecordV1{}\<close> has.\<close>

definition empty_command :: OrderCommandRecordV1 where
  "empty_command =
     \<lparr>c_command_sequence = 0, c_source_ingress_epoch = 0, c_source_ingress_sequence = 0,
      c_order_id = 0, c_replacement_order_id = 0, c_client_id = 0,
      c_price_ticks = I64 0, c_quantity_lots = I64 0,
      c_instrument_id = 0, c_command_type = 0, c_side = 0, c_time_in_force = 0, c_reserved = 0\<rparr>"

section \<open>Execution events\<close>

record ExecutionEventRecordV1 =
  e_event_sequence :: u64
  e_command_sequence :: u64
  e_source_ingress_epoch :: u64
  e_source_ingress_sequence :: u64
  e_order_id :: u64
  e_contra_order_id :: u64
  e_trade_id :: u64
  e_price_ticks :: i64
  e_quantity_lots :: i64
  e_remaining_quantity_lots :: i64
  e_instrument_id :: u32
  e_event_type :: u16
  e_side :: u16
  e_rejection_reason :: u16
  e_reserved :: u16

text \<open>The value \<open>ExecutionEventRecordV1{}\<close> has.\<close>

definition empty_event :: ExecutionEventRecordV1 where
  "empty_event =
     \<lparr>e_event_sequence = 0, e_command_sequence = 0, e_source_ingress_epoch = 0,
      e_source_ingress_sequence = 0, e_order_id = 0, e_contra_order_id = 0, e_trade_id = 0,
      e_price_ticks = I64 0, e_quantity_lots = I64 0, e_remaining_quantity_lots = I64 0,
      e_instrument_id = 0, e_event_type = 0, e_side = 0, e_rejection_reason = 0, e_reserved = 0\<rparr>"

section \<open>Decoding enumeration fields\<close>

text \<open>
  The fields hold any 16-bit value; a \<open>switch\<close> over the cast value accepts the declared
  enumerators and sends everything else to \<open>default\<close>.
\<close>

definition decode_command_type :: "u16 \<Rightarrow> CommandType option" where
  "decode_command_type v =
     (if v = command_type_code NewOrder then Some NewOrder
      else if v = command_type_code CancelOrder then Some CancelOrder
      else if v = command_type_code ReplaceOrder then Some ReplaceOrder
      else None)"

definition decode_side :: "u16 \<Rightarrow> Side option" where
  "decode_side v =
     (if v = side_code Buy then Some Buy
      else if v = side_code Sell then Some Sell
      else None)"

definition decode_time_in_force :: "OrderCommandRecordV1 \<Rightarrow> TimeInForce option" where
  "decode_time_in_force command =
     (if c_time_in_force command = time_in_force_code Gtc then Some Gtc else None)"

definition decode_event_type :: "u16 \<Rightarrow> ExecutionEventType option" where
  "decode_event_type v =
     (if v = event_type_code OrderAccepted then Some OrderAccepted
      else if v = event_type_code OrderRejected then Some OrderRejected
      else if v = event_type_code OrderRested then Some OrderRested
      else if v = event_type_code OrderPartiallyFilled then Some OrderPartiallyFilled
      else if v = event_type_code TradeExecuted then Some TradeExecuted
      else if v = event_type_code OrderFullyFilled then Some OrderFullyFilled
      else if v = event_type_code OrderCancelled then Some OrderCancelled
      else None)"

lemma decode_command_type_code [simp]: "decode_command_type (command_type_code t) = Some t"
  by (cases t) (simp_all add: decode_command_type_def)

lemma decode_command_type_iff: "decode_command_type v = Some t \<longleftrightarrow> v = command_type_code t"
  by (cases t) (auto simp: decode_command_type_def)

lemma decode_side_code [simp]: "decode_side (side_code s) = Some s"
  by (cases s) (simp_all add: decode_side_def)

lemma decode_side_iff: "decode_side v = Some s \<longleftrightarrow> v = side_code s"
  by (cases s) (auto simp: decode_side_def)

lemma side_code_inject [simp]: "side_code s = side_code t \<longleftrightarrow> s = t"
  by (cases s; cases t) auto

lemma event_type_code_inject [simp]: "event_type_code s = event_type_code t \<longleftrightarrow> s = t"
  by (cases s; cases t) auto

lemma decode_event_type_code [simp]: "decode_event_type (event_type_code t) = Some t"
  by (cases t) (simp_all add: decode_event_type_def)

lemma rejection_reason_code_inject [simp]:
  "rejection_reason_code r = rejection_reason_code s \<longleftrightarrow> r = s"
  by (cases r; cases s) auto

section \<open>Record type identifiers\<close>

datatype RecordType =
  UnknownRecord | IngressMessage | OrderCommand | ExecutionEvent | ExecutionEventBatch

fun record_type_code :: "RecordType \<Rightarrow> u32" where
  "record_type_code UnknownRecord = 0"
| "record_type_code IngressMessage = 100"
| "record_type_code OrderCommand = 200"
| "record_type_code ExecutionEvent = 300"
| "record_type_code ExecutionEventBatch = 301"

text \<open>\<open>domain::to_string\<close>, on the raw value an enum of fixed underlying type may hold.\<close>

definition record_type_to_string :: "u32 \<Rightarrow> string" where
  "record_type_to_string v =
     (if v = record_type_code UnknownRecord then ''unknown''
      else if v = record_type_code IngressMessage then ''ingress_message''
      else if v = record_type_code OrderCommand then ''order_command''
      else if v = record_type_code ExecutionEvent then ''execution_event''
      else if v = record_type_code ExecutionEventBatch then ''execution_event_batch''
      else ''unknown'')"

end
