(* ===== verification/Levels.thy ===== *)
theory Levels
  imports Prelude
begin

text \<open>
  \<open>std::map<price, std::deque<order>, Compare>\<close>, the price levels of one side of the book: a
  list of price levels kept sorted by the comparator. The operations are the ones the order
  book uses (\<open>operator[]\<close> with \<open>push_back\<close>, \<open>find\<close>, \<open>erase\<close>, \<open>begin\<close>); the locale states
  what they promise for any strict total order, and the interpretations are the two
  comparators of the book, \<open>std::less\<close> for asks and \<open>std::greater\<close> for bids.
\<close>

type_synonym ('k, 'v) levels = "('k \<times> 'v list) list"

text \<open>All orders of a side, best price first and oldest first inside a price.\<close>

definition flat :: "('k, 'v) levels \<Rightarrow> 'v list" where
  "flat ls = concat (map snd ls)"

lemma flat_Nil [simp]: "flat [] = []"
  by (simp add: flat_def)

lemma flat_Cons [simp]: "flat ((k, q) # ls) = q @ flat ls"
  by (simp add: flat_def)

lemma flat_append [simp]: "flat (ls @ ms) = flat ls @ flat ms"
  by (simp add: flat_def)

lemma set_flat: "set (flat ls) = (\<Union>(k, q) \<in> set ls. set q)"
  by (induction ls) auto

text \<open>\<open>levels[key].push_back(v)\<close>: a missing level is created at its place in the order.\<close>

fun level_push_back :: "('k \<Rightarrow> 'k \<Rightarrow> bool) \<Rightarrow> 'k \<Rightarrow> 'v \<Rightarrow> ('k, 'v) levels \<Rightarrow> ('k, 'v) levels" where
  "level_push_back before key v [] = [(key, [v])]"
| "level_push_back before key v ((k, q) # ls) =
     (if key = k then (k, q @ [v]) # ls
      else if before key k then (key, [v]) # (k, q) # ls
      else (k, q) # level_push_back before key v ls)"

text \<open>\<open>std::find_if\<close> followed by \<open>erase\<close> of the position found, if any.\<close>

fun remove_first :: "('v \<Rightarrow> bool) \<Rightarrow> 'v list \<Rightarrow> 'v list" where
  "remove_first P [] = []"
| "remove_first P (v # vs) = (if P v then vs else v # remove_first P vs)"

definition level_erase :: "'k \<Rightarrow> ('v \<Rightarrow> bool) \<Rightarrow> ('k, 'v) levels \<Rightarrow> ('k, 'v) levels" where
  "level_erase key P ls =
     (case map_of ls key of
        None \<Rightarrow> ls
      | Some q \<Rightarrow>
          (let q' = remove_first P q
           in if q' = [] then AList.delete key ls else AList.update key q' ls))"

section \<open>Erasing one order\<close>

lemma remove_first_filter:
  "distinct (map f vs) \<Longrightarrow> remove_first (\<lambda>v. f v = x) vs = filter (\<lambda>v. f v \<noteq> x) vs"
proof (induction vs)
  case (Cons v vs)
  then show ?case
    by (cases "f v = x") (auto simp: image_iff intro!: filter_True [symmetric])
qed simp

lemma set_remove_first_subset: "set (remove_first P vs) \<subseteq> set vs"
  by (induction vs) auto

lemma split_at_key:
  assumes "distinct (map fst ls)" "map_of ls k = Some q"
  obtains as bs where "ls = as @ (k, q) # bs" "k \<notin> fst ` set as" "k \<notin> fst ` set bs"
proof -
  from assms(2) have "(k, q) \<in> set ls" by (rule map_of_SomeD)
  then obtain as bs where ls: "ls = as @ (k, q) # bs"
    by (auto simp: in_set_conv_decomp)
  with assms(1) show ?thesis by (intro that) auto
qed

lemma update_at_key: "k \<notin> fst ` set as \<Longrightarrow> AList.update k q' (as @ (k, q) # bs) = as @ (k, q') # bs"
  by (induction as) auto

lemma delete_at_key:
  "k \<notin> fst ` set as \<Longrightarrow> k \<notin> fst ` set bs \<Longrightarrow> AList.delete k (as @ (k, q) # bs) = as @ bs"
  by (force simp: AList.delete_eq intro!: arg_cong2 [where f = append] filter_True)

lemma level_erase_split:
  assumes "distinct (map fst ls)" "map_of ls k = Some q"
  obtains as bs where "ls = as @ (k, q) # bs"
    "level_erase k P ls = as @ (if remove_first P q = [] then [] else [(k, remove_first P q)]) @ bs"
proof -
  from assms obtain as bs where
    ls: "ls = as @ (k, q) # bs" "k \<notin> fst ` set as" "k \<notin> fst ` set bs"
    by (rule split_at_key)
  then have "level_erase k P ls =
      as @ (if remove_first P q = [] then [] else [(k, remove_first P q)]) @ bs"
    using assms(2) by (simp add: level_erase_def update_at_key delete_at_key)
  with ls show ?thesis by (intro that) auto
qed

text \<open>Erasing an order of a level by its id removes exactly that order from the side.\<close>

lemma flat_level_erase:
  assumes "distinct (map fst ls)" "map_of ls k = Some q"
    and "distinct (map f (flat ls))" "v \<in> set q"
  shows "flat (level_erase k (\<lambda>w. f w = f v) ls) = filter (\<lambda>w. f w \<noteq> f v) (flat ls)"
proof -
  from assms(1,2) obtain as bs where ls: "ls = as @ (k, q) # bs"
    and erase: "level_erase k (\<lambda>w. f w = f v) ls = as @
      (if remove_first (\<lambda>w. f w = f v) q = [] then [] else [(k, remove_first (\<lambda>w. f w = f v) q)]) @ bs"
    by (rule level_erase_split)
  have "flat (level_erase k (\<lambda>w. f w = f v) ls) =
      flat as @ filter (\<lambda>w. f w \<noteq> f v) q @ flat bs"
    unfolding erase using assms(3) ls by (simp add: remove_first_filter)
  moreover have "filter (\<lambda>w. f w \<noteq> f v) (flat as) = flat as"
    "filter (\<lambda>w. f w \<noteq> f v) (flat bs) = flat bs"
    using assms(3,4) ls by (auto simp: filter_id_conv image_iff)
  ultimately show ?thesis by (simp add: ls)
qed

section \<open>The comparator contract\<close>

locale price_order =
  fixes before :: "'k \<Rightarrow> 'k \<Rightarrow> bool"
  assumes before_irrefl: "\<not> before a a"
    and before_trans: "before a b \<Longrightarrow> before b c \<Longrightarrow> before a c"
    and before_total: "a \<noteq> b \<Longrightarrow> before a b \<or> before b a"
begin

lemma before_asym: "before a b \<Longrightarrow> \<not> before b a"
  using before_irrefl before_trans by blast

lemma sorted_distinct: "sorted_wrt before ks \<Longrightarrow> distinct ks"
  by (induction ks) (auto simp: before_irrefl)

lemma keys_push_back:
  "set (map fst (level_push_back before k v ls)) = insert k (set (map fst ls))"
  by (induction before k v ls rule: level_push_back.induct) auto

lemma sorted_push_back:
  "sorted_wrt before (map fst ls) \<Longrightarrow> sorted_wrt before (map fst (level_push_back before k v ls))"
proof (induction ls)
  case Nil
  then show ?case by simp
next
  case (Cons l ls)
  obtain k' q where l: "l = (k', q)" by (cases l)
  consider "k = k'" | "k \<noteq> k'" "before k k'" | "k \<noteq> k'" "\<not> before k k'" by blast
  then show ?case
  proof cases
    case 1
    with Cons.prems l show ?thesis by simp
  next
    case 2
    with Cons.prems l show ?thesis by (auto intro: before_trans)
  next
    case 3
    then have "before k' k" using before_total by blast
    with 3 Cons l show ?thesis
      using keys_push_back [of k v ls] by auto
  qed
qed

text \<open>The new entry goes behind every entry of its own or a better key, before all others.\<close>

lemma flat_push_back:
  assumes "sorted_wrt before (map fst ls)"
  shows "flat (level_push_back before k v ls) =
    flat (filter (\<lambda>l. \<not> before k (fst l)) ls) @ [v] @ flat (filter (\<lambda>l. before k (fst l)) ls)"
  using assms
proof (induction ls)
  case Nil
  then show ?case by simp
next
  case (Cons l ls)
  obtain k' q where l: "l = (k', q)" by (cases l)
  have worse: "filter (\<lambda>l. before k (fst l)) ls = ls \<and> filter (\<lambda>l. \<not> before k (fst l)) ls = []"
    if "k = k' \<or> before k k'"
    using that Cons.prems l before_trans
    by (auto simp: filter_id_conv filter_empty_conv)
  show ?case
    using Cons worse l before_irrefl [of k] by auto
qed

lemma map_of_push_back:
  assumes "sorted_wrt before (map fst ls)"
  shows "map_of (level_push_back before k v ls) =
    (map_of ls)(k \<mapsto> (case map_of ls k of None \<Rightarrow> [v] | Some q \<Rightarrow> q @ [v]))"
  using assms
proof (induction ls)
  case Nil
  then show ?case by simp
next
  case (Cons l ls)
  obtain k' q where l: "l = (k', q)" by (cases l)
  consider "k = k'" | "k \<noteq> k'" "before k k'" | "k \<noteq> k'" "\<not> before k k'" by blast
  then show ?case
  proof cases
    case 1
    then show ?thesis by (simp add: l fun_eq_iff)
  next
    case 2
    then have "k \<notin> fst ` set ls"
      using Cons.prems l before_asym by auto
    then have "map_of ls k = None" by (simp add: map_of_eq_None_iff)
    with 2 show ?thesis by (simp add: l fun_eq_iff)
  next
    case 3
    have "map_of (level_push_back before k v ls) =
      (map_of ls)(k \<mapsto> (case map_of ls k of None \<Rightarrow> [v] | Some q \<Rightarrow> q @ [v]))"
      using Cons by (simp add: fun_eq_iff)
    with 3 show ?thesis by (simp add: l fun_eq_iff)
  qed
qed

lemma sorted_level_erase:
  assumes "sorted_wrt before (map fst ls)"
  shows "sorted_wrt before (map fst (level_erase k P ls))"
proof (cases "map_of ls k")
  case None
  with assms show ?thesis by (simp add: level_erase_def)
next
  case (Some q)
  have "distinct (map fst ls)"
    using assms by (rule sorted_distinct)
  then obtain as bs where ls: "ls = as @ (k, q) # bs"
    and "level_erase k P ls = as @ (if remove_first P q = [] then [] else [(k, remove_first P q)]) @ bs"
    using Some by (rule level_erase_split)
  with assms show ?thesis by (simp add: sorted_wrt_append)
qed

end

interpretation asks_order: price_order "(<) :: 'k::linorder \<Rightarrow> 'k \<Rightarrow> bool"
  by unfold_locales auto

interpretation bids_order: price_order "(>) :: 'k::linorder \<Rightarrow> 'k \<Rightarrow> bool"
  by unfold_locales auto

end
