(* ===== verification/OrderBook.thy ===== *)
theory OrderBook
  imports Domain Levels Decimal
begin

text \<open>
  \<open>core::OrderBook\<close> (\<open>src/core/src/order_book.cpp\<close>): the state of the book, one definition per
  member function, in the order of the source. A member function that changes the book takes
  it as its argument and returns the new one; a member function that emits an event returns
  the event and the book with the advanced counters.
\<close>

section \<open>State\<close>

record RestingOrder =
  r_order_id :: u64
  r_client_id :: u64
  r_instrument_id :: u32
  r_side :: u16
  r_price_ticks :: i64
  r_remaining_quantity_lots :: i64

type_synonym price_levels = "(i64, RestingOrder) levels"

text \<open>\<open>bids_\<close> is sorted by \<open>std::greater\<close>, \<open>asks_\<close> by \<open>std::less\<close>.\<close>

record OrderBook =
  b_instrument_id :: "u32 option"
  b_next_event_sequence :: u64
  b_next_trade_id :: u64
  b_bids :: price_levels
  b_asks :: price_levels
  b_active_orders :: "(u64 \<times> RestingOrder) list"

text \<open>The constructor.\<close>

definition new_order_book :: "u64 \<Rightarrow> OrderBook" where
  "new_order_book first_event_sequence =
     \<lparr>b_instrument_id = None, b_next_event_sequence = first_event_sequence, b_next_trade_id = 1,
      b_bids = [], b_asks = [], b_active_orders = []\<rparr>"

section \<open>Queries\<close>

definition find_order :: "OrderBook \<Rightarrow> u64 \<Rightarrow> RestingOrder option" where
  "find_order b order_id = map_of (b_active_orders b) order_id"

definition has_order :: "OrderBook \<Rightarrow> u64 \<Rightarrow> bool" where
  "has_order b order_id \<longleftrightarrow> map_of (b_active_orders b) order_id \<noteq> None"

definition best_bid_price :: "OrderBook \<Rightarrow> i64" where
  "best_bid_price b = (case b_bids b of [] \<Rightarrow> I64 0 | (price, _) # _ \<Rightarrow> price)"

definition best_ask_price :: "OrderBook \<Rightarrow> i64" where
  "best_ask_price b = (case b_asks b of [] \<Rightarrow> I64 0 | (price, _) # _ \<Rightarrow> price)"

definition remaining_quantity :: "OrderBook \<Rightarrow> u64 \<Rightarrow> i64" where
  "remaining_quantity b order_id =
     (case map_of (b_active_orders b) order_id of
        None \<Rightarrow> I64 0
      | Some r \<Rightarrow> r_remaining_quantity_lots r)"

definition active_order_count :: "OrderBook \<Rightarrow> nat" where
  "active_order_count b = length (b_active_orders b)"

definition snapshot :: "OrderBook \<Rightarrow> string" where
  "snapshot b =
     ''active_orders='' @ show_nat (active_order_count b) @
     '' best_bid='' @ show_i64 (best_bid_price b) @
     '' best_ask='' @ show_i64 (best_ask_price b)"

section \<open>Emitting events\<close>

definition emit_order_event ::
  "OrderBook \<Rightarrow> OrderCommandRecordV1 \<Rightarrow> ExecutionEventType \<Rightarrow> i64 \<Rightarrow> i64 \<Rightarrow>
   ExecutionEventRecordV1 \<times> OrderBook" where
  "emit_order_event b command event_type quantity_lots remaining_quantity_lots =
     (empty_event
        \<lparr>e_event_sequence := b_next_event_sequence b,
         e_command_sequence := c_command_sequence command,
         e_source_ingress_epoch := c_source_ingress_epoch command,
         e_source_ingress_sequence := c_source_ingress_sequence command,
         e_order_id := c_order_id command,
         e_price_ticks := c_price_ticks command,
         e_quantity_lots := quantity_lots,
         e_remaining_quantity_lots := remaining_quantity_lots,
         e_instrument_id := c_instrument_id command,
         e_event_type := event_type_code event_type,
         e_side := c_side command\<rparr>,
      b\<lparr>b_next_event_sequence := b_next_event_sequence b + 1\<rparr>)"

definition emit_trade_event ::
  "OrderBook \<Rightarrow> OrderCommandRecordV1 \<Rightarrow> RestingOrder \<Rightarrow> i64 \<Rightarrow> i64 \<Rightarrow> i64 \<Rightarrow>
   ExecutionEventRecordV1 \<times> OrderBook" where
  "emit_trade_event b command resting_order trade_price_ticks trade_quantity_lots
       incoming_remaining_lots =
     (let (event, b') =
        emit_order_event b command TradeExecuted trade_quantity_lots incoming_remaining_lots
      in (event\<lparr>e_contra_order_id := r_order_id resting_order,
               e_trade_id := b_next_trade_id b',
               e_price_ticks := trade_price_ticks\<rparr>,
          b'\<lparr>b_next_trade_id := b_next_trade_id b' + 1\<rparr>))"

definition emit_rejection_event ::
  "OrderBook \<Rightarrow> OrderCommandRecordV1 \<Rightarrow> RejectionReason \<Rightarrow> ExecutionEventRecordV1 \<times> OrderBook" where
  "emit_rejection_event b command reason =
     (let (event, b') = emit_order_event b command OrderRejected (I64 0) (I64 0)
      in (event\<lparr>e_rejection_reason := rejection_reason_code reason\<rparr>, b'))"

definition emit_cancel_event ::
  "OrderBook \<Rightarrow> OrderCommandRecordV1 \<Rightarrow> RestingOrder \<Rightarrow> ExecutionEventRecordV1 \<times> OrderBook" where
  "emit_cancel_event b command resting_order =
     (let (event, b') = emit_order_event b command OrderCancelled (I64 0)
                          (r_remaining_quantity_lots resting_order)
      in (event\<lparr>e_price_ticks := r_price_ticks resting_order,
               e_side := r_side resting_order,
               e_instrument_id := r_instrument_id resting_order\<rparr>, b'))"

section \<open>Validation\<close>

definition is_buy :: "Side \<Rightarrow> bool" where
  "is_buy side \<longleftrightarrow> side = Buy"

definition is_sell :: "Side \<Rightarrow> bool" where
  "is_sell side \<longleftrightarrow> side = Sell"

text \<open>\<open>!side.has_value() || (!is_buy( *side) && !is_sell( *side))\<close>, negated.\<close>

definition valid_side :: "Side option \<Rightarrow> bool" where
  "valid_side side = (case side of None \<Rightarrow> False | Some s \<Rightarrow> is_buy s \<or> is_sell s)"

definition validate_order_book_instrument :: "OrderBook \<Rightarrow> OrderCommandRecordV1 \<Rightarrow> RejectionReason" where
  "validate_order_book_instrument b command =
     (case b_instrument_id b of
        None \<Rightarrow> NoRejection
      | Some i \<Rightarrow> if c_instrument_id command \<noteq> i then InstrumentMismatch else NoRejection)"

definition validate_new_order :: "OrderBook \<Rightarrow> OrderCommandRecordV1 \<Rightarrow> RejectionReason" where
  "validate_new_order b command =
     (if decode_command_type (c_command_type command) \<noteq> Some NewOrder then UnsupportedCommand
      else if \<not> valid_side (decode_side (c_side command)) then InvalidSide
      else if to_int (c_price_ticks command) \<le> 0 then InvalidPrice
      else if to_int (c_quantity_lots command) \<le> 0 then InvalidQuantity
      else if has_order b (c_order_id command) then DuplicateOrderId
      else if validate_order_book_instrument b command \<noteq> NoRejection
        then validate_order_book_instrument b command
      else if decode_time_in_force command \<noteq> Some Gtc then UnsupportedTimeInForce
      else NoRejection)"

definition validate_replace_order :: "OrderBook \<Rightarrow> OrderCommandRecordV1 \<Rightarrow> RejectionReason" where
  "validate_replace_order b command =
     (if decode_command_type (c_command_type command) \<noteq> Some ReplaceOrder then UnsupportedCommand
      else (case find_order b (c_order_id command) of
        None \<Rightarrow> UnknownOrderId
      | Some resting_order \<Rightarrow>
          if r_instrument_id resting_order \<noteq> c_instrument_id command then InstrumentMismatch
          else if c_replacement_order_id command = 0 \<or>
                  c_replacement_order_id command = c_order_id command
            then InvalidReplacementOrderId
          else if has_order b (c_replacement_order_id command) then ReplaceWouldDuplicateOrderId
          else if \<not> valid_side (decode_side (c_side command)) then InvalidSide
          else if to_int (c_price_ticks command) \<le> 0 then InvalidPrice
          else if to_int (c_quantity_lots command) \<le> 0 then InvalidQuantity
          else if decode_time_in_force command \<noteq> Some Gtc then UnsupportedTimeInForce
          else NoRejection))"

definition bind_instrument_if_needed :: "OrderBook \<Rightarrow> u32 \<Rightarrow> OrderBook" where
  "bind_instrument_if_needed b instrument_id =
     (case b_instrument_id b of
        None \<Rightarrow> b\<lparr>b_instrument_id := Some instrument_id\<rparr>
      | Some _ \<Rightarrow> b)"

section \<open>Matching\<close>

text \<open>
  The inner loop of both matching functions: the queue of one price level against what is left
  of the incoming order. The front order is updated in place, and popped when nothing remains
  of it; \<open>active_orders_\<close> is rewritten at every trade.
\<close>

function match_queue ::
  "OrderCommandRecordV1 \<Rightarrow> i64 \<Rightarrow> RestingOrder list \<Rightarrow> i64 \<Rightarrow> OrderBook \<Rightarrow>
   ExecutionEventRecordV1 list \<Rightarrow>
   RestingOrder list \<times> i64 \<times> OrderBook \<times> ExecutionEventRecordV1 list" where
  "match_queue command price [] incoming b events = ([], incoming, b, events)"
| "match_queue command price (front # resting_orders) incoming b events =
     (if 0 < to_int incoming then
        (let trade_quantity_lots = min incoming (r_remaining_quantity_lots front);
             incoming' = incoming - trade_quantity_lots;
             front' = front\<lparr>r_remaining_quantity_lots :=
                              r_remaining_quantity_lots front - trade_quantity_lots\<rparr>;
             b1 = b\<lparr>b_active_orders :=
                      AList.update (r_order_id front') front' (b_active_orders b)\<rparr>;
             (event, b2) = emit_trade_event b1 command front' price trade_quantity_lots incoming';
             events' = events @ [event]
         in if to_int (r_remaining_quantity_lots front') = 0
            then match_queue command price resting_orders incoming'
                   (b2\<lparr>b_active_orders := AList.delete (r_order_id front') (b_active_orders b2)\<rparr>)
                   events'
            else match_queue command price (front' # resting_orders) incoming' b2 events')
      else (front # resting_orders, incoming, b, events))"
  by pat_completeness auto

text \<open>A front order that survives its trade has used up the incoming order.\<close>

lemma survivor_exhausts:
  "to_int (q - min incoming q) \<noteq> 0 \<Longrightarrow> incoming - min incoming q = (0 :: i64)"
  by (auto simp: min_def split: if_splits)

termination match_queue
  apply (relation "measure (\<lambda>(command, price, queue, incoming, b, events).
      2 * length queue + (if 0 < to_int incoming then 1 else 0))")
    apply simp
   apply simp
  subgoal premises p for command price front resting_orders incoming
    using p survivor_exhausts [of "r_remaining_quantity_lots front" incoming] by simp
  done

declare match_queue.simps(2) [simp del]

text \<open>
  The three ways through the loop body, with the event and the book written out: nothing left
  to trade, the front order filled and popped, the front order partially filled.
\<close>

definition trade_event ::
  "OrderBook \<Rightarrow> OrderCommandRecordV1 \<Rightarrow> u64 \<Rightarrow> i64 \<Rightarrow> i64 \<Rightarrow> i64 \<Rightarrow> ExecutionEventRecordV1" where
  "trade_event b command contra price qty incoming_remaining =
     \<lparr>e_event_sequence = b_next_event_sequence b, e_command_sequence = c_command_sequence command,
      e_source_ingress_epoch = c_source_ingress_epoch command,
      e_source_ingress_sequence = c_source_ingress_sequence command,
      e_order_id = c_order_id command, e_contra_order_id = contra,
      e_trade_id = b_next_trade_id b, e_price_ticks = price, e_quantity_lots = qty,
      e_remaining_quantity_lots = incoming_remaining, e_instrument_id = c_instrument_id command,
      e_event_type = event_type_code TradeExecuted, e_side = c_side command,
      e_rejection_reason = 0, e_reserved = 0\<rparr>"

definition traded :: "OrderBook \<Rightarrow> (u64 \<times> RestingOrder) list \<Rightarrow> OrderBook" where
  "traded b active = b\<lparr>b_next_event_sequence := b_next_event_sequence b + 1,
     b_next_trade_id := b_next_trade_id b + 1, b_active_orders := active\<rparr>"

lemma emit_trade_event_eq:
  "emit_trade_event (b\<lparr>b_active_orders := active\<rparr>) command r price qty incoming =
     (trade_event b command (r_order_id r) price qty incoming, traded b active)"
  by (simp add: emit_trade_event_def emit_order_event_def trade_event_def traded_def empty_event_def)

lemma match_queue_stop: "\<not> 0 < to_int incoming \<Longrightarrow>
  match_queue command price queue incoming b events = (queue, incoming, b, events)"
  by (cases queue) (auto simp: match_queue.simps(2))

lemma match_queue_fill:
  assumes "0 < to_int incoming" "r_remaining_quantity_lots front \<le> incoming"
  shows "match_queue command price (front # rest) incoming b events =
    match_queue command price rest (incoming - r_remaining_quantity_lots front)
      (traded b (AList.delete (r_order_id front) (b_active_orders b)))
      (events @ [trade_event b command (r_order_id front) price (r_remaining_quantity_lots front)
                   (incoming - r_remaining_quantity_lots front)])"
  using assms
  by (simp add: match_queue.simps(2) emit_trade_event_eq min_absorb2 Let_def)
    (simp add: traded_def delete_update_same)

lemma match_queue_partial:
  assumes "0 < to_int incoming" "incoming < r_remaining_quantity_lots front"
  shows "match_queue command price (front # rest) incoming b events =
    (let front' = front\<lparr>r_remaining_quantity_lots := r_remaining_quantity_lots front - incoming\<rparr>
     in (front' # rest, 0, traded b (AList.update (r_order_id front) front' (b_active_orders b)),
         events @ [trade_event b command (r_order_id front) price incoming 0]))"
  using assms
  by (auto simp: match_queue.simps(2) emit_trade_event_eq min_def match_queue_stop Let_def)

lemmas match_queue_unfold = match_queue_stop match_queue_fill match_queue_partial

lemma match_queue_exhausts:
  "match_queue command price queue incoming b events = (queue', incoming', b', events') \<Longrightarrow>
   queue' \<noteq> [] \<Longrightarrow> \<not> 0 < to_int incoming'"
proof (induction queue arbitrary: incoming b events)
  case Nil
  then show ?case by simp
next
  case (Cons front rest)
  consider "\<not> 0 < to_int incoming"
    | "0 < to_int incoming" "r_remaining_quantity_lots front \<le> incoming"
    | "0 < to_int incoming" "incoming < r_remaining_quantity_lots front"
    by fastforce
  then show ?case
    by cases (use Cons in \<open>auto simp: match_queue_unfold Let_def\<close>)
qed

text \<open>
  The outer loop, over the price levels from the best one: it ends when the incoming order is
  used up, the side is empty, or the best price does not cross (\<open>break\<close>). \<open>no_cross\<close> is the
  test of the \<open>break\<close>, the only place where the two matching functions differ besides the side
  they work on.
\<close>

function match_levels ::
  "(i64 \<Rightarrow> bool) \<Rightarrow> OrderCommandRecordV1 \<Rightarrow> price_levels \<Rightarrow> i64 \<Rightarrow> OrderBook \<Rightarrow>
   ExecutionEventRecordV1 list \<Rightarrow>
   price_levels \<times> i64 \<times> OrderBook \<times> ExecutionEventRecordV1 list" where
  "match_levels no_cross command [] incoming b events = ([], incoming, b, events)"
| "match_levels no_cross command ((best_price, resting_orders) # worse) incoming b events =
     (if 0 < to_int incoming then
        (if no_cross best_price
         then ((best_price, resting_orders) # worse, incoming, b, events)
         else (case match_queue command best_price resting_orders incoming b events of
           (resting_orders', incoming', b', events') \<Rightarrow>
             if resting_orders' = []
             then match_levels no_cross command worse incoming' b' events'
             else match_levels no_cross command ((best_price, resting_orders') # worse)
                    incoming' b' events'))
      else ((best_price, resting_orders) # worse, incoming, b, events))"
  by pat_completeness auto

termination match_levels
  apply (relation "measure (\<lambda>(no_cross, command, ls, incoming, b, events).
      2 * length ls + (if 0 < to_int incoming then 1 else 0))")
    apply simp
   apply (auto split: prod.splits) []
  subgoal premises p for no_cross command best_price resting_orders worse incoming b events
    using p
  proof (cases "match_queue command best_price resting_orders incoming b events")
    case (fields queue' incoming' b' events')
    with p have "\<not> 0 < to_int incoming'"
      by (auto dest: match_queue_exhausts)
    with p fields show ?thesis by auto
  qed
  done

declare match_levels.simps(2) [simp del]

definition match_buy_order_against_asks ::
  "OrderBook \<Rightarrow> OrderCommandRecordV1 \<Rightarrow> ExecutionEventRecordV1 list \<Rightarrow>
   i64 \<times> OrderBook \<times> ExecutionEventRecordV1 list" where
  "match_buy_order_against_asks b command events =
     (case match_levels (\<lambda>best_ask. c_price_ticks command < best_ask) command (b_asks b)
             (c_quantity_lots command) b events of
        (asks, incoming, b', events') \<Rightarrow> (incoming, b'\<lparr>b_asks := asks\<rparr>, events'))"

definition match_sell_order_against_bids ::
  "OrderBook \<Rightarrow> OrderCommandRecordV1 \<Rightarrow> ExecutionEventRecordV1 list \<Rightarrow>
   i64 \<times> OrderBook \<times> ExecutionEventRecordV1 list" where
  "match_sell_order_against_bids b command events =
     (case match_levels (\<lambda>best_bid. c_price_ticks command > best_bid) command (b_bids b)
             (c_quantity_lots command) b events of
        (bids, incoming, b', events') \<Rightarrow> (incoming, b'\<lparr>b_bids := bids\<rparr>, events'))"

section \<open>Resting and removing orders\<close>

definition rest_order :: "OrderBook \<Rightarrow> OrderCommandRecordV1 \<Rightarrow> i64 \<Rightarrow> OrderBook" where
  "rest_order b command remaining_quantity_lots =
     (let resting_order =
            \<lparr>r_order_id = c_order_id command, r_client_id = c_client_id command,
             r_instrument_id = c_instrument_id command, r_side = c_side command,
             r_price_ticks = c_price_ticks command,
             r_remaining_quantity_lots = remaining_quantity_lots\<rparr>;
          b' = (if decode_side (c_side command) = Some Buy
                then b\<lparr>b_bids := level_push_back (>) (c_price_ticks command) resting_order (b_bids b)\<rparr>
                else b\<lparr>b_asks := level_push_back (<) (c_price_ticks command) resting_order (b_asks b)\<rparr>)
      in b'\<lparr>b_active_orders :=
             AList.update (c_order_id command) resting_order (b_active_orders b')\<rparr>)"

definition erase_order_from_price_levels :: "price_levels \<Rightarrow> RestingOrder \<Rightarrow> price_levels" where
  "erase_order_from_price_levels levels resting_order =
     level_erase (r_price_ticks resting_order)
       (\<lambda>order. r_order_id order = r_order_id resting_order) levels"

definition remove_cancelled_order :: "OrderBook \<Rightarrow> RestingOrder \<Rightarrow> OrderBook" where
  "remove_cancelled_order b resting_order =
     (let b' = (if decode_side (r_side resting_order) = Some Buy
                then b\<lparr>b_bids := erase_order_from_price_levels (b_bids b) resting_order\<rparr>
                else b\<lparr>b_asks := erase_order_from_price_levels (b_asks b) resting_order\<rparr>)
      in b'\<lparr>b_active_orders := AList.delete (r_order_id resting_order) (b_active_orders b')\<rparr>)"

section \<open>Commands\<close>

definition apply_new_order ::
  "OrderBook \<Rightarrow> OrderCommandRecordV1 \<Rightarrow> ExecutionEventRecordV1 list \<times> OrderBook" where
  "apply_new_order b command =
     (let rejection_reason = validate_new_order b command in
      if rejection_reason \<noteq> NoRejection
      then (case emit_rejection_event b command rejection_reason of (event, b') \<Rightarrow> ([event], b'))
      else
        (let b1 = bind_instrument_if_needed b (c_instrument_id command);
             (accepted, b2) = emit_order_event b1 command OrderAccepted
                                (c_quantity_lots command) (c_quantity_lots command);
             (incoming, b3, events) =
               (if decode_side (c_side command) = Some Buy
                then match_buy_order_against_asks b2 command [accepted]
                else match_sell_order_against_bids b2 command [accepted])
         in if to_int incoming = 0
            then (case emit_order_event b3 command OrderFullyFilled
                         (c_quantity_lots command) (I64 0) of
                    (event, b4) \<Rightarrow> (events @ [event], b4))
            else
              (let b4 = rest_order b3 command incoming;
                   has_trade = (incoming \<noteq> c_quantity_lots command)
               in case emit_order_event b4 command
                         (if has_trade then OrderPartiallyFilled else OrderRested)
                         (c_quantity_lots command - incoming) incoming of
                    (event, b5) \<Rightarrow> (events @ [event], b5))))"

definition apply_cancel_order ::
  "OrderBook \<Rightarrow> OrderCommandRecordV1 \<Rightarrow> ExecutionEventRecordV1 list \<times> OrderBook" where
  "apply_cancel_order b command =
     (if decode_command_type (c_command_type command) \<noteq> Some CancelOrder
      then (case emit_rejection_event b command UnsupportedCommand of (event, b') \<Rightarrow> ([event], b'))
      else (case find_order b (c_order_id command) of
        None \<Rightarrow>
          (case emit_rejection_event b command UnknownOrderId of (event, b') \<Rightarrow> ([event], b'))
      | Some resting_order \<Rightarrow>
          if r_instrument_id resting_order \<noteq> c_instrument_id command
          then (case emit_rejection_event b command InstrumentMismatch of (event, b') \<Rightarrow> ([event], b'))
          else (case emit_cancel_event (remove_cancelled_order b resting_order) command resting_order of
                  (event, b') \<Rightarrow> ([event], b'))))"

text \<open>
  After a replace command has passed validation the old order is in the index, so the \<open>None\<close>
  branch (dereferencing an empty \<open>optional\<close>) is not taken.
\<close>

definition encode_command_type :: "CommandType \<Rightarrow> u16" where
  "encode_command_type command_type = command_type_code command_type"

declare encode_command_type_def [simp]

definition apply_replace_order ::
  "OrderBook \<Rightarrow> OrderCommandRecordV1 \<Rightarrow> ExecutionEventRecordV1 list \<times> OrderBook" where
  "apply_replace_order b command =
     (let rejection_reason = validate_replace_order b command in
      if rejection_reason \<noteq> NoRejection
      then (case emit_rejection_event b command rejection_reason of (event, b') \<Rightarrow> ([event], b'))
      else (case find_order b (c_order_id command) of
        None \<Rightarrow> ([], b)
      | Some resting_order \<Rightarrow>
          (let (cancelled, b1) =
                 emit_cancel_event (remove_cancelled_order b resting_order) command resting_order;
               replacement_new_order_command =
                 command\<lparr>c_command_type := encode_command_type NewOrder,
                         c_order_id := c_replacement_order_id command\<rparr>;
               (replacement_events, b2) = apply_new_order b1 replacement_new_order_command
           in ([cancelled] @ replacement_events, b2))))"

definition reject_unsupported_command ::
  "OrderBook \<Rightarrow> OrderCommandRecordV1 \<Rightarrow> ExecutionEventRecordV1 list \<times> OrderBook" where
  "reject_unsupported_command b command =
     (case emit_rejection_event b command UnsupportedCommand of (event, b') \<Rightarrow> ([event], b'))"

section \<open>The run-time invariant check\<close>

text \<open>
  \<open>std::unordered_set\<close> of order ids: a list without duplicates. \<open>insert(id).second\<close> is false
  when the id was there. The checks run in the order of the source and stop at the first that
  fails; the set is threaded from the bids to the asks.
\<close>

definition validate_resting_order_against_active_index ::
  "OrderBook \<Rightarrow> RestingOrder \<Rightarrow> i64 \<Rightarrow> Side \<Rightarrow> u64 list \<Rightarrow> bool \<times> u64 list" where
  "validate_resting_order_against_active_index b resting_order price_ticks expected_side queued =
     (if decode_side (r_side resting_order) \<noteq> Some expected_side
         \<or> r_price_ticks resting_order \<noteq> price_ticks
         \<or> to_int (r_remaining_quantity_lots resting_order) \<le> 0
      then (False, queued)
      else if r_order_id resting_order \<in> set queued then (False, queued)
      else (case map_of (b_active_orders b) (r_order_id resting_order) of
        None \<Rightarrow> (False, r_order_id resting_order # queued)
      | Some active_order \<Rightarrow>
          (r_client_id active_order = r_client_id resting_order
           \<and> r_instrument_id active_order = r_instrument_id resting_order
           \<and> r_side active_order = r_side resting_order
           \<and> r_price_ticks active_order = r_price_ticks resting_order
           \<and> r_remaining_quantity_lots active_order = r_remaining_quantity_lots resting_order,
           r_order_id resting_order # queued)))"

fun validate_level_orders ::
  "OrderBook \<Rightarrow> i64 \<Rightarrow> Side \<Rightarrow> RestingOrder list \<Rightarrow> u64 list \<Rightarrow> bool \<times> u64 list" where
  "validate_level_orders b price_ticks expected_side [] queued = (True, queued)"
| "validate_level_orders b price_ticks expected_side (resting_order # resting_orders) queued =
     (case validate_resting_order_against_active_index b resting_order price_ticks expected_side queued of
        (ok, queued') \<Rightarrow>
          if \<not> ok then (False, queued')
          else validate_level_orders b price_ticks expected_side resting_orders queued')"

fun validate_price_levels_against_active_orders ::
  "OrderBook \<Rightarrow> Side \<Rightarrow> price_levels \<Rightarrow> u64 list \<Rightarrow> bool \<times> u64 list" where
  "validate_price_levels_against_active_orders b expected_side [] queued = (True, queued)"
| "validate_price_levels_against_active_orders b expected_side ((price_ticks, resting_orders) # levels) queued =
     (if resting_orders = [] \<or> to_int price_ticks \<le> 0 then (False, queued)
      else (case validate_level_orders b price_ticks expected_side resting_orders queued of
        (ok, queued') \<Rightarrow>
          if \<not> ok then (False, queued')
          else validate_price_levels_against_active_orders b expected_side levels queued'))"

text \<open>
  The member function is overloaded for the two types of maps, with the same text; both overloads
  agree.
\<close>

fun validate_ask_price_levels ::
  "OrderBook \<Rightarrow> Side \<Rightarrow> price_levels \<Rightarrow> u64 list \<Rightarrow> bool \<times> u64 list" where
  "validate_ask_price_levels b expected_side [] queued = (True, queued)"
| "validate_ask_price_levels b expected_side ((price_ticks, resting_orders) # levels) queued =
     (if resting_orders = [] \<or> to_int price_ticks \<le> 0 then (False, queued)
      else (case validate_level_orders b price_ticks expected_side resting_orders queued of
        (ok, queued') \<Rightarrow>
          if \<not> ok then (False, queued')
          else validate_ask_price_levels b expected_side levels queued'))"

lemma validate_ask_price_levels_eq:
  "validate_ask_price_levels b s ls queued = validate_price_levels_against_active_orders b s ls queued"
  by (induction b s ls queued rule: validate_ask_price_levels.induct) (simp_all split: prod.splits)

definition validate_bid_levels :: "OrderBook \<Rightarrow> u64 list \<Rightarrow> bool \<times> u64 list" where
  "validate_bid_levels b queued = validate_price_levels_against_active_orders b Buy (b_bids b) queued"

definition validate_ask_levels :: "OrderBook \<Rightarrow> u64 list \<Rightarrow> bool \<times> u64 list" where
  "validate_ask_levels b queued = validate_ask_price_levels b Sell (b_asks b) queued"

definition validate_active_orders_are_queued :: "OrderBook \<Rightarrow> u64 list \<Rightarrow> bool" where
  "validate_active_orders_are_queued b queued =
     (length queued = length (b_active_orders b) \<and>
      list_all (\<lambda>(order_id, resting_order).
          order_id \<in> set queued \<and> 0 < to_int (r_remaining_quantity_lots resting_order))
        (b_active_orders b))"

definition validate_invariants :: "OrderBook \<Rightarrow> bool" where
  "validate_invariants b =
     (case validate_bid_levels b [] of (bids_ok, queued) \<Rightarrow>
        if \<not> bids_ok then False
        else (case validate_ask_levels b queued of (asks_ok, queued') \<Rightarrow>
          if \<not> asks_ok then False
          else if \<not> validate_active_orders_are_queued b queued' then False
          else (case (b_bids b, b_asks b) of
              ((best_bid, _) # _, (best_ask, _) # _) \<Rightarrow> best_bid < best_ask
            | _ \<Rightarrow> True)))"

end
