(* ===== verification/Matching.thy ===== *)
theory Matching
  imports OrderBook "HOL-Library.Sublist"
begin

text \<open>
  The abstract specification of matching and the refinement by the code. A side of the book is
  one queue in price-time priority; \<open>sweep\<close> fills the incoming order from its front. The nested
  loops of \<open>match_buy_order_against_asks\<close> and \<open>match_sell_order_against_bids\<close>, which work on
  price levels, the order index and the counters, compute exactly this.
\<close>

section \<open>Specification: one priority queue\<close>

text \<open>
  \<open>sweep no_cross incoming queue\<close>: the trades (the resting order as it was, and the quantity),
  what is left of the incoming order, and the queue after matching.
\<close>

fun sweep ::
  "(i64 \<Rightarrow> bool) \<Rightarrow> i64 \<Rightarrow> RestingOrder list \<Rightarrow>
   (RestingOrder \<times> i64) list \<times> i64 \<times> RestingOrder list" where
  "sweep no_cross incoming [] = ([], incoming, [])"
| "sweep no_cross incoming (r # rs) =
     (if \<not> 0 < to_int incoming \<or> no_cross (r_price_ticks r) then ([], incoming, r # rs)
      else if r_remaining_quantity_lots r \<le> incoming
      then (case sweep no_cross (incoming - r_remaining_quantity_lots r) rs of
             (trades, incoming', rs') \<Rightarrow> ((r, r_remaining_quantity_lots r) # trades, incoming', rs'))
      else ([(r, incoming)], 0,
            r\<lparr>r_remaining_quantity_lots := r_remaining_quantity_lots r - incoming\<rparr> # rs))"

text \<open>What the trades of a sweep do to the events, the counters and the index.\<close>

definition advance :: "OrderBook \<Rightarrow> nat \<Rightarrow> nat \<Rightarrow> OrderBook" where
  "advance b n m = b\<lparr>b_next_event_sequence := b_next_event_sequence b + of_nat n,
     b_next_trade_id := b_next_trade_id b + of_nat m\<rparr>"

fun trade_events ::
  "OrderBook \<Rightarrow> OrderCommandRecordV1 \<Rightarrow> i64 \<Rightarrow> (RestingOrder \<times> i64) list \<Rightarrow>
   ExecutionEventRecordV1 list" where
  "trade_events b command incoming [] = []"
| "trade_events b command incoming ((r, qty) # trades) =
     trade_event b command (r_order_id r) (r_price_ticks r) qty (incoming - qty)
     # trade_events (advance b 1 1) command (incoming - qty) trades"

fun index_trades ::
  "(u64 \<times> RestingOrder) list \<Rightarrow> (RestingOrder \<times> i64) list \<Rightarrow> (u64 \<times> RestingOrder) list" where
  "index_trades active [] = active"
| "index_trades active ((r, qty) # trades) =
     index_trades
       (if qty = r_remaining_quantity_lots r then AList.delete (r_order_id r) active
        else AList.update (r_order_id r)
               (r\<lparr>r_remaining_quantity_lots := r_remaining_quantity_lots r - qty\<rparr>) active)
       trades"

definition after_trades :: "OrderBook \<Rightarrow> (RestingOrder \<times> i64) list \<Rightarrow> OrderBook" where
  "after_trades b trades =
     (advance b (length trades) (length trades))
       \<lparr>b_active_orders := index_trades (b_active_orders b) trades\<rparr>"

lemma advance_fields [simp]:
  "b_next_event_sequence (advance b n m) = b_next_event_sequence b + of_nat n"
  "b_next_trade_id (advance b n m) = b_next_trade_id b + of_nat m"
  "b_bids (advance b n m) = b_bids b" "b_asks (advance b n m) = b_asks b"
  "b_active_orders (advance b n m) = b_active_orders b"
  "b_instrument_id (advance b n m) = b_instrument_id b"
  by (simp_all add: advance_def)

lemma advance_0 [simp]: "advance b 0 0 = b"
  by (simp add: advance_def)

lemma advance_advance: "advance (advance b n m) n' m' = advance b (n + n') (m + m')"
  by (simp add: advance_def algebra_simps)

lemma after_trades_Nil [simp]: "after_trades b [] = b"
  by (simp add: after_trades_def)

lemma after_trades_fields [simp]:
  "b_next_event_sequence (after_trades b ts) = b_next_event_sequence b + of_nat (length ts)"
  "b_next_trade_id (after_trades b ts) = b_next_trade_id b + of_nat (length ts)"
  "b_bids (after_trades b ts) = b_bids b" "b_asks (after_trades b ts) = b_asks b"
  "b_active_orders (after_trades b ts) = index_trades (b_active_orders b) ts"
  "b_instrument_id (after_trades b ts) = b_instrument_id b"
  by (simp_all add: after_trades_def)

lemma trade_event_cong:
  "b_next_event_sequence b = b_next_event_sequence b' \<Longrightarrow> b_next_trade_id b = b_next_trade_id b' \<Longrightarrow>
   trade_event b c r p q i = trade_event b' c r p q i"
  by (simp add: trade_event_def)

lemma trade_events_cong:
  "b_next_event_sequence b = b_next_event_sequence b' \<Longrightarrow> b_next_trade_id b = b_next_trade_id b' \<Longrightarrow>
   trade_events b c i ts = trade_events b' c i ts"
proof (induction b c i ts arbitrary: b' rule: trade_events.induct)
  case (2 b command incoming r qty trades)
  have "trade_events (advance b 1 1) command (incoming - qty) trades =
      trade_events (advance b' 1 1) command (incoming - qty) trades"
    using 2 by (intro "2.IH") auto
  with 2 show ?case by (simp add: trade_event_cong [of b b'])
qed simp

lemma trade_events_traded [simp]:
  "trade_events (traded b active) c i ts = trade_events (advance b 1 1) c i ts"
  by (rule trade_events_cong) (simp_all add: traded_def)

lemma after_trades_traded [simp]:
  "after_trades (traded b active) ts =
     (advance b (Suc (length ts)) (Suc (length ts)))\<lparr>b_active_orders := index_trades active ts\<rparr>"
  by (simp add: after_trades_def traded_def advance_def algebra_simps)

lemma length_trade_events [simp]: "length (trade_events b c i ts) = length ts"
  by (induction b c i ts rule: trade_events.induct) auto

section \<open>The loops compute the sweep\<close>

text \<open>All orders of a level rest at its price, and no level is empty.\<close>

definition priced :: "price_levels \<Rightarrow> bool" where
  "priced ls \<longleftrightarrow> (\<forall>(p, q) \<in> set ls. q \<noteq> [] \<and> (\<forall>r \<in> set q. r_price_ticks r = p))"

lemma priced_Cons [simp]:
  "priced ((p, q) # ls) \<longleftrightarrow> q \<noteq> [] \<and> (\<forall>r \<in> set q. r_price_ticks r = p) \<and> priced ls"
  by (auto simp: priced_def)

lemma priced_Nil [simp]: "priced []"
  by (simp add: priced_def)

text \<open>Inner loop: one level whose price crosses.\<close>

lemma match_queue_sweep:
  assumes "\<forall>r \<in> set queue. r_price_ticks r = price" "\<not> no_cross price"
    and "sweep no_cross incoming queue = (trades, incoming', queue')"
  shows "match_queue command price queue incoming b events =
    (queue', incoming', after_trades b trades, events @ trade_events b command incoming trades)"
  using assms
proof (induction queue arbitrary: incoming b events trades)
  case Nil
  then show ?case by simp
next
  case (Cons r rs)
  consider "\<not> 0 < to_int incoming"
    | "0 < to_int incoming" "r_remaining_quantity_lots r \<le> incoming"
    | "0 < to_int incoming" "incoming < r_remaining_quantity_lots r"
    by fastforce
  then show ?case
  proof cases
    case 1
    with Cons.prems show ?thesis by (auto simp: match_queue_stop)
  next
    case 2
    with Cons.prems obtain trades0 where
      rest: "sweep no_cross (incoming - r_remaining_quantity_lots r) rs = (trades0, incoming', queue')"
      and trades: "trades = (r, r_remaining_quantity_lots r) # trades0"
      by (auto split: prod.splits)
    show ?thesis
      using 2 Cons.prems(1,2) Cons.IH [OF _ _ rest]
      by (simp add: trades match_queue_fill after_trades_def [of b "_ # _"])
  next
    case 3
    with Cons.prems show ?thesis
      by (auto simp: match_queue_partial Let_def after_trades_def traded_def advance_def
          split: if_splits prod.splits)
  qed
qed

lemma sweep_stop: "\<not> 0 < to_int incoming \<Longrightarrow> sweep no_cross incoming queue = ([], incoming, queue)"
  by (cases queue) auto

lemma sweep_append:
  "sweep no_cross incoming (q @ rs) =
     (case sweep no_cross incoming q of (trades, incoming', q') \<Rightarrow>
        if q' = [] then (case sweep no_cross incoming' rs of
            (trades', incoming'', rs') \<Rightarrow> (trades @ trades', incoming'', rs'))
        else (trades, incoming', q' @ rs))"
  by (induction q arbitrary: incoming) (auto split: prod.splits)

lemma sweep_remaining:
  "sweep no_cross incoming queue = (trades, incoming', queue') \<Longrightarrow>
   incoming' = incoming - sum_list (map snd trades)"
proof (induction queue arbitrary: incoming trades)
  case (Cons r rs)
  from Cons.prems show ?case
    by (auto split: if_splits prod.splits simp: diff_diff_eq dest!: Cons.IH)
qed simp

lemma index_trades_append: "index_trades al (ts @ ts') = index_trades (index_trades al ts) ts'"
  by (induction al ts rule: index_trades.induct) auto

lemma after_trades_append: "after_trades (after_trades b ts) ts' = after_trades b (ts @ ts')"
  by (simp add: after_trades_def advance_def index_trades_append algebra_simps)

lemma trade_events_append:
  "trade_events b c incoming (ts @ ts') =
     trade_events b c incoming ts
     @ trade_events (after_trades b ts) c (incoming - sum_list (map snd ts)) ts'"
proof (induction b c incoming ts rule: trade_events.induct)
  case (2 b command incoming r qty trades)
  have "trade_events (after_trades (advance b 1 1) trades) command
          (incoming - qty - sum_list (map snd trades)) ts' =
        trade_events (after_trades b ((r, qty) # trades)) command
          (incoming - qty - sum_list (map snd trades)) ts'"
    by (rule trade_events_cong) (simp_all add: algebra_simps)
  with 2 show ?case by (simp add: diff_diff_eq)
qed simp

text \<open>The ways through the body of the outer loop.\<close>

lemma match_levels_stop:
  "\<not> 0 < to_int incoming \<Longrightarrow>
   match_levels no_cross command ls incoming b events = (ls, incoming, b, events)"
  by (cases ls) (auto simp: match_levels.simps(2))

lemma match_levels_break:
  "no_cross p \<Longrightarrow>
   match_levels no_cross command ((p, q) # ls) incoming b events = ((p, q) # ls, incoming, b, events)"
  by (auto simp: match_levels.simps(2))

lemma match_levels_body:
  assumes "0 < to_int incoming" "\<not> no_cross p"
    and "match_queue command p q incoming b events = (q', incoming', b', events')"
  shows "match_levels no_cross command ((p, q) # ls) incoming b events =
    (if q' = [] then match_levels no_cross command ls incoming' b' events'
     else ((p, q') # ls, incoming', b', events'))"
  using assms match_queue_exhausts [OF assms(3)]
  by (simp add: match_levels.simps(2) match_levels_stop)

lemma sweep_preserves:
  assumes "sweep no_cross incoming queue = (trades, incoming', queue')" "\<forall>r \<in> set queue. P r"
    and "\<And>r x. P r \<Longrightarrow> 0 < to_int x \<Longrightarrow> x < r_remaining_quantity_lots r \<Longrightarrow>
      P (r\<lparr>r_remaining_quantity_lots := r_remaining_quantity_lots r - x\<rparr>)"
  shows "\<forall>r \<in> set queue'. P r"
  using assms(1,2)
proof (induction queue arbitrary: incoming trades)
  case (Cons r rs)
  then show ?case using assms(3) [of r incoming] by (auto split: if_splits prod.splits)
qed simp

text \<open>One round of the outer loop, on a level that crosses.\<close>

lemma match_levels_round:
  assumes "0 < to_int incoming" "\<not> no_cross p" "\<forall>r \<in> set q. r_price_ticks r = p"
    and "sweep no_cross incoming q = (ts, i, q')"
  shows "match_levels no_cross command ((p, q) # ls) incoming b events =
    (if q' = []
     then match_levels no_cross command ls i (after_trades b ts)
            (events @ trade_events b command incoming ts)
     else ((p, q') # ls, i, after_trades b ts, events @ trade_events b command incoming ts))"
  using assms(1,2) match_queue_sweep [OF assms(3,2,4)] by (rule match_levels_body)

text \<open>What the outer loop promises, as a relation between its start and its result.\<close>

definition swept ::
  "(i64 \<Rightarrow> bool) \<Rightarrow> OrderCommandRecordV1 \<Rightarrow> price_levels \<Rightarrow> i64 \<Rightarrow> OrderBook \<Rightarrow>
   ExecutionEventRecordV1 list \<Rightarrow>
   price_levels \<times> i64 \<times> OrderBook \<times> ExecutionEventRecordV1 list \<Rightarrow>
   (RestingOrder \<times> i64) list \<Rightarrow> bool" where
  "swept no_cross command ls incoming b events result trades \<longleftrightarrow>
     (case result of (ls', incoming', b', events') \<Rightarrow>
        sweep no_cross incoming (flat ls) = (trades, incoming', flat ls')
        \<and> b' = after_trades b trades
        \<and> events' = events @ trade_events b command incoming trades
        \<and> priced ls' \<and> suffix (map fst ls') (map fst ls))"

lemma swept_refl:
  assumes "priced ls" "\<not> 0 < to_int incoming \<or> (\<forall>r \<in> set (take 1 (flat ls)). no_cross (r_price_ticks r))"
  shows "swept no_cross command ls incoming b events (ls, incoming, b, events) []"
  using assms by (cases "flat ls") (auto simp: swept_def)

lemma swept_next_level:
  assumes "sweep no_cross incoming q = (ts, i, [])"
    and "swept no_cross command ls i (after_trades b ts)
           (events @ trade_events b command incoming ts) result ts'"
  shows "swept no_cross command ((p, q) # ls) incoming b events result (ts @ ts')"
  using assms sweep_remaining [OF assms(1)]
  by (auto simp: swept_def sweep_append after_trades_append trade_events_append suffix_ConsI
      split: prod.splits)

lemma swept_same_level:
  assumes "sweep no_cross incoming q = (ts, i, q')" "q' \<noteq> []" "priced ((p, q) # ls)"
  shows "swept no_cross command ((p, q) # ls) incoming b events
    ((p, q') # ls, i, after_trades b ts, events @ trade_events b command incoming ts) ts"
  using assms sweep_preserves [OF assms(1), of "\<lambda>r. r_price_ticks r = p"]
  by (auto simp: swept_def sweep_append)

text \<open>Outer loop: the levels in place of the flat queue.\<close>

lemma match_levels_swept:
  assumes "priced ls"
  shows "\<exists>trades. swept no_cross command ls incoming b events
           (match_levels no_cross command ls incoming b events) trades"
  using assms
proof (induction ls arbitrary: incoming b events)
  case Nil
  show ?case by (rule exI, rule match_levels.simps(1) [THEN ssubst], rule swept_refl) auto
next
  case (Cons l ls)
  obtain p q where l: "l = (p, q)" by (cases l)
  show ?case
  proof (cases "0 < to_int incoming \<and> \<not> no_cross p")
    case False
    then have "match_levels no_cross command (l # ls) incoming b events = (l # ls, incoming, b, events)"
      by (auto simp: l match_levels_stop match_levels_break)
    moreover have "swept no_cross command (l # ls) incoming b events (l # ls, incoming, b, events) []"
      using False Cons.prems by (intro swept_refl) (cases q; auto simp: l)+
    ultimately show ?thesis by auto
  next
    case True
    obtain ts i q' where sw: "sweep no_cross incoming q = (ts, i, q')"
      by (cases "sweep no_cross incoming q")
    have level: "match_levels no_cross command (l # ls) incoming b events =
      (if q' = []
       then match_levels no_cross command ls i (after_trades b ts)
              (events @ trade_events b command incoming ts)
       else ((p, q') # ls, i, after_trades b ts, events @ trade_events b command incoming ts))"
      unfolding l by (rule match_levels_round) (use True Cons.prems sw in \<open>auto simp: l\<close>)
    show ?thesis
    proof (cases "q' = []")
      case True
      obtain ts' where "swept no_cross command ls i (after_trades b ts)
          (events @ trade_events b command incoming ts)
          (match_levels no_cross command (l # ls) incoming b events) ts'"
        using Cons.IH [of i "after_trades b ts" "events @ trade_events b command incoming ts"]
          Cons.prems True level by (auto simp: l)
      then show ?thesis using sw True by (auto simp: l intro: swept_next_level)
    next
      case False
      then show ?thesis
        using swept_same_level [OF sw] Cons.prems level unfolding l
        by (intro exI [of _ ts]) simp
    qed
  qed
qed

lemma match_levels_sweep:
  assumes "priced ls"
    and "match_levels no_cross command ls incoming b events = (ls', incoming', b', events')"
  obtains trades where "sweep no_cross incoming (flat ls) = (trades, incoming', flat ls')"
    "b' = after_trades b trades" "events' = events @ trade_events b command incoming trades"
    "priced ls'" "suffix (map fst ls') (map fst ls)"
  using match_levels_swept [OF assms(1), of no_cross command incoming b events] assms(2)
  by (auto simp: swept_def)

section \<open>Properties of the sweep\<close>

definition positive :: "RestingOrder list \<Rightarrow> bool" where
  "positive rs \<longleftrightarrow> (\<forall>r \<in> set rs. 0 < to_int (r_remaining_quantity_lots r))"

lemma positive_simps [simp]:
  "positive []"
  "positive (r # rs) \<longleftrightarrow> 0 < to_int (r_remaining_quantity_lots r) \<and> positive rs"
  "positive (rs @ rs') \<longleftrightarrow> positive rs \<and> positive rs'"
  by (auto simp: positive_def)

text \<open>Quantity is conserved, and nothing overflows.\<close>

lemma sweep_quantities:
  assumes "sweep no_cross incoming queue = (trades, incoming', queue')"
    and "positive queue" "0 \<le> to_int incoming"
  shows "0 \<le> to_int incoming'"
    and "to_int incoming = (\<Sum>(r, qty) \<leftarrow> trades. to_int qty) + to_int incoming'"
    and "\<forall>(r, qty) \<in> set trades. 0 < to_int qty \<and> qty \<le> r_remaining_quantity_lots r"
    and "positive queue'"
proof -
  have "0 \<le> to_int incoming' \<and>
    to_int incoming = (\<Sum>(r, qty) \<leftarrow> trades. to_int qty) + to_int incoming' \<and>
    (\<forall>(r, qty) \<in> set trades. 0 < to_int qty \<and> qty \<le> r_remaining_quantity_lots r) \<and>
    positive queue'"
    using assms
  proof (induction queue arbitrary: incoming trades)
    case (Cons r rs)
    let ?q = "r_remaining_quantity_lots r"
    consider "\<not> 0 < to_int incoming \<or> no_cross (r_price_ticks r)"
      | "0 < to_int incoming" "\<not> no_cross (r_price_ticks r)" "?q \<le> incoming"
      | "0 < to_int incoming" "\<not> no_cross (r_price_ticks r)" "incoming < ?q"
      by fastforce
    then show ?case
    proof cases
      case 1
      with Cons.prems show ?thesis by auto
    next
      case 2
      with Cons.prems have "to_int (incoming - ?q) = to_int incoming - to_int ?q"
        by (intro to_int_minus_part) (auto simp: i64_simps)
      moreover obtain ts where
        ts: "sweep no_cross (incoming - ?q) rs = (ts, incoming', queue')"
        and "trades = (r, ?q) # ts"
        using 2 Cons.prems by (auto split: prod.splits)
      ultimately show ?thesis
        using 2 Cons.prems Cons.IH [OF ts] by (auto simp: i64_simps)
    next
      case 3
      then have "to_int (?q - incoming) = to_int ?q - to_int incoming"
        by (intro to_int_minus_part) (auto simp: i64_simps)
      with 3 Cons.prems show ?thesis
        by (auto simp: i64_simps split: if_splits prod.splits)
    qed
  qed simp
  then show "0 \<le> to_int incoming'"
    and "to_int incoming = (\<Sum>(r, qty) \<leftarrow> trades. to_int qty) + to_int incoming'"
    and "\<forall>(r, qty) \<in> set trades. 0 < to_int qty \<and> qty \<le> r_remaining_quantity_lots r"
    and "positive queue'"
    by auto
qed

text \<open>Matching only stops early when the best remaining order does not cross.\<close>

lemma sweep_exhaustive:
  "sweep no_cross incoming queue = (trades, incoming', queue') \<Longrightarrow> 0 < to_int incoming' \<Longrightarrow>
   queue' = [] \<or> no_cross (r_price_ticks (hd queue'))"
  by (induction queue arbitrary: incoming trades) (auto split: if_splits prod.splits)

lemma sweep_crosses:
  "sweep no_cross incoming queue = (trades, incoming', queue') \<Longrightarrow>
   (r, qty) \<in> set trades \<Longrightarrow> r \<in> set queue \<and> \<not> no_cross (r_price_ticks r)"
  by (induction queue arbitrary: incoming trades) (fastforce split: if_splits prod.splits)+

text \<open>
  Price-time priority: the trades run through the queue in its order, every order but the last
  traded one is filled completely, and the orders behind are untouched.
\<close>

definition filled :: "RestingOrder list \<Rightarrow> (RestingOrder \<times> i64) list" where
  "filled rs = map (\<lambda>r. (r, r_remaining_quantity_lots r)) rs"

lemma filled_simps [simp]:
  "filled [] = []" "filled (r # rs) = (r, r_remaining_quantity_lots r) # filled rs"
  by (simp_all add: filled_def)

lemma sweep_priority:
  assumes "sweep no_cross incoming queue = (trades, incoming', queue')"
  shows "\<exists>front behind. queue = front @ behind \<and>
    (trades = filled front \<and> queue' = behind \<or>
     (\<exists>r rest x. behind = r # rest \<and> trades = filled front @ [(r, x)] \<and>
        x < r_remaining_quantity_lots r \<and> 0 < to_int x \<and> incoming' = 0 \<and>
        queue' = r\<lparr>r_remaining_quantity_lots := r_remaining_quantity_lots r - x\<rparr> # rest))"
  using assms
proof (induction queue arbitrary: incoming trades)
  case Nil
  then show ?case by auto
next
  case (Cons r rs)
  let ?q = "r_remaining_quantity_lots r"
  consider "\<not> 0 < to_int incoming \<or> no_cross (r_price_ticks r)"
    | "0 < to_int incoming" "\<not> no_cross (r_price_ticks r)" "?q \<le> incoming"
    | "0 < to_int incoming" "\<not> no_cross (r_price_ticks r)" "incoming < ?q"
    by fastforce
  then show ?case
  proof cases
    case 1
    with Cons.prems show ?thesis by (intro exI [of _ "[]"] exI [of _ "r # rs"]) auto
  next
    case 2
    then obtain ts where "sweep no_cross (incoming - ?q) rs = (ts, incoming', queue')"
      and trades: "trades = (r, ?q) # ts"
      using Cons.prems by (auto split: prod.splits)
    from Cons.IH [OF this(1)] obtain front behind where "rs = front @ behind"
      and "ts = filled front \<and> queue' = behind \<or>
       (\<exists>r rest x. behind = r # rest \<and> ts = filled front @ [(r, x)] \<and>
          x < r_remaining_quantity_lots r \<and> 0 < to_int x \<and> incoming' = 0 \<and>
          queue' = r\<lparr>r_remaining_quantity_lots := r_remaining_quantity_lots r - x\<rparr> # rest)"
      by blast
    then show ?thesis
      by (intro exI [of _ "r # front"] exI [of _ behind]) (auto simp: trades)
  next
    case 3
    then show ?thesis using Cons.prems
      by (intro exI [of _ "[]"] exI [of _ "r # rs"]) (auto split: if_splits prod.splits)
  qed
qed

section \<open>The order index\<close>

text \<open>\<open>active_orders_\<close> maps every queued order, and only those, from its id.\<close>

definition indexed :: "(u64 \<times> RestingOrder) list \<Rightarrow> RestingOrder list \<Rightarrow> bool" where
  "indexed al os \<longleftrightarrow> keys_distinct al \<and> distinct (map r_order_id os) \<and>
     set al = (\<lambda>r. (r_order_id r, r)) ` set os"

lemma indexed_iff:
  "indexed al os \<longleftrightarrow> keys_distinct al \<and> distinct (map r_order_id os) \<and>
     (\<forall>k r. map_of al k = Some r \<longleftrightarrow> r \<in> set os \<and> r_order_id r = k)"
  by (auto simp: indexed_def keys_distinct_map_of_iff image_iff set_eq_iff)

lemma indexed_lookup: "indexed al os \<Longrightarrow> map_of al k = Some r \<longleftrightarrow> r \<in> set os \<and> r_order_id r = k"
  by (simp add: indexed_iff)

lemma indexed_lookup_None: "indexed al os \<Longrightarrow> map_of al k = None \<longleftrightarrow> k \<notin> r_order_id ` set os"
  by (auto simp: indexed_iff not_Some_eq [symmetric] simp del: not_Some_eq)

lemma indexed_distinct: "indexed al os \<Longrightarrow> distinct (map r_order_id os)"
  by (simp add: indexed_def)

lemma indexed_perm: "indexed al os \<Longrightarrow> mset os = mset os' \<Longrightarrow> indexed al os'"
  using mset_eq_imp_distinct_iff [of "map r_order_id os" "map r_order_id os'"] mset_eq_setD [of os os']
  by (simp add: indexed_def)

lemma indexed_length:
  assumes "indexed al os"
  shows "length al = length os"
proof -
  have "length al = card (set al)"
    using assms by (metis indexed_def keys_distinct_def distinct_map distinct_card)
  also have "\<dots> = card (set os)"
    using assms by (auto simp: indexed_def intro!: card_image inj_onI)
  also have "\<dots> = length os"
    using assms by (simp add: indexed_def distinct_map distinct_card)
  finally show ?thesis .
qed

lemma distinct_id_eq:
  "distinct (map r_order_id os) \<Longrightarrow> r \<in> set os \<Longrightarrow> r' \<in> set os \<Longrightarrow> r_order_id r = r_order_id r' \<Longrightarrow> r = r'"
  by (auto simp: distinct_map inj_on_def)

lemma indexed_delete: "indexed al (r # os) \<Longrightarrow> indexed (AList.delete (r_order_id r) al) os"
  by (auto simp: indexed_iff) (metis imageI)

lemma indexed_update:
  "indexed al (r # os) \<Longrightarrow> r_order_id r' = r_order_id r \<Longrightarrow>
   indexed (AList.update (r_order_id r) r' al) (r' # os)"
  by (auto simp: indexed_iff) (metis imageI)

lemma indexed_insert:
  "indexed al os \<Longrightarrow> map_of al (r_order_id r) = None \<Longrightarrow>
   indexed (AList.update (r_order_id r) r al) (r # os)"
  by (auto simp: indexed_lookup_None) (auto simp: indexed_iff, metis imageI)

text \<open>Matching keeps the index in step with the queue it consumes.\<close>

lemma sweep_indexed:
  assumes "sweep no_cross incoming queue = (trades, incoming', queue')" "indexed al (queue @ os)"
  shows "indexed (index_trades al trades) (queue' @ os)"
  using assms
proof (induction queue arbitrary: incoming trades al)
  case (Cons r rs)
  let ?left = "r\<lparr>r_remaining_quantity_lots := r_remaining_quantity_lots r - incoming\<rparr>"
  have "indexed (AList.delete (r_order_id r) al) (rs @ os)"
    using Cons.prems(2) by (simp add: indexed_delete)
  moreover have "indexed (AList.update (r_order_id r) ?left al) (?left # rs @ os)"
    using Cons.prems(2) by (simp add: indexed_update)
  ultimately show ?case
    using Cons.prems Cons.IH by (auto split: if_splits prod.splits)
qed simp

end
