(* ===== verification/BookInvariant.thy ===== *)
theory BookInvariant
  imports Matching
begin

text \<open>
  The invariant of the book, and that every operation of \<open>core::OrderBook\<close> keeps it. Each side is
  sorted by its comparator, has no empty level, holds only positive quantities at positive
  prices; the order index is exactly the set of queued orders; the book is not crossed and
  holds one instrument. The two matching directions are handled once, over a \<open>Side\<close>.
\<close>

section \<open>The two sides\<close>

fun other_side :: "Side \<Rightarrow> Side" where
  "other_side Buy = Sell"
| "other_side Sell = Buy"

fun side_levels :: "Side \<Rightarrow> OrderBook \<Rightarrow> price_levels" where
  "side_levels Buy b = b_bids b"
| "side_levels Sell b = b_asks b"

fun set_side_levels :: "Side \<Rightarrow> price_levels \<Rightarrow> OrderBook \<Rightarrow> OrderBook" where
  "set_side_levels Buy ls b = b\<lparr>b_bids := ls\<rparr>"
| "set_side_levels Sell ls b = b\<lparr>b_asks := ls\<rparr>"

text \<open>\<open>better s p q\<close>: an order of side \<open>s\<close> at price \<open>p\<close> has priority over one at \<open>q\<close>.\<close>

fun better :: "Side \<Rightarrow> i64 \<Rightarrow> i64 \<Rightarrow> bool" where
  "better Buy p q \<longleftrightarrow> p > q"
| "better Sell p q \<longleftrightarrow> p < q"

text \<open>A resting price that an incoming order of side \<open>s\<close> with this limit does not reach.\<close>

definition no_cross :: "Side \<Rightarrow> i64 \<Rightarrow> i64 \<Rightarrow> bool" where
  "no_cross s limit p \<longleftrightarrow> better s p limit"

interpretation side_order: price_order "better s" for s
  by (cases s; unfold_locales) auto

lemma other_side_involution [simp]: "other_side (other_side s) = s"
  by (cases s) auto

lemma other_side_neq [simp]: "other_side s \<noteq> s" "s \<noteq> other_side s"
  by (cases s; simp)+

lemma better_other_side: "better (other_side s) p q \<longleftrightarrow> better s q p"
  by (cases s) auto

lemma side_levels_set_side_levels [simp]:
  "side_levels s (set_side_levels s ls b) = ls"
  "side_levels (other_side s) (set_side_levels s ls b) = side_levels (other_side s) b"
  "side_levels s (set_side_levels (other_side s) ls b) = side_levels s b"
  by (cases s; simp)+

lemma set_side_levels_frame [simp]:
  "b_active_orders (set_side_levels s ls b) = b_active_orders b"
  "b_instrument_id (set_side_levels s ls b) = b_instrument_id b"
  "b_next_event_sequence (set_side_levels s ls b) = b_next_event_sequence b"
  "b_next_trade_id (set_side_levels s ls b) = b_next_trade_id b"
  by (cases s; simp)+

lemma side_levels_frame [simp]:
  "side_levels s (advance b n m) = side_levels s b"
  "side_levels s (after_trades b ts) = side_levels s b"
  "side_levels s (b\<lparr>b_active_orders := al\<rparr>) = side_levels s b"
  "side_levels s (b\<lparr>b_instrument_id := i\<rparr>) = side_levels s b"
  by (cases s; simp)+

section \<open>One side\<close>

definition side_ok :: "Side \<Rightarrow> price_levels \<Rightarrow> bool" where
  "side_ok s ls \<longleftrightarrow> sorted_wrt (better s) (map fst ls) \<and> priced ls \<and>
     (\<forall>p \<in> fst ` set ls. 0 < to_int p) \<and>
     (\<forall>r \<in> set (flat ls). r_side r = side_code s) \<and> positive (flat ls)"

lemma side_okD:
  assumes "side_ok s ls"
  shows "sorted_wrt (better s) (map fst ls)" "priced ls" "positive (flat ls)"
    "\<And>p. p \<in> fst ` set ls \<Longrightarrow> 0 < to_int p" "\<And>r. r \<in> set (flat ls) \<Longrightarrow> r_side r = side_code s"
    "distinct (map fst ls)"
  using assms side_order.sorted_distinct by (auto simp: side_ok_def)

lemma side_ok_Nil [simp]: "side_ok s []"
  by (simp add: side_ok_def)

lemma priced_prices: "priced ls \<Longrightarrow> fst ` set ls = r_price_ticks ` set (flat ls)"
proof (induction ls)
  case (Cons l ls)
  obtain p q where l: "l = (p, q)" by (cases l)
  with Cons.prems have "r_price_ticks ` set q = {p}"
    by (cases q) auto
  with Cons l show ?case by (simp add: image_Un)
qed simp

lemma set_suffix: "suffix xs ys \<Longrightarrow> set xs \<subseteq> set ys"
  by (auto simp: suffix_def)

lemma side_ok_sweep:
  assumes "side_ok s ls" "sweep nc incoming (flat ls) = (trades, incoming', flat ls')"
    and "priced ls'" "suffix (map fst ls') (map fst ls)" "0 \<le> to_int incoming"
  shows "side_ok s ls'"
proof -
  have "sorted_wrt (better s) (map fst ls')"
    using side_okD(1) [OF assms(1)] assms(4) by (auto simp: suffix_def sorted_wrt_append)
  moreover have "\<forall>p \<in> fst ` set ls'. 0 < to_int p"
    using side_okD(4) [OF assms(1)] set_suffix [OF assms(4)] unfolding set_map by blast
  moreover have "\<forall>r \<in> set (flat ls'). r_side r = side_code s"
    by (rule sweep_preserves [OF assms(2)]) (use side_okD(5) [OF assms(1)] in auto)
  moreover have "positive (flat ls')"
    using sweep_quantities(4) [OF assms(2)] side_okD(3) [OF assms(1)] assms(5) by blast
  ultimately show ?thesis
    using assms(3) by (simp add: side_ok_def)
qed

lemma priced_push_back:
  "priced ls \<Longrightarrow> r_price_ticks r = p \<Longrightarrow> priced (level_push_back before p r ls)"
  by (induction before p r ls rule: level_push_back.induct) auto

lemma mset_flat_push_back: "mset (flat (level_push_back before p r ls)) = add_mset r (mset (flat ls))"
  by (induction before p r ls rule: level_push_back.induct) auto

lemma set_flat_push_back: "set (flat (level_push_back before p r ls)) = insert r (set (flat ls))"
  by (induction before p r ls rule: level_push_back.induct) auto

lemma positive_push_back:
  "positive (flat ls) \<Longrightarrow> 0 < to_int (r_remaining_quantity_lots r) \<Longrightarrow>
   positive (flat (level_push_back before p r ls))"
  by (simp add: positive_def set_flat_push_back)

lemma side_ok_push_back:
  assumes "side_ok s ls" "r_side r = side_code s" "r_price_ticks r = p" "0 < to_int p"
    and "0 < to_int (r_remaining_quantity_lots r)"
  shows "side_ok s (level_push_back (better s) p r ls)"
  using assms side_order.keys_push_back [of s p r ls] side_order.sorted_push_back [of s ls p r]
  by (simp add: side_ok_def priced_push_back positive_push_back set_flat_push_back)

lemma set_flat_level_erase:
  assumes "distinct (map fst ls)"
  shows "set (flat (level_erase k P ls)) \<subseteq> set (flat ls)"
proof (cases "map_of ls k")
  case None
  with assms show ?thesis by (simp add: level_erase_def)
next
  case (Some q)
  obtain as bs where "ls = as @ (k, q) # bs"
    and "level_erase k P ls = as @ (if remove_first P q = [] then [] else [(k, remove_first P q)]) @ bs"
    by (rule level_erase_split [OF assms Some])
  then show ?thesis
    using set_remove_first_subset [of P q] by auto
qed

lemma priced_level_erase:
  assumes "distinct (map fst ls)" "priced ls"
  shows "priced (level_erase k P ls)"
proof (cases "map_of ls k")
  case None
  with assms show ?thesis by (simp add: level_erase_def)
next
  case (Some q)
  obtain as bs where "ls = as @ (k, q) # bs"
    and "level_erase k P ls = as @ (if remove_first P q = [] then [] else [(k, remove_first P q)]) @ bs"
    by (rule level_erase_split [OF assms(1) Some])
  then show ?thesis
    using assms(2) set_remove_first_subset [of P q] by (auto simp: priced_def)
qed

lemma side_ok_level_erase:
  assumes "side_ok s ls"
  shows "side_ok s (level_erase p P ls)"
proof -
  note ls = side_okD [OF assms]
  have "set (flat (level_erase p P ls)) \<subseteq> set (flat ls)"
    by (rule set_flat_level_erase [OF ls(6)])
  moreover have "priced (level_erase p P ls)"
    by (rule priced_level_erase [OF ls(6,2)])
  moreover have "fst ` set (level_erase p P ls) \<subseteq> fst ` set ls"
    using priced_prices [OF ls(2)] priced_prices [OF calculation(2)] calculation(1) by auto
  ultimately show ?thesis
    using ls side_order.sorted_level_erase [OF ls(1), of p P]
    unfolding side_ok_def positive_def by blast
qed

section \<open>The book\<close>

definition book_orders :: "OrderBook \<Rightarrow> RestingOrder list" where
  "book_orders b = flat (b_bids b) @ flat (b_asks b)"

definition uncrossed :: "OrderBook \<Rightarrow> bool" where
  "uncrossed b \<longleftrightarrow> (\<forall>bid \<in> fst ` set (b_bids b). \<forall>ask \<in> fst ` set (b_asks b). bid < ask)"

definition one_instrument :: "OrderBook \<Rightarrow> bool" where
  "one_instrument b \<longleftrightarrow> (\<forall>r \<in> set (book_orders b). b_instrument_id b = Some (r_instrument_id r))"

definition book_inv :: "OrderBook \<Rightarrow> bool" where
  "book_inv b \<longleftrightarrow> side_ok Buy (b_bids b) \<and> side_ok Sell (b_asks b) \<and>
     indexed (b_active_orders b) (book_orders b) \<and> uncrossed b \<and> one_instrument b"

lemma book_orders_side: "mset (book_orders b) =
    mset (flat (side_levels s b)) + mset (flat (side_levels (other_side s) b))"
  by (cases s) (auto simp: book_orders_def)

lemma set_book_orders_side: "set (book_orders b) =
    set (flat (side_levels s b)) \<union> set (flat (side_levels (other_side s) b))"
  by (cases s) (auto simp: book_orders_def)

lemma uncrossed_side: "uncrossed b \<longleftrightarrow>
    (\<forall>p \<in> fst ` set (side_levels s b). \<forall>q \<in> fst ` set (side_levels (other_side s) b). better s q p)"
  by (cases s) (auto simp: uncrossed_def)

lemma book_inv_side: "book_inv b \<longleftrightarrow>
    side_ok s (side_levels s b) \<and> side_ok (other_side s) (side_levels (other_side s) b) \<and>
    indexed (b_active_orders b) (flat (side_levels (other_side s) b) @ flat (side_levels s b)) \<and>
    uncrossed b \<and> one_instrument b"
proof -
  have "indexed (b_active_orders b) (book_orders b) \<longleftrightarrow>
      indexed (b_active_orders b) (flat (side_levels (other_side s) b) @ flat (side_levels s b))"
    using book_orders_side [of b s] by (metis add.commute indexed_perm mset_append)
  then show ?thesis
    by (cases s) (auto simp: book_inv_def)
qed

lemma book_invD:
  assumes "book_inv b"
  shows "side_ok s (side_levels s b)" "indexed (b_active_orders b) (book_orders b)"
    "uncrossed b" "one_instrument b"
  using assms by (cases s; simp add: book_inv_def)+

lemma book_inv_new_order_book: "book_inv (new_order_book n)"
  by (simp add: book_inv_def new_order_book_def book_orders_def uncrossed_def one_instrument_def
      indexed_def)

lemma book_inv_advance [simp]: "book_inv (advance b n m) \<longleftrightarrow> book_inv b"
  by (simp add: book_inv_def book_orders_def uncrossed_def one_instrument_def)

lemma book_inv_bind:
  "book_inv b \<Longrightarrow> book_inv (bind_instrument_if_needed b i)"
  by (auto simp: bind_instrument_if_needed_def book_inv_def book_orders_def uncrossed_def
      one_instrument_def split: option.splits)

section \<open>The operations in closed form\<close>

definition order_event ::
  "OrderBook \<Rightarrow> OrderCommandRecordV1 \<Rightarrow> ExecutionEventType \<Rightarrow> i64 \<Rightarrow> i64 \<Rightarrow> ExecutionEventRecordV1" where
  "order_event b command t quantity remaining = fst (emit_order_event b command t quantity remaining)"

definition rejection_event ::
  "OrderBook \<Rightarrow> OrderCommandRecordV1 \<Rightarrow> RejectionReason \<Rightarrow> ExecutionEventRecordV1" where
  "rejection_event b command reason = fst (emit_rejection_event b command reason)"

definition cancel_event ::
  "OrderBook \<Rightarrow> OrderCommandRecordV1 \<Rightarrow> RestingOrder \<Rightarrow> ExecutionEventRecordV1" where
  "cancel_event b command r = fst (emit_cancel_event b command r)"

lemma emit_order_event_advance:
  "emit_order_event b c t q r = (order_event b c t q r, advance b 1 0)"
  by (simp add: order_event_def emit_order_event_def advance_def)

lemma emit_rejection_event_advance:
  "emit_rejection_event b c reason = (rejection_event b c reason, advance b 1 0)"
  by (simp add: rejection_event_def emit_rejection_event_def emit_order_event_advance)

lemma emit_cancel_event_advance:
  "emit_cancel_event b c r = (cancel_event b c r, advance b 1 0)"
  by (simp add: cancel_event_def emit_cancel_event_def emit_order_event_advance Let_def)

lemmas emit_advance = emit_order_event_advance emit_rejection_event_advance emit_cancel_event_advance

definition match_side ::
  "Side \<Rightarrow> OrderBook \<Rightarrow> OrderCommandRecordV1 \<Rightarrow> ExecutionEventRecordV1 list \<Rightarrow>
   i64 \<times> OrderBook \<times> ExecutionEventRecordV1 list" where
  "match_side s b command events =
     (case match_levels (no_cross s (c_price_ticks command)) command (side_levels (other_side s) b)
             (c_quantity_lots command) b events of
        (ls, incoming, b', events') \<Rightarrow> (incoming, set_side_levels (other_side s) ls b', events'))"

lemma match_side_eqs:
  "match_buy_order_against_asks b command events = match_side Buy b command events"
  "match_sell_order_against_bids b command events = match_side Sell b command events"
proof -
  have "no_cross Buy limit = (\<lambda>p. limit < p)" "no_cross Sell limit = (\<lambda>p. limit > p)" for limit
    by (auto simp: no_cross_def)
  then show "match_buy_order_against_asks b command events = match_side Buy b command events"
    "match_sell_order_against_bids b command events = match_side Sell b command events"
    by (simp_all add: match_side_def match_buy_order_against_asks_def
        match_sell_order_against_bids_def)
qed

text \<open>The book when the incoming order of side \<open>s\<close> has been matched.\<close>

definition matched ::
  "Side \<Rightarrow> OrderBook \<Rightarrow> OrderCommandRecordV1 \<Rightarrow> (RestingOrder \<times> i64) list \<Rightarrow> price_levels \<Rightarrow> OrderBook" where
  "matched s b command trades levels =
     set_side_levels (other_side s) levels
       (after_trades (advance (bind_instrument_if_needed b (c_instrument_id command)) 1 0) trades)"

definition final_event ::
  "OrderBook \<Rightarrow> OrderCommandRecordV1 \<Rightarrow> i64 \<Rightarrow> ExecutionEventRecordV1" where
  "final_event b command left =
     (if left = 0 then order_event b command OrderFullyFilled (c_quantity_lots command) (I64 0)
      else order_event b command
             (if left \<noteq> c_quantity_lots command then OrderPartiallyFilled else OrderRested)
             (c_quantity_lots command - left) left)"

definition new_order_outcome ::
  "Side \<Rightarrow> OrderBook \<Rightarrow> OrderCommandRecordV1 \<Rightarrow> (RestingOrder \<times> i64) list \<Rightarrow> i64 \<Rightarrow> price_levels \<Rightarrow>
   ExecutionEventRecordV1 list \<times> OrderBook" where
  "new_order_outcome s b command trades left levels =
     (let m = matched s b command trades levels in
      ([order_event b command OrderAccepted (c_quantity_lots command) (c_quantity_lots command)]
       @ trade_events (advance b 1 0) command (c_quantity_lots command) trades
       @ [final_event m command left],
       advance (if left = 0 then m else rest_order m command left) 1 0))"

lemma bind_instrument_fields [simp]:
  "b_next_event_sequence (bind_instrument_if_needed b i) = b_next_event_sequence b"
  "b_next_trade_id (bind_instrument_if_needed b i) = b_next_trade_id b"
  "b_active_orders (bind_instrument_if_needed b i) = b_active_orders b"
  "side_levels s (bind_instrument_if_needed b i) = side_levels s b"
  by (cases s; simp add: bind_instrument_if_needed_def split: option.splits)+

lemma order_event_cong:
  "b_next_event_sequence b = b_next_event_sequence b' \<Longrightarrow>
   order_event b c t q r = order_event b' c t q r"
  by (simp add: order_event_def emit_order_event_def)

lemma order_event_bind [simp]:
  "order_event (bind_instrument_if_needed b i) c t q r = order_event b c t q r"
  by (rule order_event_cong) simp

lemma trade_events_bind [simp]:
  "trade_events (advance (bind_instrument_if_needed b i) n m) c q ts = trade_events (advance b n m) c q ts"
  by (rule trade_events_cong) simp_all

lemma rest_order_sequence [simp]:
  "b_next_event_sequence (rest_order b c left) = b_next_event_sequence b"
  "b_next_trade_id (rest_order b c left) = b_next_trade_id b"
  "b_instrument_id (rest_order b c left) = b_instrument_id b"
  by (simp_all add: rest_order_def Let_def)

lemma order_event_rest_order [simp]: "order_event (rest_order b c left) c' t q r = order_event b c' t q r"
  by (rule order_event_cong) simp

lemma validate_new_orderD:
  assumes "validate_new_order b command = NoRejection"
  obtains s where "c_side command = side_code s"
    "c_command_type command = command_type_code NewOrder"
    "0 < to_int (c_price_ticks command)" "0 < to_int (c_quantity_lots command)"
    "map_of (b_active_orders b) (c_order_id command) = None"
    "b_instrument_id b = None \<or> b_instrument_id b = Some (c_instrument_id command)"
    "c_time_in_force command = time_in_force_code Gtc"
proof -
  have "\<exists>s. c_side command = side_code s"
    using assms
    by (auto simp: validate_new_order_def valid_side_def decode_side_iff split: if_splits option.splits)
  then obtain s where "c_side command = side_code s" ..
  then show ?thesis
    using assms
    by (intro that)
      (auto simp: validate_new_order_def has_order_def validate_order_book_instrument_def
        decode_command_type_iff decode_time_in_force_def split: if_splits option.splits)
qed

lemma apply_new_order_rejected:
  "validate_new_order b command \<noteq> NoRejection \<Longrightarrow>
   apply_new_order b command =
     ([rejection_event b command (validate_new_order b command)], advance b 1 0)"
  by (simp add: apply_new_order_def emit_advance)

lemma apply_new_order_match_side:
  assumes "validate_new_order b command = NoRejection" "c_side command = side_code s"
    and "match_side s (advance (bind_instrument_if_needed b (c_instrument_id command)) 1 0) command
      [order_event b command OrderAccepted (c_quantity_lots command) (c_quantity_lots command)]
      = (left, m, events)"
  shows "apply_new_order b command =
    (events @ [final_event m command left],
     advance (if left = 0 then m else rest_order m command left) 1 0)"
proof -
  have "decode_side (c_side command) = Some s" using assms(2) by simp
  then show ?thesis
    using assms(1,3)
    by (cases s) (auto simp: apply_new_order_def match_side_eqs emit_advance final_event_def Let_def)
qed

lemma apply_new_order_accepted:
  assumes "priced (b_bids b)" "priced (b_asks b)"
    and "validate_new_order b command = NoRejection" "c_side command = side_code s"
  obtains trades left levels where
    "sweep (no_cross s (c_price_ticks command)) (c_quantity_lots command)
       (flat (side_levels (other_side s) b)) = (trades, left, flat levels)"
    "priced levels" "suffix (map fst levels) (map fst (side_levels (other_side s) b))"
    "apply_new_order b command = new_order_outcome s b command trades left levels"
proof -
  let ?b = "advance (bind_instrument_if_needed b (c_instrument_id command)) 1 0"
  let ?a = "order_event b command OrderAccepted (c_quantity_lots command) (c_quantity_lots command)"
  obtain levels left m events where
    m: "match_levels (no_cross s (c_price_ticks command)) command (side_levels (other_side s) b)
          (c_quantity_lots command) ?b [?a] = (levels, left, m, events)"
    by (cases "match_levels (no_cross s (c_price_ticks command)) command (side_levels (other_side s) b)
          (c_quantity_lots command) ?b [?a]")
  have "priced (side_levels (other_side s) b)"
    using assms(1,2) by (cases s) auto
  then obtain trades where sw:
    "sweep (no_cross s (c_price_ticks command)) (c_quantity_lots command)
       (flat (side_levels (other_side s) b)) = (trades, left, flat levels)"
    "m = after_trades ?b trades"
    "events = [?a] @ trade_events ?b command (c_quantity_lots command) trades"
    "priced levels" "suffix (map fst levels) (map fst (side_levels (other_side s) b))"
    using m by (rule match_levels_sweep)
  have "match_side s ?b command [?a] =
      (left, matched s b command trades levels, events)"
    using m sw(2) by (simp add: match_side_def matched_def)
  from apply_new_order_match_side [OF assms(3,4) this]
  have "apply_new_order b command = new_order_outcome s b command trades left levels"
    by (simp add: new_order_outcome_def sw(3) Let_def)
  with sw show ?thesis by (intro that)
qed

section \<open>Every operation keeps the invariant\<close>

fun resting_order_of :: "OrderCommandRecordV1 \<Rightarrow> i64 \<Rightarrow> RestingOrder" where
  "resting_order_of command left =
     \<lparr>r_order_id = c_order_id command, r_client_id = c_client_id command,
      r_instrument_id = c_instrument_id command, r_side = c_side command,
      r_price_ticks = c_price_ticks command, r_remaining_quantity_lots = left\<rparr>"

lemma better_Buy_Sell: "better Buy = (>)" "better Sell = (<)"
  by (auto simp: fun_eq_iff)

lemma rest_order_side:
  assumes "c_side command = side_code s"
  shows "rest_order b command left =
    (set_side_levels s (level_push_back (better s) (c_price_ticks command)
        (resting_order_of command left) (side_levels s b)) b)
      \<lparr>b_active_orders := AList.update (c_order_id command) (resting_order_of command left)
         (b_active_orders b)\<rparr>"
proof -
  have "decode_side (c_side command) = Some s" using assms by simp
  then show ?thesis
    by (cases s) (simp_all add: rest_order_def Let_def better_Buy_Sell)
qed

lemma one_instrument_side: "one_instrument b \<longleftrightarrow>
    (\<forall>r \<in> set (flat (side_levels s b)) \<union> set (flat (side_levels (other_side s) b)).
       b_instrument_id b = Some (r_instrument_id r))"
  by (simp only: one_instrument_def set_book_orders_side [of b s])

lemma bind_instrument_id:
  assumes "b_instrument_id b = None \<or> b_instrument_id b = Some i"
  shows "b_instrument_id (bind_instrument_if_needed b i) = Some i"
  using assms by (auto simp: bind_instrument_if_needed_def)

lemma book_inv_matched:
  assumes "book_inv b" "validate_new_order b command = NoRejection"
    and sw: "sweep nc (c_quantity_lots command) (flat (side_levels (other_side s) b)) = (trades, left, flat levels)"
    and "priced levels" and suf: "suffix (map fst levels) (map fst (side_levels (other_side s) b))"
  shows "book_inv (matched s b command trades levels)"
    and "b_instrument_id (matched s b command trades levels) = Some (c_instrument_id command)"
proof -
  let ?b = "bind_instrument_if_needed b (c_instrument_id command)"
  let ?m = "matched s b command trades levels"
  have v: "0 \<le> to_int (c_quantity_lots command)"
    "b_instrument_id b = None \<or> b_instrument_id b = Some (c_instrument_id command)"
    by (rule validate_new_orderD [OF assms(2)], simp, rule validate_new_orderD [OF assms(2)], assumption)
  show i: "b_instrument_id ?m = Some (c_instrument_id command)"
    by (simp add: matched_def bind_instrument_id [OF v(2)])
  have inv: "book_inv ?b" by (rule book_inv_bind [OF assms(1)])
  note side = inv [unfolded book_inv_side [of _ s], simplified]
  have "side_ok (other_side s) levels"
    using side_ok_sweep [OF _ sw assms(4) suf v(1)] side by simp
  moreover have "indexed (index_trades (b_active_orders b) trades)
      (flat levels @ flat (side_levels s b))"
    using sweep_indexed [OF sw] side by simp
  moreover have "uncrossed ?m"
  proof -
    have sub: "fst ` set levels \<subseteq> fst ` set (side_levels (other_side s) b)"
      using set_suffix [OF suf] by simp
    have lv: "side_levels s ?m = side_levels s b" "side_levels (other_side s) ?m = levels"
      by (simp_all add: matched_def)
    show ?thesis
      using book_invD(3) [OF assms(1)] sub unfolding uncrossed_side [of _ s] lv by blast
  qed
  moreover have "one_instrument ?m"
  proof -
    have "\<forall>r \<in> set (flat levels). r_instrument_id r = c_instrument_id command"
      by (rule sweep_preserves [OF sw])
        (use side in \<open>simp_all add: one_instrument_side [of _ s] bind_instrument_id [OF v(2)] ball_Un\<close>)
    then show ?thesis
      using side i by (auto simp: one_instrument_side [of _ s] matched_def bind_instrument_id [OF v(2)])
  qed
  ultimately show "book_inv ?m"
    using side by (simp add: book_inv_side [of _ s] matched_def)
qed

lemma book_inv_rest_order:
  assumes inv: "book_inv b" and "c_side command = side_code s" "0 < to_int (c_price_ticks command)"
    and "0 < to_int left" "map_of (b_active_orders b) (c_order_id command) = None"
    and "b_instrument_id b = Some (c_instrument_id command)"
    and nc: "\<forall>p \<in> fst ` set (side_levels (other_side s) b). no_cross s (c_price_ticks command) p"
  shows "book_inv (rest_order b command left)"
proof -
  let ?r = "resting_order_of command left"
  let ?ls = "level_push_back (better s) (c_price_ticks command) ?r (side_levels s b)"
  note side = inv [unfolded book_inv_side [of _ s]]
  have "side_ok s ?ls"
    using side assms by (intro side_ok_push_back) auto
  moreover have "indexed (AList.update (c_order_id command) ?r (b_active_orders b))
      (flat (side_levels (other_side s) b) @ flat ?ls)"
  proof -
    have "indexed (AList.update (c_order_id command) ?r (b_active_orders b))
        (?r # flat (side_levels (other_side s) b) @ flat (side_levels s b))"
      using indexed_insert [of _ _ ?r] side assms(5) by simp
    then show ?thesis
      by (rule indexed_perm) (simp add: mset_flat_push_back)
  qed
  moreover have "\<forall>p \<in> fst ` set ?ls. \<forall>q \<in> fst ` set (side_levels (other_side s) b). better s q p"
    using side nc side_order.keys_push_back [of s "c_price_ticks command" ?r "side_levels s b"]
    by (auto simp: uncrossed_side [of _ s] no_cross_def)
  moreover have "\<forall>r \<in> set (flat ?ls) \<union> set (flat (side_levels (other_side s) b)).
      b_instrument_id b = Some (r_instrument_id r)"
    using side assms(6) by (auto simp: one_instrument_side [of _ s] set_flat_push_back)
  ultimately show ?thesis
    using side
    by (simp add: book_inv_side [of _ s] uncrossed_side [of _ s] one_instrument_side [of _ s]
        rest_order_side [OF assms(2)])
qed

text \<open>The levels left after matching do not cross the limit of what rests.\<close>

lemma remaining_levels_no_cross:
  assumes "side_ok (other_side s) levels" "0 < to_int left"
    and "sweep (no_cross s limit) incoming queue = (trades, left, flat levels)"
  shows "\<forall>p \<in> fst ` set levels. no_cross s limit p"
proof (cases levels)
  case (Cons l ls)
  obtain p q where l: "l = (p, q)" by (cases l)
  note ok = side_okD [OF assms(1)]
  obtain r rs where q: "q = r # rs" "r_price_ticks r = p"
    using ok(2) Cons l by (cases q) auto
  have "no_cross s limit p"
    using sweep_exhaustive [OF assms(3,2)] Cons l q by simp
  moreover have "better s p' p" if "p' \<in> fst ` set ls" for p'
    using ok(1) that Cons l better_other_side by auto
  ultimately show ?thesis
    using Cons l side_order.before_trans [of s] by (auto simp: no_cross_def)
qed simp

lemma sweep_index_None:
  "map_of al k = None \<Longrightarrow> k \<notin> r_order_id ` fst ` set trades \<Longrightarrow> map_of (index_trades al trades) k = None"
  by (induction al trades rule: index_trades.induct) auto

lemma book_inv_apply_new_order:
  assumes inv: "book_inv b"
  shows "book_inv (snd (apply_new_order b command))"
proof (cases "validate_new_order b command = NoRejection")
  case False
  then show ?thesis by (simp add: apply_new_order_rejected inv)
next
  case True
  then obtain s where s: "c_side command = side_code s" and v: "0 < to_int (c_price_ticks command)"
    "0 < to_int (c_quantity_lots command)" "map_of (b_active_orders b) (c_order_id command) = None"
    by (rule validate_new_orderD)
  have "priced (b_bids b)" "priced (b_asks b)"
    using inv by (auto simp: book_inv_def side_ok_def)
  then obtain trades left levels where sw:
    "sweep (no_cross s (c_price_ticks command)) (c_quantity_lots command)
       (flat (side_levels (other_side s) b)) = (trades, left, flat levels)"
    "priced levels" "suffix (map fst levels) (map fst (side_levels (other_side s) b))"
    and out: "apply_new_order b command = new_order_outcome s b command trades left levels"
    using True s by (rule apply_new_order_accepted)
  let ?m = "matched s b command trades levels"
  note m = book_inv_matched [OF inv True sw]
  have side: "side_levels (other_side s) ?m = levels" by (simp add: matched_def)
  have "book_inv (rest_order ?m command left)" if "left \<noteq> 0"
  proof (rule book_inv_rest_order [OF m(1) s v(1)])
    have "0 \<le> to_int left"
      using sweep_quantities(1) [OF sw(1)] v(2) book_invD(1) [OF inv, of "other_side s"]
      by (simp add: side_ok_def)
    with that show left: "0 < to_int left"
      by (metis order_le_less to_int_eq_0)
    show "\<forall>p \<in> fst ` set (side_levels (other_side s) ?m). no_cross s (c_price_ticks command) p"
      using book_invD(1) [OF m(1), of "other_side s"] unfolding side
      by (rule remaining_levels_no_cross [OF _ left sw(1)])
    show "map_of (b_active_orders ?m) (c_order_id command) = None"
    proof -
      have "c_order_id command \<notin> r_order_id ` set (book_orders b)"
        using indexed_lookup_None [OF book_invD(2) [OF inv]] v(3) by simp
      moreover have "fst ` set trades \<subseteq> set (book_orders b)"
        using sweep_crosses [OF sw(1)] by (fastforce simp: set_book_orders_side [of _ s])
      ultimately show ?thesis
        using v(3) by (auto simp: matched_def intro!: sweep_index_None)
    qed
  qed (rule m(2))
  then show ?thesis
    using m(1) by (simp add: out new_order_outcome_def Let_def)
qed

section \<open>Cancel and replace\<close>

lemma find_order_iff:
  "book_inv b \<Longrightarrow> find_order b k = Some r \<longleftrightarrow> r \<in> set (book_orders b) \<and> r_order_id r = k"
  using indexed_lookup [OF book_invD(2)] by (simp add: find_order_def)

text \<open>Removing an indexed order takes exactly that order out of its side.\<close>

lemma remove_cancelled_order_side:
  assumes "book_inv b" "find_order b (r_order_id r) = Some r"
  obtains s where "r_side r = side_code s"
    "remove_cancelled_order b r =
       (set_side_levels s (erase_order_from_price_levels (side_levels s b) r) b)
         \<lparr>b_active_orders := AList.delete (r_order_id r) (b_active_orders b)\<rparr>"
    "flat (erase_order_from_price_levels (side_levels s b) r) =
       filter (\<lambda>o'. r_order_id o' \<noteq> r_order_id r) (flat (side_levels s b))"
    "r \<in> set (flat (side_levels s b))"
proof -
  have r: "r \<in> set (book_orders b)"
    using assms find_order_iff by blast
  then obtain s where s: "r \<in> set (flat (side_levels s b))"
    by (metis Un_iff set_book_orders_side)
  note ok = side_okD [OF book_invD(1) [OF assms(1), of s]]
  have side: "r_side r = side_code s" by (rule ok(5) [OF s])
  have "distinct (map r_order_id (flat (side_levels s b)))"
    using assms(1) indexed_distinct by (fastforce simp: book_inv_side [of _ s])
  moreover obtain q where "map_of (side_levels s b) (r_price_ticks r) = Some q" "r \<in> set q"
  proof -
    from s obtain p q where pq: "(p, q) \<in> set (side_levels s b)" "r \<in> set q"
      by (auto simp: set_flat)
    then have "r_price_ticks r = p" using ok(2) by (auto simp: priced_def)
    with pq ok(6) show ?thesis by (intro that) auto
  qed
  ultimately have "flat (erase_order_from_price_levels (side_levels s b) r) =
       filter (\<lambda>o'. r_order_id o' \<noteq> r_order_id r) (flat (side_levels s b))"
    unfolding erase_order_from_price_levels_def by (intro flat_level_erase [OF ok(6)])
  moreover have "remove_cancelled_order b r =
       (set_side_levels s (erase_order_from_price_levels (side_levels s b) r) b)
         \<lparr>b_active_orders := AList.delete (r_order_id r) (b_active_orders b)\<rparr>"
    using decode_side_code [of s] unfolding remove_cancelled_order_def side
    by (cases s) (simp_all add: Let_def)
  ultimately show ?thesis using side s by (intro that)
qed

text \<open>The invariant survives taking one order out.\<close>

lemma book_orders_remove_cancelled_order:
  assumes inv: "book_inv b" and "find_order b (r_order_id r) = Some r"
  shows "book_orders (remove_cancelled_order b r) =
    filter (\<lambda>o'. r_order_id o' \<noteq> r_order_id r) (book_orders b)"
proof -
  obtain s where rm: "remove_cancelled_order b r =
      (set_side_levels s (erase_order_from_price_levels (side_levels s b) r) b)
         \<lparr>b_active_orders := AList.delete (r_order_id r) (b_active_orders b)\<rparr>"
    and fl: "flat (erase_order_from_price_levels (side_levels s b) r) =
       filter (\<lambda>o'. r_order_id o' \<noteq> r_order_id r) (flat (side_levels s b))"
    and r: "r \<in> set (flat (side_levels s b))"
    by (rule remove_cancelled_order_side [OF assms])
  have "distinct (map r_order_id (flat (side_levels s b) @ flat (side_levels (other_side s) b)))"
    using inv indexed_distinct by (fastforce simp: book_inv_side [of _ s])
  with r have "filter (\<lambda>o'. r_order_id o' \<noteq> r_order_id r) (flat (side_levels (other_side s) b))
      = flat (side_levels (other_side s) b)"
    by (auto simp: filter_id_conv)
  then show ?thesis
    using fl by (cases s) (simp_all add: rm book_orders_def)
qed

lemma indexed_filter:
  "indexed al os \<Longrightarrow> indexed (AList.delete k al) (filter (\<lambda>r. r_order_id r \<noteq> k) os)"
  by (auto simp: indexed_iff distinct_map_filter)

lemma book_inv_remove_cancelled_order:
  assumes inv: "book_inv b" and "find_order b (r_order_id r) = Some r"
  shows "book_inv (remove_cancelled_order b r)"
proof -
  let ?b = "remove_cancelled_order b r"
  note orders = book_orders_remove_cancelled_order [OF assms]
  obtain s where rm: "?b =
      (set_side_levels s (erase_order_from_price_levels (side_levels s b) r) b)
         \<lparr>b_active_orders := AList.delete (r_order_id r) (b_active_orders b)\<rparr>"
    by (rule remove_cancelled_order_side [OF assms])
  let ?ls = "erase_order_from_price_levels (side_levels s b) r"
  note ok = book_invD(1) [OF inv, of s] book_invD(1) [OF inv, of "other_side s"]
  have lv: "side_levels s ?b = ?ls" "side_levels (other_side s) ?b = side_levels (other_side s) b"
    by (simp_all add: rm)
  have ok': "side_ok s ?ls"
    unfolding erase_order_from_price_levels_def by (rule side_ok_level_erase [OF ok(1)])
  then have sides: "side_ok Buy (b_bids ?b)" "side_ok Sell (b_asks ?b)"
    using ok lv by (cases s; simp)+
  have ix: "indexed (b_active_orders ?b) (book_orders ?b)"
    unfolding orders using indexed_filter [OF book_invD(2) [OF inv]] by (simp add: rm)
  have "set (flat ?ls) \<subseteq> set (flat (side_levels s b))"
    unfolding erase_order_from_price_levels_def
    by (rule set_flat_level_erase [OF side_okD(6) [OF ok(1)]])
  then have sub: "fst ` set ?ls \<subseteq> fst ` set (side_levels s b)"
    using priced_prices [OF side_okD(2) [OF ok(1)]] priced_prices [OF side_okD(2) [OF ok']] by auto
  have un: "uncrossed ?b"
    using book_invD(3) [OF inv] sub unfolding uncrossed_side [of _ s] lv by blast
  have "one_instrument ?b"
    using book_invD(4) [OF inv] unfolding one_instrument_def orders by (simp add: rm)
  with sides ix un show ?thesis by (simp add: book_inv_def)
qed

lemma apply_cancel_order_cases:
  obtains (reject) reason where "reason \<noteq> NoRejection"
      "apply_cancel_order b command = ([rejection_event b command reason], advance b 1 0)"
    | (cancel) r where "decode_command_type (c_command_type command) = Some CancelOrder"
      "find_order b (c_order_id command) = Some r"
      "r_instrument_id r = c_instrument_id command"
      "apply_cancel_order b command =
         ([cancel_event (remove_cancelled_order b r) command r],
          advance (remove_cancelled_order b r) 1 0)"
proof (cases "decode_command_type (c_command_type command) = Some CancelOrder")
  case True
  show ?thesis
  proof (cases "find_order b (c_order_id command)")
    case None
    with True show ?thesis
      by (intro reject [of UnknownOrderId]) (simp_all add: apply_cancel_order_def emit_advance)
  next
    case (Some r)
    with True show ?thesis
      by (cases "r_instrument_id r = c_instrument_id command")
        (auto simp: apply_cancel_order_def emit_advance
          intro: reject [of InstrumentMismatch] cancel [of r])
  qed
next
  case False
  then show ?thesis
    by (intro reject [of UnsupportedCommand]) (simp_all add: apply_cancel_order_def emit_advance)
qed

lemma find_order_id: "book_inv b \<Longrightarrow> find_order b k = Some r \<Longrightarrow> find_order b (r_order_id r) = Some r"
  by (simp add: find_order_iff)

lemma book_inv_remove_found:
  "book_inv b \<Longrightarrow> find_order b k = Some r \<Longrightarrow> book_inv (remove_cancelled_order b r)"
  by (rule book_inv_remove_cancelled_order [OF _ find_order_id])

lemma book_inv_apply_cancel_order:
  assumes "book_inv b"
  shows "book_inv (snd (apply_cancel_order b command))"
  by (cases rule: apply_cancel_order_cases [of b command])
    (simp_all add: assms book_inv_remove_found [OF assms])

definition replacement_command :: "OrderCommandRecordV1 \<Rightarrow> OrderCommandRecordV1" where
  "replacement_command command =
     command\<lparr>c_command_type := command_type_code NewOrder,
             c_order_id := c_replacement_order_id command\<rparr>"

lemma apply_replace_order_cases:
  obtains (reject) "validate_replace_order b command \<noteq> NoRejection"
      "apply_replace_order b command =
         ([rejection_event b command (validate_replace_order b command)], advance b 1 0)"
    | (replace) r where "validate_replace_order b command = NoRejection"
      "find_order b (c_order_id command) = Some r"
      "apply_replace_order b command =
         (let b1 = advance (remove_cancelled_order b r) 1 0;
              (events, b2) = apply_new_order b1 (replacement_command command)
          in (cancel_event (remove_cancelled_order b r) command r # events, b2))"
proof (cases "validate_replace_order b command = NoRejection")
  case False
  then show ?thesis
    by (intro reject) (simp_all add: apply_replace_order_def emit_advance)
next
  case True
  then obtain r where "find_order b (c_order_id command) = Some r"
    by (auto simp: validate_replace_order_def split: if_splits option.splits)
  with True show ?thesis
    by (intro replace [of r])
      (auto simp: apply_replace_order_def emit_advance replacement_command_def Let_def
        split: prod.splits)
qed

lemma book_inv_apply_replace_order:
  assumes "book_inv b"
  shows "book_inv (snd (apply_replace_order b command))"
proof (cases rule: apply_replace_order_cases [of b command])
  case reject
  then show ?thesis by (simp add: assms)
next
  case (replace r)
  have "book_inv (advance (remove_cancelled_order b r) 1 0)"
    using book_inv_remove_found [OF assms replace(2)] by simp
  from book_inv_apply_new_order [OF this, of "replacement_command command"] show ?thesis
    by (auto simp: replace(3) Let_def split: prod.splits)
qed

lemma reject_unsupported_command_eq:
  "reject_unsupported_command b command =
     ([rejection_event b command UnsupportedCommand], advance b 1 0)"
  by (simp add: reject_unsupported_command_def emit_advance)

lemma book_inv_reject_unsupported_command:
  "book_inv b \<Longrightarrow> book_inv (snd (reject_unsupported_command b command))"
  by (simp add: reject_unsupported_command_eq)

end
