(* ===== verification/BookEvents.thy ===== *)
theory BookEvents
  imports BookInvariant
begin

text \<open>
  What the book emits: event sequence numbers and trade ids are handed out without gaps, and
  every event of a command carries the identity of the command. \<open>emits\<close> is the contract of one
  operation; it composes over consecutive operations.
\<close>

definition is_trade :: "ExecutionEventRecordV1 \<Rightarrow> bool" where
  "is_trade e \<longleftrightarrow> e_event_type e = event_type_code TradeExecuted"

definition trades_of :: "ExecutionEventRecordV1 list \<Rightarrow> ExecutionEventRecordV1 list" where
  "trades_of events = filter is_trade events"

text \<open>\<open>emits n t events n' t'\<close>: the events use up the counters from \<open>n\<close>, \<open>t\<close> to \<open>n'\<close>, \<open>t'\<close>.\<close>

definition emits :: "OrderBook \<Rightarrow> ExecutionEventRecordV1 list \<Rightarrow> OrderBook \<Rightarrow> bool" where
  "emits b events b' \<longleftrightarrow>
     map e_event_sequence events = consecutive (b_next_event_sequence b) (length events) \<and>
     b_next_event_sequence b' = b_next_event_sequence b + of_nat (length events) \<and>
     map e_trade_id (trades_of events) =
       consecutive (b_next_trade_id b) (length (trades_of events)) \<and>
     b_next_trade_id b' = b_next_trade_id b + of_nat (length (trades_of events))"

text \<open>The events belong to the command.\<close>

definition attributed :: "OrderCommandRecordV1 \<Rightarrow> ExecutionEventRecordV1 \<Rightarrow> bool" where
  "attributed command e \<longleftrightarrow>
     e_command_sequence e = c_command_sequence command \<and>
     e_source_ingress_epoch e = c_source_ingress_epoch command \<and>
     e_source_ingress_sequence e = c_source_ingress_sequence command"

lemma trades_of_simps [simp]:
  "trades_of [] = []"
  "trades_of (e # es) = (if is_trade e then e # trades_of es else trades_of es)"
  "trades_of (es @ es') = trades_of es @ trades_of es'"
  by (simp_all add: trades_of_def)

lemma emits_append: "emits b events m \<Longrightarrow> emits m events' b' \<Longrightarrow> emits b (events @ events') b'"
  by (simp add: emits_def consecutive_add add.assoc)

lemma emits_Nil:
  "b_next_event_sequence b' = b_next_event_sequence b \<Longrightarrow> b_next_trade_id b' = b_next_trade_id b \<Longrightarrow>
   emits b [] b'"
  by (simp add: emits_def)

lemma emits_single:
  "e_event_sequence e = b_next_event_sequence b \<Longrightarrow> \<not> is_trade e \<Longrightarrow>
   b_next_event_sequence b' = b_next_event_sequence b + 1 \<Longrightarrow> b_next_trade_id b' = b_next_trade_id b \<Longrightarrow>
   emits b [e] b'"
  by (simp add: emits_def)

lemma emits_cong:
  "b_next_event_sequence b = b_next_event_sequence a \<Longrightarrow> b_next_trade_id b = b_next_trade_id a \<Longrightarrow>
   b_next_event_sequence b' = b_next_event_sequence a' \<Longrightarrow> b_next_trade_id b' = b_next_trade_id a' \<Longrightarrow>
   emits b events b' \<longleftrightarrow> emits a events a'"
  by (simp add: emits_def)

section \<open>The events of one operation\<close>

lemma order_event_fields [simp]:
  "e_event_sequence (order_event b c t q r) = b_next_event_sequence b"
  "e_event_type (order_event b c t q r) = event_type_code t"
  "e_order_id (order_event b c t q r) = c_order_id c"
  "e_contra_order_id (order_event b c t q r) = 0"
  "e_trade_id (order_event b c t q r) = 0"
  "e_price_ticks (order_event b c t q r) = c_price_ticks c"
  "e_quantity_lots (order_event b c t q r) = q"
  "e_remaining_quantity_lots (order_event b c t q r) = r"
  "e_instrument_id (order_event b c t q r) = c_instrument_id c"
  "e_side (order_event b c t q r) = c_side c"
  "e_rejection_reason (order_event b c t q r) = 0"
  "e_reserved (order_event b c t q r) = 0"
  "attributed c (order_event b c t q r)"
  by (simp_all add: order_event_def emit_order_event_def empty_event_def attributed_def)

lemma rejection_event_eq:
  "rejection_event b c reason =
     (order_event b c OrderRejected (I64 0) (I64 0))\<lparr>e_rejection_reason := rejection_reason_code reason\<rparr>"
  by (simp add: rejection_event_def emit_rejection_event_def emit_order_event_advance)

lemma cancel_event_eq:
  "cancel_event b c r =
     (order_event b c OrderCancelled (I64 0) (r_remaining_quantity_lots r))
       \<lparr>e_price_ticks := r_price_ticks r, e_side := r_side r, e_instrument_id := r_instrument_id r\<rparr>"
  by (simp add: cancel_event_def emit_cancel_event_def emit_order_event_advance Let_def)

lemma trade_event_fields [simp]:
  "e_event_sequence (trade_event b c k p q i) = b_next_event_sequence b"
  "is_trade (trade_event b c k p q i)"
  "e_trade_id (trade_event b c k p q i) = b_next_trade_id b"
  "attributed c (trade_event b c k p q i)"
  by (simp_all add: trade_event_def attributed_def is_trade_def)

lemma is_trade_order_event [simp]: "is_trade (order_event b c t q r) \<longleftrightarrow> t = TradeExecuted"
  by (cases t) (simp_all add: is_trade_def)

lemma is_trade_rejection_event [simp]: "\<not> is_trade (rejection_event b c reason)"
  by (simp add: is_trade_def rejection_event_eq)

lemma is_trade_cancel_event [simp]: "\<not> is_trade (cancel_event b c r)"
  by (simp add: is_trade_def cancel_event_eq)

lemma is_trade_final_event [simp]: "\<not> is_trade (final_event b c left)"
  by (simp add: final_event_def)

lemma attributed_rejection_event [simp]: "attributed c (rejection_event b c reason)"
  using order_event_fields(13) [of c b] by (simp add: rejection_event_eq attributed_def)

lemma attributed_cancel_event [simp]: "attributed c (cancel_event b c r)"
  using order_event_fields(13) [of c b] by (simp add: cancel_event_eq attributed_def)

lemma attributed_final_event [simp]: "attributed c (final_event b c left)"
  by (simp add: final_event_def)

lemma sequence_rejection_event [simp]: "e_event_sequence (rejection_event b c reason) = b_next_event_sequence b"
  by (simp add: rejection_event_eq)

lemma sequence_cancel_event [simp]: "e_event_sequence (cancel_event b c r) = b_next_event_sequence b"
  by (simp add: cancel_event_eq)

lemma sequence_final_event [simp]: "e_event_sequence (final_event b c left) = b_next_event_sequence b"
  by (simp add: final_event_def)

lemma attributed_trade_events [simp]: "e \<in> set (trade_events b c i ts) \<Longrightarrow> attributed c e"
  by (induction b c i ts rule: trade_events.induct) auto

lemma trade_events_all_trades: "e \<in> set (trade_events b c i ts) \<Longrightarrow> is_trade e"
  by (induction b c i ts rule: trade_events.induct) auto

lemma trades_of_trade_events [simp]: "trades_of (trade_events b c i ts) = trade_events b c i ts"
  by (simp add: trades_of_def trade_events_all_trades filter_True)

lemma emits_trade_events: "emits b (trade_events b c i ts) (advance b (length ts) (length ts))"
proof (induction b c i ts rule: trade_events.induct)
  case (1 b c i)
  then show ?case by (simp add: emits_def)
next
  case (2 b c i r qty ts)
  let ?e = "trade_event b c (r_order_id r) (r_price_ticks r) qty (i - qty)"
  have "emits b [?e] (advance b 1 1)" by (simp add: emits_def)
  from emits_append [OF this 2] show ?case
    by (simp add: advance_advance)
qed

lemma emits_apply_new_order:
  assumes "priced (b_bids b)" "priced (b_asks b)"
  shows "emits b (fst (apply_new_order b command)) (snd (apply_new_order b command))"
    and "\<forall>e \<in> set (fst (apply_new_order b command)). attributed command e"
proof -
  have "emits b (fst (apply_new_order b command)) (snd (apply_new_order b command)) \<and>
    (\<forall>e \<in> set (fst (apply_new_order b command)). attributed command e)"
  proof (cases "validate_new_order b command = NoRejection")
    case False
    then show ?thesis
      by (auto simp: apply_new_order_rejected intro: emits_single)
  next
    case True
    then obtain s where s: "c_side command = side_code s" by (rule validate_new_orderD)
    obtain trades left levels where
      out: "apply_new_order b command = new_order_outcome s b command trades left levels"
      using assms True s by (rule apply_new_order_accepted)
    let ?q = "c_quantity_lots command"
    let ?m = "matched s b command trades levels"
    have "emits b [order_event b command OrderAccepted ?q ?q] (advance b 1 0)"
      by (rule emits_single) simp_all
    moreover have "emits (advance b 1 0) (trade_events (advance b 1 0) command ?q trades) ?m"
      using emits_trade_events [of "advance b 1 0" command ?q trades]
      by (subst emits_cong) (simp_all add: matched_def)
    moreover have "emits ?m [final_event ?m command left]
        (advance (if left = 0 then ?m else rest_order ?m command left) 1 0)"
      by (rule emits_single) simp_all
    ultimately have "emits b (fst (apply_new_order b command)) (snd (apply_new_order b command))"
      unfolding out new_order_outcome_def Let_def fst_conv snd_conv by (blast intro: emits_append)
    then show ?thesis
      by (auto simp: out new_order_outcome_def Let_def)
  qed
  then show "emits b (fst (apply_new_order b command)) (snd (apply_new_order b command))"
    and "\<forall>e \<in> set (fst (apply_new_order b command)). attributed command e"
    by auto
qed

lemma emits_apply_cancel_order:
  shows "emits b (fst (apply_cancel_order b command)) (snd (apply_cancel_order b command))"
    and "\<forall>e \<in> set (fst (apply_cancel_order b command)). attributed command e"
proof -
  have "b_next_event_sequence (remove_cancelled_order b r) = b_next_event_sequence b"
    "b_next_trade_id (remove_cancelled_order b r) = b_next_trade_id b" for r
    by (simp_all add: remove_cancelled_order_def Let_def)
  then show "emits b (fst (apply_cancel_order b command)) (snd (apply_cancel_order b command))"
    and "\<forall>e \<in> set (fst (apply_cancel_order b command)). attributed command e"
    by (cases rule: apply_cancel_order_cases [of b command]; auto intro: emits_single)+
qed

lemma remove_cancelled_order_counters [simp]:
  "b_next_event_sequence (remove_cancelled_order b r) = b_next_event_sequence b"
  "b_next_trade_id (remove_cancelled_order b r) = b_next_trade_id b"
  "b_instrument_id (remove_cancelled_order b r) = b_instrument_id b"
  by (simp_all add: remove_cancelled_order_def Let_def)

lemma attributed_replacement [simp]: "attributed (replacement_command c) e \<longleftrightarrow> attributed c e"
  by (simp add: attributed_def replacement_command_def)

lemma emits_apply_replace_order:
  assumes inv: "book_inv b"
  shows "emits b (fst (apply_replace_order b command)) (snd (apply_replace_order b command))"
    and "\<forall>e \<in> set (fst (apply_replace_order b command)). attributed command e"
proof -
  have "emits b (fst (apply_replace_order b command)) (snd (apply_replace_order b command)) \<and>
    (\<forall>e \<in> set (fst (apply_replace_order b command)). attributed command e)"
  proof (cases rule: apply_replace_order_cases [of b command])
    case reject
    then show ?thesis by (auto intro: emits_single)
  next
    case (replace r)
    let ?b1 = "advance (remove_cancelled_order b r) 1 0"
    have "book_inv ?b1" using book_inv_remove_found [OF inv replace(2)] by simp
    then have pr: "priced (b_bids ?b1)" "priced (b_asks ?b1)"
      unfolding book_inv_def side_ok_def by blast+
    obtain events b2 where new: "apply_new_order ?b1 (replacement_command command) = (events, b2)"
      by (cases "apply_new_order ?b1 (replacement_command command)")
    have "emits b [cancel_event (remove_cancelled_order b r) command r] ?b1"
      by (rule emits_single) simp_all
    moreover have "emits ?b1 events b2" "\<forall>e \<in> set events. attributed command e"
      using emits_apply_new_order [OF pr, of "replacement_command command"] new by simp_all
    ultimately show ?thesis
      using emits_append [of b "[_]" ?b1 events b2] new by (simp add: replace(3) Let_def)
  qed
  then show "emits b (fst (apply_replace_order b command)) (snd (apply_replace_order b command))"
    and "\<forall>e \<in> set (fst (apply_replace_order b command)). attributed command e"
    by auto
qed

lemma emits_reject_unsupported_command:
  shows "emits b (fst (reject_unsupported_command b command)) (snd (reject_unsupported_command b command))"
    and "\<forall>e \<in> set (fst (reject_unsupported_command b command)). attributed command e"
  by (auto simp: reject_unsupported_command_eq intro: emits_single)

end
