(* ===== verification/BookChecks.thy ===== *)
theory BookChecks
  imports BookInvariant
begin

text \<open>
  The run-time check \<open>OrderBook::validate_invariants\<close>, which \<open>ReplayRunner\<close> calls after every
  command: what it accepts, as a predicate without the order of the checks and the threaded
  set, and that it accepts every book that satisfies the invariant.
\<close>

section \<open>What the checks accept\<close>

definition same_resting_order :: "RestingOrder \<Rightarrow> RestingOrder \<Rightarrow> bool" where
  "same_resting_order a r \<longleftrightarrow>
     r_client_id a = r_client_id r \<and> r_instrument_id a = r_instrument_id r \<and>
     r_side a = r_side r \<and> r_price_ticks a = r_price_ticks r \<and>
     r_remaining_quantity_lots a = r_remaining_quantity_lots r"

definition queued_ok :: "OrderBook \<Rightarrow> i64 \<Rightarrow> Side \<Rightarrow> RestingOrder \<Rightarrow> bool" where
  "queued_ok b p s r \<longleftrightarrow> r_side r = side_code s \<and> r_price_ticks r = p \<and>
     0 < to_int (r_remaining_quantity_lots r) \<and>
     (\<exists>a. map_of (b_active_orders b) (r_order_id r) = Some a \<and> same_resting_order a r)"

text \<open>A check that threads the queued ids accepts \<open>rs\<close> when every order is fine and all ids are new.\<close>

definition threads :: "(bool \<times> u64 list) \<Rightarrow> bool \<Rightarrow> RestingOrder list \<Rightarrow> u64 list \<Rightarrow> bool" where
  "threads result ok rs queued \<longleftrightarrow>
     (fst result \<longleftrightarrow> ok \<and> distinct (map r_order_id rs) \<and> r_order_id ` set rs \<inter> set queued = {}) \<and>
     (fst result \<longrightarrow> snd result = rev (map r_order_id rs) @ queued)"

lemma validate_resting_order_threads:
  "threads (validate_resting_order_against_active_index b r p s queued) (queued_ok b p s r) [r] queued"
  by (auto simp: threads_def queued_ok_def same_resting_order_def decode_side_iff
      validate_resting_order_against_active_index_def split: option.splits)

lemma validate_level_orders_threads:
  "threads (validate_level_orders b p s rs queued) (\<forall>r \<in> set rs. queued_ok b p s r) rs queued"
proof (induction rs arbitrary: queued)
  case Nil
  show ?case by (simp add: threads_def)
next
  case (Cons r rs)
  obtain ok queued' where
    first: "validate_resting_order_against_active_index b r p s queued = (ok, queued')"
    by (cases "validate_resting_order_against_active_index b r p s queued")
  show ?case
    using validate_resting_order_threads [of b r p s queued] Cons.IH [of queued']
    by (cases ok) (auto simp: first threads_def)
qed

definition level_ok :: "OrderBook \<Rightarrow> Side \<Rightarrow> i64 \<times> RestingOrder list \<Rightarrow> bool" where
  "level_ok b s l \<longleftrightarrow> (case l of (p, q) \<Rightarrow>
     q \<noteq> [] \<and> 0 < to_int p \<and> (\<forall>r \<in> set q. queued_ok b p s r))"

lemma validate_price_levels_threads:
  "threads (validate_price_levels_against_active_orders b s ls queued)
     (\<forall>l \<in> set ls. level_ok b s l) (flat ls) queued"
proof (induction ls arbitrary: queued)
  case Nil
  show ?case by (simp add: threads_def)
next
  case (Cons l ls)
  obtain p q where l: "l = (p, q)" by (cases l)
  obtain ok queued' where first: "validate_level_orders b p s q queued = (ok, queued')"
    by (cases "validate_level_orders b p s q queued")
  show ?case
    using validate_level_orders_threads [of b p s q queued] Cons.IH [of queued']
    by (cases ok) (auto simp: l first threads_def level_ok_def)
qed

lemma threads_append:
  assumes "threads (ok1, queued1) A rs queued" "threads (ok2, queued2) B rs' queued1"
  shows "threads (ok1 \<and> ok2, queued2) (A \<and> B) (rs @ rs') queued"
proof (cases ok1)
  case True
  with assms(1) have "A" "distinct (map r_order_id rs)" "r_order_id ` set rs \<inter> set queued = {}"
    "queued1 = rev (map r_order_id rs) @ queued"
    by (simp_all add: threads_def)
  with True assms(2) show ?thesis
    by (simp add: threads_def image_Un Int_Un_distrib Int_Un_distrib2 Int_commute conj_ac)
next
  case False
  with assms(1) have "\<not> (A \<and> distinct (map r_order_id rs) \<and> r_order_id ` set rs \<inter> set queued = {})"
    by (simp add: threads_def)
  with False show ?thesis by (auto simp: threads_def)
qed

definition best_not_crossed :: "OrderBook \<Rightarrow> bool" where
  "best_not_crossed b \<longleftrightarrow>
     b_bids b = [] \<or> b_asks b = [] \<or> fst (hd (b_bids b)) < fst (hd (b_asks b))"

lemma validate_invariants_iff:
  "validate_invariants b \<longleftrightarrow>
     (\<forall>l \<in> set (b_bids b). level_ok b Buy l) \<and> (\<forall>l \<in> set (b_asks b). level_ok b Sell l) \<and>
     distinct (map r_order_id (book_orders b)) \<and>
     length (book_orders b) = length (b_active_orders b) \<and>
     (\<forall>(k, r) \<in> set (b_active_orders b).
        k \<in> r_order_id ` set (book_orders b) \<and> 0 < to_int (r_remaining_quantity_lots r)) \<and>
     best_not_crossed b"
proof -
  obtain ok1 q1 where bids: "validate_bid_levels b [] = (ok1, q1)"
    by (cases "validate_bid_levels b []")
  obtain ok2 q2 where asks: "validate_ask_levels b q1 = (ok2, q2)"
    by (cases "validate_ask_levels b q1")
  have best: "(case b_bids b of [] \<Rightarrow> True
      | (best_bid, _) # _ \<Rightarrow>
          (case b_asks b of [] \<Rightarrow> True | (best_ask, _) # _ \<Rightarrow> best_bid < best_ask))
      \<longleftrightarrow> best_not_crossed b"
    by (auto simp: best_not_crossed_def split: list.splits)
  have t1: "threads (ok1, q1) (\<forall>l \<in> set (b_bids b). level_ok b Buy l) (flat (b_bids b)) []"
    using validate_price_levels_threads [of b Buy "b_bids b" "[]"] bids
    by (simp add: validate_bid_levels_def)
  have t2: "threads (ok2, q2) (\<forall>l \<in> set (b_asks b). level_ok b Sell l) (flat (b_asks b)) q1"
    using validate_price_levels_threads [of b Sell "b_asks b" q1] asks
    by (simp add: validate_ask_levels_def validate_ask_price_levels_eq)
  note both = threads_append [OF t1 t2, folded book_orders_def]
  have validate: "validate_invariants b \<longleftrightarrow>
      (ok1 \<and> ok2) \<and> validate_active_orders_are_queued b q2 \<and> best_not_crossed b"
    unfolding validate_invariants_def bids asks prod.case best by simp
  have queued: "validate_active_orders_are_queued b q2 \<longleftrightarrow>
      length (book_orders b) = length (b_active_orders b) \<and>
      (\<forall>(k, r) \<in> set (b_active_orders b).
        k \<in> r_order_id ` set (book_orders b) \<and> 0 < to_int (r_remaining_quantity_lots r))"
    if "q2 = rev (map r_order_id (book_orders b))"
    using that by (simp add: validate_active_orders_are_queued_def list_all_iff)
  have ok: "ok1 \<and> ok2 \<longleftrightarrow>
      ((\<forall>l \<in> set (b_bids b). level_ok b Buy l) \<and> (\<forall>l \<in> set (b_asks b). level_ok b Sell l)) \<and>
      distinct (map r_order_id (book_orders b))"
    and q2: "ok1 \<and> ok2 \<Longrightarrow> q2 = rev (map r_order_id (book_orders b))"
    using both by (simp_all add: threads_def)
  show ?thesis
    unfolding validate using queued ok q2 by blast
qed

section \<open>The checks and the invariant\<close>

text \<open>The book invariant without its last clause: the checks do not look at the instrument.\<close>

definition containers_agree :: "OrderBook \<Rightarrow> bool" where
  "containers_agree b \<longleftrightarrow> side_ok Buy (b_bids b) \<and> side_ok Sell (b_asks b) \<and>
     indexed (b_active_orders b) (book_orders b) \<and> uncrossed b"

lemma book_inv_containers: "book_inv b \<longleftrightarrow> containers_agree b \<and> one_instrument b"
  by (auto simp: book_inv_def containers_agree_def)

lemma level_ok_side:
  assumes side: "side_ok s (side_levels s b)" and ix: "indexed (b_active_orders b) (book_orders b)"
    and "(p, q) \<in> set (side_levels s b)"
  shows "level_ok b s (p, q)"
proof -
  note ok = side_okD [OF side]
  have sub: "set q \<subseteq> set (flat (side_levels s b))"
    using assms(3) by (auto simp: set_flat)
  have "q \<noteq> []" "\<forall>r \<in> set q. r_price_ticks r = p"
    using ok(2) assms(3) by (auto simp: priced_def)
  moreover have "0 < to_int p"
    using ok(4) [of p] assms(3) by (force simp: image_iff)
  moreover have "\<forall>r \<in> set q. r_side r = side_code s \<and> 0 < to_int (r_remaining_quantity_lots r)"
    using ok(3,5) sub by (auto simp: positive_def)
  moreover have "map_of (b_active_orders b) (r_order_id r) = Some r" if "r \<in> set q" for r
    using indexed_lookup [OF ix, of "r_order_id r" r] that sub set_book_orders_side [of b s] by auto
  ultimately show ?thesis
    by (auto simp: level_ok_def queued_ok_def same_resting_order_def)
qed

lemma validate_invariants_of_containers:
  assumes agree: "containers_agree b"
  shows "validate_invariants b"
  unfolding validate_invariants_iff
proof (intro conjI)
  have sides: "side_ok Buy (b_bids b)" "side_ok Sell (b_asks b)"
    and ix: "indexed (b_active_orders b) (book_orders b)" and un: "uncrossed b"
    using agree by (simp_all add: containers_agree_def)
  show "\<forall>l \<in> set (b_bids b). level_ok b Buy l" "\<forall>l \<in> set (b_asks b). level_ok b Sell l"
    using level_ok_side [of Buy b, OF _ ix] level_ok_side [of Sell b, OF _ ix] sides by auto
  show "distinct (map r_order_id (book_orders b))" by (rule indexed_distinct [OF ix])
  show "length (book_orders b) = length (b_active_orders b)" using indexed_length [OF ix] by simp
  have "positive (book_orders b)"
    using side_okD(3) [OF sides(1)] side_okD(3) [OF sides(2)] by (simp add: book_orders_def)
  then show "\<forall>(k, r) \<in> set (b_active_orders b).
        k \<in> r_order_id ` set (book_orders b) \<and> 0 < to_int (r_remaining_quantity_lots r)"
    using ix by (auto simp: indexed_def positive_def)
  show "best_not_crossed b"
    using un by (cases "b_bids b"; cases "b_asks b") (auto simp: best_not_crossed_def uncrossed_def)
qed

lemma validate_invariants_of_book_inv: "book_inv b \<Longrightarrow> validate_invariants b"
  by (simp add: book_inv_containers validate_invariants_of_containers)

text \<open>
  Conversely the checks imply the invariant, given what the containers guarantee (sorted levels,
  distinct keys), and that the index entry of an id has that id.
\<close>

lemma containers_of_validate_invariants:
  assumes "validate_invariants b"
    and "sorted_wrt (>) (map fst (b_bids b))" "sorted_wrt (<) (map fst (b_asks b))"
    and "keys_distinct (b_active_orders b)"
    and ids: "\<forall>(k, r) \<in> set (b_active_orders b). r_order_id r = k"
  shows "containers_agree b"
proof -
  note v = assms(1) [unfolded validate_invariants_iff]
  have side: "side_ok s (side_levels s b)"
    if "\<forall>l \<in> set (side_levels s b). level_ok b s l" "sorted_wrt (better s) (map fst (side_levels s b))" for s
    using that by (fastforce simp: side_ok_def level_ok_def priced_def positive_def set_flat queued_ok_def)
  have agree: "map_of (b_active_orders b) (r_order_id r) = Some r" if "r \<in> set (book_orders b)" for r
  proof -
    have "\<exists>p s. queued_ok b p s r"
      using that v by (fastforce simp: book_orders_def set_flat level_ok_def)
    then obtain a where "map_of (b_active_orders b) (r_order_id r) = Some a" "same_resting_order a r"
      by (auto simp: queued_ok_def)
    moreover have "r_order_id a = r_order_id r"
      using ids calculation(1) by (auto dest!: map_of_SomeD)
    ultimately show ?thesis by (cases a; cases r) (auto simp: same_resting_order_def)
  qed
  have "set (b_active_orders b) = (\<lambda>r. (r_order_id r, r)) ` set (book_orders b)"
  proof (intro set_eqI iffI)
    fix x assume x: "x \<in> set (b_active_orders b)"
    obtain k r where kr: "x = (k, r)" by (cases x)
    obtain r' where r': "r' \<in> set (book_orders b)" "k = r_order_id r'"
      using v x kr by auto
    then have "r' = r"
      using agree [OF r'(1)] x kr assms(4) by (simp add: keys_distinct_map_of_iff [symmetric])
    with r' kr show "x \<in> (\<lambda>r. (r_order_id r, r)) ` set (book_orders b)" by auto
  qed (use agree in \<open>auto dest: map_of_SomeD\<close>)
  then have "indexed (b_active_orders b) (book_orders b)"
    using v assms(4) by (simp add: indexed_def)
  moreover have un: "uncrossed b"
    using v assms(2,3)
    by (cases "b_bids b"; cases "b_asks b") (fastforce simp: best_not_crossed_def uncrossed_def)+
  ultimately show ?thesis
    using side [of Buy] side [of Sell] v assms(2,3)
    by (simp add: containers_agree_def better_Buy_Sell)
qed

end
