(* ===== verification/Engine.thy ===== *)
theory Engine
  imports BookEvents BookChecks
begin

text \<open>
  \<open>core::InstrumentEngine\<close> and \<open>core::DummyInstrumentEngine\<close>: dispatch of a command to the book.
  The locale \<open>sequenced_machine\<close> is what a caller that feeds commands one after the other relies
  on: an invariant every command keeps, and events that use up the event counter without gaps
  and belong to their command. Its lemmas lift this to command sequences; the interpretations
  are the two engines.
\<close>

section \<open>Feeding commands\<close>

fun run_commands :: "('s \<Rightarrow> 'c \<Rightarrow> 'e list \<times> 's) \<Rightarrow> 's \<Rightarrow> 'c list \<Rightarrow> 'e list \<times> 's" where
  "run_commands step s [] = ([], s)"
| "run_commands step s (c # cs) =
     (let (es, s') = step s c; (es', s'') = run_commands step s' cs in (es @ es', s''))"

lemma run_commands_append:
  "run_commands step s (cs @ cs') =
     (let (es, s') = run_commands step s cs; (es', s'') = run_commands step s' cs' in (es @ es', s''))"
  by (induction step s cs rule: run_commands.induct) (auto split: prod.splits)

locale sequenced_machine =
  fixes step :: "'s \<Rightarrow> OrderCommandRecordV1 \<Rightarrow> ExecutionEventRecordV1 list \<times> 's"
    and inv :: "'s \<Rightarrow> bool"
    and next_sequence :: "'s \<Rightarrow> u64"
  assumes inv_step: "inv s \<Longrightarrow> inv (snd (step s c))"
    and sequences_step: "inv s \<Longrightarrow>
      map e_event_sequence (fst (step s c)) = consecutive (next_sequence s) (length (fst (step s c)))"
    and next_step: "inv s \<Longrightarrow>
      next_sequence (snd (step s c)) = next_sequence s + of_nat (length (fst (step s c)))"
    and attributed_step: "inv s \<Longrightarrow> e \<in> set (fst (step s c)) \<Longrightarrow> attributed c e"
    and answers_step: "inv s \<Longrightarrow> fst (step s c) \<noteq> []"
begin

lemma inv_run: "inv s \<Longrightarrow> inv (snd (run_commands step s cs))"
  by (induction cs arbitrary: s) (simp_all add: inv_step split_beta Let_def)

lemma next_run: "inv s \<Longrightarrow>
  next_sequence (snd (run_commands step s cs)) =
    next_sequence s + of_nat (length (fst (run_commands step s cs)))"
proof (induction cs arbitrary: s)
  case (Cons c cs)
  obtain es s' where st: "step s c = (es, s')" by (cases "step s c")
  then have "inv s'" "next_sequence s' = next_sequence s + of_nat (length es)"
    using inv_step [OF Cons.prems, of c] next_step [OF Cons.prems, of c] by simp_all
  then show ?case
    using Cons.IH [of s'] st by (auto simp: add.assoc split: prod.splits)
qed simp

lemma sequences_run: "inv s \<Longrightarrow>
  map e_event_sequence (fst (run_commands step s cs)) =
    consecutive (next_sequence s) (length (fst (run_commands step s cs)))"
proof (induction cs arbitrary: s)
  case (Cons c cs)
  obtain es s' where st: "step s c = (es, s')" by (cases "step s c")
  then have "inv s'" "next_sequence s' = next_sequence s + of_nat (length es)"
    "map e_event_sequence es = consecutive (next_sequence s) (length es)"
    using inv_step [OF Cons.prems, of c] next_step [OF Cons.prems, of c]
      sequences_step [OF Cons.prems, of c] by simp_all
  then show ?case
    using Cons.IH [of s'] st by (auto simp: consecutive_add split: prod.splits)
qed simp

lemma attributed_run:
  "inv s \<Longrightarrow> e \<in> set (fst (run_commands step s cs)) \<Longrightarrow> \<exists>c \<in> set cs. attributed c e"
proof (induction cs arbitrary: s)
  case (Cons c cs)
  obtain es s' where st: "step s c = (es, s')" by (cases "step s c")
  then have "inv s'" using inv_step [OF Cons.prems(1), of c] by simp
  then show ?case
    using Cons.IH [of s'] Cons.prems st attributed_step [OF Cons.prems(1), of _ c]
    by (auto split: prod.splits)
qed simp

lemma answers_run: "inv s \<Longrightarrow> length cs \<le> length (fst (run_commands step s cs))"
proof (induction cs arbitrary: s)
  case (Cons c cs)
  obtain es s' where st: "step s c = (es, s')" by (cases "step s c")
  then have "inv s'" "es \<noteq> []"
    using inv_step [OF Cons.prems, of c] answers_step [OF Cons.prems, of c] by simp_all
  then have "length cs \<le> length (fst (run_commands step s' cs))" "1 \<le> length es"
    using Cons.IH [of s'] by (auto simp: Suc_le_eq)
  then show ?case using st by (auto split: prod.splits)
qed simp

text \<open>The events of a run are those of its commands, one block after the other.\<close>

lemma blocks_run:
  fixes cs :: "OrderCommandRecordV1 list"
  assumes "inv s"
  defines "block \<equiv> \<lambda>i. fst (step (snd (run_commands step s (take i cs))) (cs ! i))"
  shows "fst (run_commands step s cs) = concat (map block [0..<length cs])"
    and "i < length cs \<Longrightarrow> block i \<noteq> [] \<and> (\<forall>e \<in> set (block i). attributed (cs ! i) e)"
proof -
  show "fst (run_commands step s cs) = concat (map block [0..<length cs])"
    unfolding block_def
  proof (induction cs rule: rev_induct)
    case (snoc c cs)
    have "map (\<lambda>i. fst (step (snd (run_commands step s (take i (cs @ [c])))) ((cs @ [c]) ! i))) [0..<length cs] =
        map (\<lambda>i. fst (step (snd (run_commands step s (take i cs))) (cs ! i))) [0..<length cs]"
      by (simp add: nth_append)
    moreover have "fst (run_commands step s (cs @ [c])) =
        fst (run_commands step s cs) @ fst (step (snd (run_commands step s cs)) c)"
      by (simp add: run_commands_append split_beta Let_def)
    moreover have "take (length cs) (cs @ [c]) = cs" by simp
    ultimately show ?case using snoc by (simp del: map_eq_conv take_append)
  qed simp
  show "block i \<noteq> [] \<and> (\<forall>e \<in> set (block i). attributed (cs ! i) e)" if "i < length cs"
    using answers_step attributed_step inv_run [OF assms(1), of "take i cs"] by (auto simp: block_def)
qed

end

section \<open>The instrument engine\<close>

record InstrumentEngine =
  engine_order_book :: OrderBook

definition new_instrument_engine :: "u64 \<Rightarrow> InstrumentEngine" where
  "new_instrument_engine first_event_sequence = \<lparr>engine_order_book = new_order_book first_event_sequence\<rparr>"

definition engine_apply ::
  "InstrumentEngine \<Rightarrow> OrderCommandRecordV1 \<Rightarrow> ExecutionEventRecordV1 list \<times> InstrumentEngine" where
  "engine_apply engine command =
     (let (events, b) =
        (case decode_command_type (c_command_type command) of
           None \<Rightarrow> reject_unsupported_command (engine_order_book engine) command
         | Some NewOrder \<Rightarrow> apply_new_order (engine_order_book engine) command
         | Some CancelOrder \<Rightarrow> apply_cancel_order (engine_order_book engine) command
         | Some ReplaceOrder \<Rightarrow> apply_replace_order (engine_order_book engine) command)
      in (events, engine\<lparr>engine_order_book := b\<rparr>))"

definition engine_inv :: "InstrumentEngine \<Rightarrow> bool" where
  "engine_inv engine \<longleftrightarrow> book_inv (engine_order_book engine)"

lemma engine_apply_cases:
  obtains (unsupported) "decode_command_type (c_command_type command) = None"
      "engine_apply engine command =
        (fst (reject_unsupported_command (engine_order_book engine) command),
         engine\<lparr>engine_order_book := snd (reject_unsupported_command (engine_order_book engine) command)\<rparr>)"
    | (new) "decode_command_type (c_command_type command) = Some NewOrder"
      "engine_apply engine command =
        (fst (apply_new_order (engine_order_book engine) command),
         engine\<lparr>engine_order_book := snd (apply_new_order (engine_order_book engine) command)\<rparr>)"
    | (cancel) "decode_command_type (c_command_type command) = Some CancelOrder"
      "engine_apply engine command =
        (fst (apply_cancel_order (engine_order_book engine) command),
         engine\<lparr>engine_order_book := snd (apply_cancel_order (engine_order_book engine) command)\<rparr>)"
    | (replace) "decode_command_type (c_command_type command) = Some ReplaceOrder"
      "engine_apply engine command =
        (fst (apply_replace_order (engine_order_book engine) command),
         engine\<lparr>engine_order_book := snd (apply_replace_order (engine_order_book engine) command)\<rparr>)"
proof (cases "decode_command_type (c_command_type command)")
  case None
  then show ?thesis by (intro unsupported) (simp_all add: engine_apply_def split_beta Let_def)
next
  case (Some t)
  then show ?thesis
    by (cases t) (auto simp: engine_apply_def split_beta Let_def intro: new cancel replace)
qed

lemma engine_apply_emits:
  assumes "engine_inv engine"
  shows "emits (engine_order_book engine) (fst (engine_apply engine command))
      (engine_order_book (snd (engine_apply engine command)))"
    and "\<forall>e \<in> set (fst (engine_apply engine command)). attributed command e"
proof -
  have inv: "book_inv (engine_order_book engine)" using assms by (simp add: engine_inv_def)
  then have pr: "priced (b_bids (engine_order_book engine))" "priced (b_asks (engine_order_book engine))"
    unfolding book_inv_def side_ok_def by blast+
  show "emits (engine_order_book engine) (fst (engine_apply engine command))
      (engine_order_book (snd (engine_apply engine command)))"
    by (cases rule: engine_apply_cases [of command engine])
      (simp_all add: emits_reject_unsupported_command(1) emits_apply_new_order(1) [OF pr]
        emits_apply_cancel_order(1) emits_apply_replace_order(1) [OF inv])
  show "\<forall>e \<in> set (fst (engine_apply engine command)). attributed command e"
    by (cases rule: engine_apply_cases [of command engine])
      (use emits_reject_unsupported_command(2) emits_apply_new_order(2) [OF pr]
        emits_apply_cancel_order(2) emits_apply_replace_order(2) [OF inv] in auto)
qed

lemma apply_new_order_answers:
  assumes "book_inv b"
  shows "fst (apply_new_order b command) \<noteq> []"
proof (cases "validate_new_order b command = NoRejection")
  case True
  then obtain s where s: "c_side command = side_code s" by (rule validate_new_orderD)
  have "priced (b_bids b)" "priced (b_asks b)"
    using assms unfolding book_inv_def side_ok_def by blast+
  then obtain trades left levels where
    "apply_new_order b command = new_order_outcome s b command trades left levels"
    using True s by (rule apply_new_order_accepted)
  then show ?thesis by (simp add: new_order_outcome_def Let_def)
qed (simp add: apply_new_order_rejected)

lemma engine_apply_answers:
  assumes "engine_inv engine"
  shows "fst (engine_apply engine command) \<noteq> []"
proof (cases rule: engine_apply_cases [of command engine])
  case new
  with assms show ?thesis by (simp add: engine_inv_def apply_new_order_answers)
next
  case cancel
  then show ?thesis
    by (cases rule: apply_cancel_order_cases [of "engine_order_book engine" command]) simp_all
next
  case replace
  then show ?thesis
    by (cases rule: apply_replace_order_cases [of "engine_order_book engine" command])
      (auto simp: Let_def split: prod.splits)
qed (simp add: reject_unsupported_command_eq)

lemma engine_inv_apply:
  assumes "engine_inv engine"
  shows "engine_inv (snd (engine_apply engine command))"
proof -
  have "book_inv (engine_order_book engine)" using assms by (simp add: engine_inv_def)
  then show ?thesis
    unfolding engine_inv_def
    by (cases rule: engine_apply_cases [of command engine])
      (simp_all add: book_inv_reject_unsupported_command book_inv_apply_new_order
        book_inv_apply_cancel_order book_inv_apply_replace_order)
qed

lemma engine_inv_new [simp]: "engine_inv (new_instrument_engine n)"
  by (simp add: engine_inv_def new_instrument_engine_def book_inv_new_order_book)

definition engine_next_sequence :: "InstrumentEngine \<Rightarrow> u64" where
  "engine_next_sequence engine = b_next_event_sequence (engine_order_book engine)"

lemma engine_next_sequence_new [simp]: "engine_next_sequence (new_instrument_engine n) = n"
  by (simp add: engine_next_sequence_def new_instrument_engine_def new_order_book_def)

interpretation engine: sequenced_machine engine_apply engine_inv engine_next_sequence
proof
  fix s c e
  assume inv: "engine_inv s"
  note em = engine_apply_emits(1) [OF inv, of c, unfolded emits_def]
  show "engine_inv (snd (engine_apply s c))" by (rule engine_inv_apply [OF inv])
  show "map e_event_sequence (fst (engine_apply s c)) =
      consecutive (engine_next_sequence s) (length (fst (engine_apply s c)))"
    using em by (simp add: engine_next_sequence_def)
  show "engine_next_sequence (snd (engine_apply s c)) =
      engine_next_sequence s + of_nat (length (fst (engine_apply s c)))"
    using em by (simp add: engine_next_sequence_def)
  show "attributed c e" if "e \<in> set (fst (engine_apply s c))"
    using engine_apply_emits(2) [OF inv] that by blast
  show "fst (engine_apply s c) \<noteq> []" by (rule engine_apply_answers [OF inv])
qed

section \<open>The dummy engine\<close>

record DummyInstrumentEngine =
  dummy_next_event_sequence :: u64

definition dummy_engine_apply ::
  "DummyInstrumentEngine \<Rightarrow> OrderCommandRecordV1 \<Rightarrow> ExecutionEventRecordV1 \<times> DummyInstrumentEngine" where
  "dummy_engine_apply engine command =
     (\<lparr>e_event_sequence = dummy_next_event_sequence engine,
       e_command_sequence = c_command_sequence command,
       e_source_ingress_epoch = c_source_ingress_epoch command,
       e_source_ingress_sequence = c_source_ingress_sequence command,
       e_order_id = c_order_id command,
       e_contra_order_id = 0,
       e_trade_id = 0,
       e_price_ticks = c_price_ticks command,
       e_quantity_lots = c_quantity_lots command,
       e_remaining_quantity_lots = c_quantity_lots command,
       e_instrument_id = c_instrument_id command,
       e_event_type = event_type_code OrderAccepted,
       e_side = c_side command,
       e_rejection_reason = 0,
       e_reserved = 0\<rparr>,
      engine\<lparr>dummy_next_event_sequence := dummy_next_event_sequence engine + 1\<rparr>)"

interpretation dummy: sequenced_machine
  "\<lambda>engine command. case dummy_engine_apply engine command of (event, engine') \<Rightarrow> ([event], engine')"
  "\<lambda>_. True" dummy_next_event_sequence
  by unfold_locales (auto simp: dummy_engine_apply_def attributed_def)

end
