(* ===== verification/BookSpec.thy ===== *)
theory BookSpec
  imports Engine
begin

text \<open>
  What the book promises its clients, without levels, index and counters: two queues in
  price-time priority. A new order sweeps the opposite queue and joins its own behind all orders
  of its price; a cancel takes one order out; a replace is a cancel and a new order. The
  operations of \<open>core::OrderBook\<close> refine this, and the properties of the component follow.
\<close>

section \<open>The abstract book\<close>

type_synonym queues = "Side \<Rightarrow> RestingOrder list"

definition queues :: "OrderBook \<Rightarrow> queues" where
  "queues b = (\<lambda>s. flat (side_levels s b))"

definition enqueue :: "Side \<Rightarrow> RestingOrder \<Rightarrow> RestingOrder list \<Rightarrow> RestingOrder list" where
  "enqueue s r rs =
     filter (\<lambda>x. \<not> better s (r_price_ticks r) (r_price_ticks x)) rs @ [r]
     @ filter (\<lambda>x. better s (r_price_ticks r) (r_price_ticks x)) rs"

definition spec_new_order ::
  "Side \<Rightarrow> queues \<Rightarrow> OrderCommandRecordV1 \<Rightarrow> (RestingOrder \<times> i64) list \<times> i64 \<times> queues" where
  "spec_new_order s qs command =
     (case sweep (no_cross s (c_price_ticks command)) (c_quantity_lots command) (qs (other_side s)) of
        (trades, left, opposite) \<Rightarrow>
          (trades, left,
           qs(other_side s := opposite,
              s := if left = 0 then qs s else enqueue s (resting_order_of command left) (qs s))))"

definition spec_cancel_order :: "u64 \<Rightarrow> queues \<Rightarrow> queues" where
  "spec_cancel_order order_id qs = (\<lambda>s. filter (\<lambda>r. r_order_id r \<noteq> order_id) (qs s))"

section \<open>The refinement\<close>

lemma queues_advance [simp]: "queues (advance b n m) = queues b"
  by (simp add: queues_def)

lemma priced_filter:
  "priced ls \<Longrightarrow> flat (filter (\<lambda>l. P (fst l)) ls) = filter (\<lambda>r. P (r_price_ticks r)) (flat ls)"
proof (induction ls)
  case (Cons l ls)
  obtain p q where l: "l = (p, q)" by (cases l)
  with Cons.prems have "filter (\<lambda>r. P (r_price_ticks r)) q = (if P p then q else [])"
    by (auto simp: filter_id_conv filter_empty_conv)
  with Cons l show ?case by auto
qed simp

lemma flat_enqueue:
  assumes "side_ok s ls"
  shows "flat (level_push_back (better s) (r_price_ticks r) r ls) = enqueue s r (flat ls)"
  using side_okD(1,2) [OF assms]
    priced_filter [OF side_okD(2) [OF assms], of "better s (r_price_ticks r)"]
    priced_filter [OF side_okD(2) [OF assms], of "\<lambda>p. \<not> better s (r_price_ticks r) p"]
  by (simp add: side_order.flat_push_back enqueue_def)

lemma side_neq_other: "t \<noteq> s \<Longrightarrow> t = other_side s"
  by (cases s; cases t) auto

lemma new_order_outcome_queues:
  assumes "book_inv b" "c_side command = side_code s"
  shows "queues (snd (new_order_outcome s b command trades left levels)) =
    (queues b)(other_side s := flat levels,
       s := if left = 0 then queues b s else enqueue s (resting_order_of command left) (queues b s))"
proof (rule ext)
  fix t
  have "t = s \<or> t = other_side s" using side_neq_other by blast
  moreover have "flat (level_push_back (better s) (c_price_ticks command) (resting_order_of command left)
      (side_levels s b)) = enqueue s (resting_order_of command left) (queues b s)"
    using flat_enqueue [OF book_invD(1) [OF assms(1)], of s "resting_order_of command left"]
    by (simp add: queues_def)
  ultimately show "queues (snd (new_order_outcome s b command trades left levels)) t =
    ((queues b)(other_side s := flat levels,
       s := if left = 0 then queues b s else enqueue s (resting_order_of command left) (queues b s))) t"
    by (auto simp: new_order_outcome_def Let_def queues_def matched_def rest_order_side [OF assms(2)])
qed

lemma final_event_cong:
  "b_next_event_sequence b = b_next_event_sequence b' \<Longrightarrow> final_event b c left = final_event b' c left"
  using order_event_cong [of b b'] by (simp add: final_event_def)

text \<open>An accepted order: the book and the events, from the sweep of the flat queue.\<close>

lemma new_order_refines:
  assumes inv: "book_inv b" and "validate_new_order b command = NoRejection"
    and s: "c_side command = side_code s"
    and spec: "spec_new_order s (queues b) command = (trades, left, qs)"
  shows "queues (snd (apply_new_order b command)) = qs"
    and "fst (apply_new_order b command) =
      [order_event b command OrderAccepted (c_quantity_lots command) (c_quantity_lots command)]
      @ trade_events (advance b 1 0) command (c_quantity_lots command) trades
      @ [final_event (advance b (Suc (length trades)) (length trades)) command left]"
proof -
  have "priced (b_bids b)" "priced (b_asks b)"
    using inv unfolding book_inv_def side_ok_def by blast+
  then obtain trades' left' levels where sw:
    "sweep (no_cross s (c_price_ticks command)) (c_quantity_lots command)
       (flat (side_levels (other_side s) b)) = (trades', left', flat levels)"
    and out: "apply_new_order b command = new_order_outcome s b command trades' left' levels"
    using assms(2) s by (rule apply_new_order_accepted)
  have eq: "trades' = trades" "left' = left"
    and qs: "qs = (queues b)(other_side s := flat levels,
       s := if left = 0 then queues b s else enqueue s (resting_order_of command left) (queues b s))"
    using spec sw by (auto simp: spec_new_order_def queues_def)
  show "queues (snd (apply_new_order b command)) = qs"
    unfolding out qs using new_order_outcome_queues [OF inv s] by (simp add: eq)
  have "final_event (matched s b command trades levels) command left =
      final_event (advance b (Suc (length trades)) (length trades)) command left"
    by (rule final_event_cong) (simp add: matched_def)
  then show "fst (apply_new_order b command) =
      [order_event b command OrderAccepted (c_quantity_lots command) (c_quantity_lots command)]
      @ trade_events (advance b 1 0) command (c_quantity_lots command) trades
      @ [final_event (advance b (Suc (length trades)) (length trades)) command left]"
    by (simp add: out eq new_order_outcome_def Let_def)
qed

lemma queues_remove_cancelled_order:
  assumes inv: "book_inv b" and f: "find_order b k = Some r"
  shows "queues (remove_cancelled_order b r) = spec_cancel_order k (queues b)"
proof (rule ext)
  fix t
  have k: "r_order_id r = k" using find_order_iff [OF inv] f by blast
  obtain s where rm: "remove_cancelled_order b r =
      (set_side_levels s (erase_order_from_price_levels (side_levels s b) r) b)
         \<lparr>b_active_orders := AList.delete (r_order_id r) (b_active_orders b)\<rparr>"
    and fl: "flat (erase_order_from_price_levels (side_levels s b) r) =
       filter (\<lambda>o'. r_order_id o' \<noteq> r_order_id r) (flat (side_levels s b))"
    and r: "r \<in> set (flat (side_levels s b))"
    by (rule remove_cancelled_order_side [OF inv find_order_id [OF inv f]])
  have "distinct (map r_order_id (flat (side_levels s b) @ flat (side_levels (other_side s) b)))"
    using inv indexed_distinct by (fastforce simp: book_inv_side [of _ s])
  with r have "filter (\<lambda>o'. r_order_id o' \<noteq> r_order_id r) (flat (side_levels (other_side s) b))
      = flat (side_levels (other_side s) b)"
    by (auto simp: filter_id_conv)
  moreover have "t = s \<or> t = other_side s" using side_neq_other by blast
  ultimately show "queues (remove_cancelled_order b r) t = spec_cancel_order k (queues b) t"
    using fl by (auto simp: queues_def spec_cancel_order_def rm k)
qed

section \<open>A validated replacement is accepted\<close>

lemma validate_replacement:
  assumes inv: "book_inv b" and v: "validate_replace_order b command = NoRejection"
    and f: "find_order b (c_order_id command) = Some r"
  shows "validate_new_order (advance (remove_cancelled_order b r) n m) (replacement_command command)
    = NoRejection"
proof -
  have ok: "r_instrument_id r = c_instrument_id command"
    "\<not> has_order b (c_replacement_order_id command)"
    "valid_side (decode_side (c_side command))"
    "0 < to_int (c_price_ticks command)" "0 < to_int (c_quantity_lots command)"
    "decode_time_in_force command = Some Gtc"
    using v f by (auto simp: validate_replace_order_def split: if_splits)
  have "b_instrument_id b = Some (r_instrument_id r)"
    using book_invD(4) [OF inv] find_order_iff [OF inv] f by (auto simp: one_instrument_def)
  moreover have "\<not> has_order (remove_cancelled_order b r) (c_replacement_order_id command)"
    using ok(2) by (simp add: has_order_def remove_cancelled_order_def Let_def)
  ultimately show ?thesis
    using ok
    by (simp add: validate_new_order_def replacement_command_def validate_order_book_instrument_def
        has_order_def decode_time_in_force_def decode_command_type_def)
qed

lemma final_event_not_rejected: "e_event_type (final_event b c left) \<noteq> event_type_code OrderRejected"
  by (simp add: final_event_def)

lemma new_order_not_rejected:
  assumes "book_inv b" "validate_new_order b command = NoRejection"
    and "e \<in> set (fst (apply_new_order b command))"
  shows "e_event_type e \<noteq> event_type_code OrderRejected"
proof -
  obtain s where s: "c_side command = side_code s"
    by (rule validate_new_orderD [OF assms(2)])
  obtain trades left qs where "spec_new_order s (queues b) command = (trades, left, qs)"
    by (cases "spec_new_order s (queues b) command")
  from new_order_refines(2) [OF assms(1,2) s this] assms(3)
  have "e_event_type e = event_type_code OrderAccepted \<or> is_trade e \<or> (\<exists>b'. e = final_event b' command left)"
    using trade_events_all_trades by auto
  then show ?thesis
    using final_event_not_rejected by (auto simp: is_trade_def)
qed

end
