(* ===== verification/BookProperties.thy ===== *)
theory BookProperties
  imports BookSpec
begin

text \<open>
  The properties of the order book and the engine, each over the operations of the code, with a
  concrete instance where it has hypotheses. The proofs are those of the component theories.
\<close>

section \<open>Samples\<close>

definition sample_command :: "CommandType \<Rightarrow> u64 \<Rightarrow> Side \<Rightarrow> u64 \<Rightarrow> u64 \<Rightarrow> OrderCommandRecordV1" where
  "sample_command t order_id s price quantity =
     empty_command\<lparr>c_command_sequence := order_id, c_source_ingress_epoch := 1,
       c_source_ingress_sequence := order_id, c_order_id := order_id,
       c_replacement_order_id := (if t = ReplaceOrder then order_id + 100 else 0),
       c_client_id := 7, c_price_ticks := I64 price, c_quantity_lots := I64 quantity,
       c_instrument_id := 1, c_command_type := command_type_code t, c_side := side_code s,
       c_time_in_force := 1\<rparr>"

text \<open>Two sell orders at 100 and 101, and a buy order at 99.\<close>

definition sample_book :: OrderBook where
  "sample_book =
     snd (run_commands apply_new_order (new_order_book 1)
       [sample_command NewOrder 1 Sell 100 5, sample_command NewOrder 2 Sell 101 7,
        sample_command NewOrder 3 Buy 99 4])"

text \<open>It takes the order at 100 and a part of the one at 101.\<close>

definition sample_buy :: OrderCommandRecordV1 where
  "sample_buy = sample_command NewOrder 4 Buy 101 9"

lemma sample_book_inv: "book_inv sample_book"
  by (simp add: sample_book_def book_inv_apply_new_order book_inv_new_order_book split_beta Let_def)

lemma sample_buy_valid: "validate_new_order sample_book sample_buy = NoRejection"
  by code_simp

lemma sample_buy_side: "c_side sample_buy = side_code Buy"
  by code_simp

lemma sample_spec_1: "fst (spec_new_order Buy (queues sample_book) sample_buy) \<noteq> []"
  by code_simp

section \<open>Matching\<close>

text \<open>What the sweep takes from the opposite queue.\<close>

lemma sweep_total:
  assumes "sweep nc incoming queue = (trades, incoming', queue')"
    and "positive queue" "0 \<le> to_int incoming"
  shows "(\<Sum>r \<leftarrow> queue. to_int (r_remaining_quantity_lots r)) =
    (\<Sum>(r, qty) \<leftarrow> trades. to_int qty) + (\<Sum>r \<leftarrow> queue'. to_int (r_remaining_quantity_lots r))"
  using assms
proof (induction queue arbitrary: incoming trades)
  case (Cons r rs)
  let ?q = "r_remaining_quantity_lots r"
  consider "\<not> 0 < to_int incoming \<or> nc (r_price_ticks r)"
    | "0 < to_int incoming" "\<not> nc (r_price_ticks r)" "?q \<le> incoming"
    | "0 < to_int incoming" "\<not> nc (r_price_ticks r)" "incoming < ?q"
    by fastforce
  then show ?case
  proof cases
    case 1
    with Cons.prems show ?thesis by auto
  next
    case 2
    with Cons.prems have "to_int (incoming - ?q) = to_int incoming - to_int ?q"
      by (intro to_int_minus_part) (auto simp: i64_simps)
    with 2 Cons.prems Cons.IH [of "incoming - ?q"] show ?thesis
      by (auto simp: i64_simps split: prod.splits)
  next
    case 3
    then have "to_int (?q - incoming) = to_int ?q - to_int incoming"
      by (intro to_int_minus_part) (auto simp: i64_simps)
    with 3 Cons.prems show ?thesis
      by (auto simp: i64_simps split: if_splits prod.splits)
  qed
qed simp

text \<open>The trades of an accepted order, in the terms of its events.\<close>

definition fills :: "ExecutionEventRecordV1 list \<Rightarrow> (u64 \<times> i64 \<times> i64) list" where
  "fills events =
     map (\<lambda>e. (e_contra_order_id e, e_price_ticks e, e_quantity_lots e)) (trades_of events)"

lemma fills_trade_events:
  "fills (trade_events b c i ts) = map (\<lambda>(r, qty). (r_order_id r, r_price_ticks r, qty)) ts"
  by (induction b c i ts rule: trade_events.induct) (simp_all add: fills_def trade_event_def is_trade_def)

lemma fills_accepted:
  "fills ([order_event b c OrderAccepted q q] @ trade_events b' c i ts @ [final_event b'' c left]) =
     map (\<lambda>(r, qty). (r_order_id r, r_price_ticks r, qty)) ts"
  using fills_trade_events [of b' c i ts] by (simp add: fills_def)

lemma accepted_spec:
  assumes "book_inv b" "validate_new_order b command = NoRejection" "c_side command = side_code s"
  obtains trades left opposite where
    "sweep (no_cross s (c_price_ticks command)) (c_quantity_lots command) (queues b (other_side s))
       = (trades, left, opposite)"
    "queues (snd (apply_new_order b command)) (other_side s) = opposite"
    "queues (snd (apply_new_order b command)) s =
       (if left = 0 then queues b s else enqueue s (resting_order_of command left) (queues b s))"
    "fills (fst (apply_new_order b command)) =
       map (\<lambda>(r, qty). (r_order_id r, r_price_ticks r, qty)) trades"
proof -
  obtain trades left opposite where
    sw: "sweep (no_cross s (c_price_ticks command)) (c_quantity_lots command) (queues b (other_side s))
       = (trades, left, opposite)"
    by (cases "sweep (no_cross s (c_price_ticks command)) (c_quantity_lots command)
      (queues b (other_side s))")
  have sp: "spec_new_order s (queues b) command = (trades, left, (queues b)(other_side s := opposite,
      s := if left = 0 then queues b s else enqueue s (resting_order_of command left) (queues b s)))"
    by (simp add: spec_new_order_def sw)
  note ref = new_order_refines [OF assms sp]
  show ?thesis
    by (rule that [OF sw]) (simp_all add: ref(1) ref(2) fills_accepted del: append.simps)
qed

lemma set_enqueue: "set (enqueue s r rs) = insert r (set rs)"
  by (auto simp: enqueue_def)

lemma queues_positive: "book_inv b \<Longrightarrow> positive (queues b s)"
  using side_okD(3) [OF book_invD(1)] by (simp add: queues_def)

lemma set_queues: "set (book_orders b) = set (queues b s) \<union> set (queues b (other_side s))"
  by (simp add: queues_def set_book_orders_side [of b s])

lemma new_order_remaining:
  assumes "book_inv b" "validate_new_order b command = NoRejection" "c_side command = side_code s"
    and sw: "sweep (no_cross s (c_price_ticks command)) (c_quantity_lots command)
       (queues b (other_side s)) = (trades, left, opposite)"
  shows "remaining_quantity (snd (apply_new_order b command)) (c_order_id command) = left"
proof -
  let ?b = "snd (apply_new_order b command)"
  have inv': "book_inv ?b" by (rule book_inv_apply_new_order [OF assms(1)])
  have new: "find_order b (c_order_id command) = None"
    using assms(2) by (rule validate_new_orderD) (simp add: find_order_def)
  then have fresh: "\<forall>r \<in> set (book_orders b). r_order_id r \<noteq> c_order_id command"
    using find_order_iff [OF assms(1)] by (metis option.distinct(1))
  have opp: "\<forall>r \<in> set opposite. r_order_id r \<noteq> c_order_id command"
    by (rule sweep_preserves [OF sw]) (use fresh set_queues [of b s] in auto)
  obtain trades' left' opposite' where sw':
    "sweep (no_cross s (c_price_ticks command)) (c_quantity_lots command) (queues b (other_side s))
       = (trades', left', opposite')"
    and q: "queues ?b (other_side s) = opposite'"
    "queues ?b s =
       (if left' = 0 then queues b s else enqueue s (resting_order_of command left') (queues b s))"
    by (rule accepted_spec [OF assms(1-3)])
  have eq: "left' = left" "opposite' = opposite" using sw sw' by simp_all
  show ?thesis
  proof (cases "left = 0")
    case True
    then have "find_order ?b (c_order_id command) = None"
      using find_order_iff [OF inv'] fresh opp q eq set_queues [of ?b s] set_queues [of b s]
      by (fastforce simp: not_Some_eq [symmetric] simp del: not_Some_eq)
    then show ?thesis using True by (simp add: remaining_quantity_def find_order_def zero_i64_def)
  next
    case False
    then have "resting_order_of command left \<in> set (book_orders ?b)"
      using q eq set_queues [of ?b s] by (simp add: set_enqueue)
    then have "find_order ?b (c_order_id command) = Some (resting_order_of command left)"
      using find_order_iff [OF inv'] by simp
    then show ?thesis by (simp add: remaining_quantity_def find_order_def)
  qed
qed

text \<open>
  C1: Matching refines the specification: for a valid new order, the price levels, the nested
  matching loops and the resting of the remainder have exactly the effect of sweeping one queue
  in price-time priority and enqueueing what is left, and the events are the acceptance, one
  trade per sweep step and one final event.
\<close>

theorem new_order_refines_queue_spec:
  assumes "book_inv b" "validate_new_order b command = NoRejection" "c_side command = side_code s"
    and "spec_new_order s (queues b) command = (trades, left, qs)"
  shows "queues (snd (apply_new_order b command)) = qs \<and>
    fst (apply_new_order b command) =
      [order_event b command OrderAccepted (c_quantity_lots command) (c_quantity_lots command)]
      @ trade_events (advance b 1 0) command (c_quantity_lots command) trades
      @ [final_event (advance b (Suc (length trades)) (length trades)) command left]"
  using new_order_refines [OF assms] by blast

lemma new_order_refines_queue_spec_witness:
  "(case spec_new_order Buy (queues sample_book) sample_buy of (trades, left, qs) \<Rightarrow>
      queues (snd (apply_new_order sample_book sample_buy)) = qs \<and> length trades = 2)"
proof -
  have "length (fst (spec_new_order Buy (queues sample_book) sample_buy)) = 2" by code_simp
  then show ?thesis
    using new_order_refines_queue_spec [OF sample_book_inv sample_buy_valid sample_buy_side]
    by (auto split: prod.splits)
qed

text \<open>
  C10: Price-time priority: the orders an incoming order trades with are the front of the opposite
  queue, in its order; each is filled completely at its own price, except possibly the last one,
  which keeps its place with the rest of its quantity; the orders behind are untouched.
\<close>

theorem price_time_priority:
  assumes "book_inv b" "validate_new_order b command = NoRejection" "c_side command = side_code s"
  shows "\<exists>front behind. queues b (other_side s) = front @ behind \<and>
    (let whole = map (\<lambda>r. (r_order_id r, r_price_ticks r, r_remaining_quantity_lots r)) front;
         after = queues (snd (apply_new_order b command)) (other_side s);
         trades = fills (fst (apply_new_order b command))
     in trades = whole \<and> after = behind \<or>
        (\<exists>r rest x. behind = r # rest \<and> 0 < to_int x \<and> x < r_remaining_quantity_lots r \<and>
           trades = whole @ [(r_order_id r, r_price_ticks r, x)] \<and>
           after = r\<lparr>r_remaining_quantity_lots := r_remaining_quantity_lots r - x\<rparr> # rest))"
proof -
  obtain trades left opposite where
    sw: "sweep (no_cross s (c_price_ticks command)) (c_quantity_lots command) (queues b (other_side s))
       = (trades, left, opposite)"
    and q: "queues (snd (apply_new_order b command)) (other_side s) = opposite"
    and f: "fills (fst (apply_new_order b command)) =
       map (\<lambda>(r, qty). (r_order_id r, r_price_ticks r, qty)) trades"
    by (rule accepted_spec [OF assms])
  obtain front behind where split: "queues b (other_side s) = front @ behind"
    and "trades = filled front \<and> opposite = behind \<or>
     (\<exists>r rest x. behind = r # rest \<and> trades = filled front @ [(r, x)] \<and>
        x < r_remaining_quantity_lots r \<and> 0 < to_int x \<and> left = 0 \<and>
        opposite = r\<lparr>r_remaining_quantity_lots := r_remaining_quantity_lots r - x\<rparr> # rest)"
    using sweep_priority [OF sw] by blast
  then show ?thesis
    unfolding q f Let_def
    by (intro exI [of _ front] exI [of _ behind]) (auto simp: filled_def)
qed

lemma price_time_priority_witness:
  "fills (fst (apply_new_order sample_book sample_buy)) =
     [(1, I64 100, I64 5), (2, I64 101, I64 4)] \<and>
   (\<exists>front behind. queues sample_book Sell = front @ behind)"
proof -
  have "fills (fst (apply_new_order sample_book sample_buy)) = [(1, I64 100, I64 5), (2, I64 101, I64 4)]"
    by code_simp
  then show ?thesis
    using price_time_priority [OF sample_book_inv sample_buy_valid sample_buy_side] by auto
qed

text \<open>
  C11: Quantity is conserved: the incoming quantity is what the trades executed plus what rests
  under the new order's id, and the opposite side loses exactly the traded quantity; every trade
  is positive. The sums are over the integers, so no trade arithmetic overflows.
\<close>

theorem matching_conserves_quantity:
  assumes "book_inv b" "validate_new_order b command = NoRejection" "c_side command = side_code s"
  shows "let b' = snd (apply_new_order b command);
             traded = (\<Sum>e \<leftarrow> trades_of (fst (apply_new_order b command)). to_int (e_quantity_lots e));
             total = (\<lambda>q. \<Sum>r \<leftarrow> q. to_int (r_remaining_quantity_lots r))
    in to_int (c_quantity_lots command) =
         traded + to_int (remaining_quantity b' (c_order_id command)) \<and>
       total (queues b (other_side s)) = traded + total (queues b' (other_side s)) \<and>
       (\<forall>e \<in> set (trades_of (fst (apply_new_order b command))). 0 < to_int (e_quantity_lots e))"
proof -
  obtain trades left opposite where
    sw: "sweep (no_cross s (c_price_ticks command)) (c_quantity_lots command) (queues b (other_side s))
       = (trades, left, opposite)"
    and q: "queues (snd (apply_new_order b command)) (other_side s) = opposite"
    and f: "fills (fst (apply_new_order b command)) =
       map (\<lambda>(r, qty). (r_order_id r, r_price_ticks r, qty)) trades"
    by (rule accepted_spec [OF assms])
  have "0 < to_int (c_quantity_lots command)"
    by (rule validate_new_orderD [OF assms(2)])
  then have pos: "0 \<le> to_int (c_quantity_lots command)" by simp
  note qty = sweep_quantities [OF sw queues_positive [OF assms(1)] pos]
  have es: "map e_quantity_lots (trades_of (fst (apply_new_order b command))) = map snd trades"
    using arg_cong [OF f, of "map (snd \<circ> snd)"] by (simp add: fills_def split_beta o_def)
  have "(\<Sum>e \<leftarrow> trades_of (fst (apply_new_order b command)). to_int (e_quantity_lots e)) =
      (\<Sum>(r, qty) \<leftarrow> trades. to_int qty)"
    using arg_cong [OF es, of "\<lambda>xs. sum_list (map to_int xs)"]
    by (simp add: o_def case_prod_unfold)
  moreover have "0 < to_int (e_quantity_lots e)"
    if "e \<in> set (trades_of (fst (apply_new_order b command)))" for e
  proof -
    have "e_quantity_lots e \<in> snd ` set trades"
      using that arg_cong [OF es, of set] by auto
    then show ?thesis using qty(3) by auto
  qed
  ultimately show ?thesis
    using qty(2) sweep_total [OF sw queues_positive [OF assms(1)] pos] q
      new_order_remaining [OF assms sw]
    by (simp add: Let_def)
qed

lemma matching_conserves_quantity_witness:
  "to_int (c_quantity_lots sample_buy) = 9 \<and>
   9 = (\<Sum>e \<leftarrow> trades_of (fst (apply_new_order sample_book sample_buy)). to_int (e_quantity_lots e))
     + to_int (remaining_quantity (snd (apply_new_order sample_book sample_buy)) 4)"
proof -
  have "to_int (c_quantity_lots sample_buy) = 9 \<and> c_order_id sample_buy = 4"
    by code_simp
  then show ?thesis
    using matching_conserves_quantity [OF sample_book_inv sample_buy_valid sample_buy_side]
    by (simp add: Let_def)
qed

text \<open>
  C17: Every trade executes at the price of the resting order it names, which is an order of the
  opposite side, and that price is within the limit of the incoming order.
\<close>

theorem trades_at_resting_price_within_limit:
  assumes "book_inv b" "validate_new_order b command = NoRejection" "c_side command = side_code s"
    and "e \<in> set (trades_of (fst (apply_new_order b command)))"
  shows "\<exists>r \<in> set (queues b (other_side s)).
    r_order_id r = e_contra_order_id e \<and> r_price_ticks r = e_price_ticks e \<and>
    (if s = Buy then e_price_ticks e \<le> c_price_ticks command
     else c_price_ticks command \<le> e_price_ticks e)"
proof -
  obtain trades left opposite where
    sw: "sweep (no_cross s (c_price_ticks command)) (c_quantity_lots command) (queues b (other_side s))
       = (trades, left, opposite)"
    and f: "fills (fst (apply_new_order b command)) =
       map (\<lambda>(r, qty). (r_order_id r, r_price_ticks r, qty)) trades"
    by (rule accepted_spec [OF assms(1-3)])
  have "(e_contra_order_id e, e_price_ticks e, e_quantity_lots e)
      \<in> set (fills (fst (apply_new_order b command)))"
    using assms(4) by (auto simp: fills_def)
  then obtain r qty where rq: "(r, qty) \<in> set trades" "r_order_id r = e_contra_order_id e"
    "r_price_ticks r = e_price_ticks e"
    unfolding f by auto
  then show ?thesis
    using sweep_crosses [OF sw rq(1)] by (cases s) (auto simp: no_cross_def)
qed

lemma trades_at_resting_price_within_limit_witness:
  "\<exists>r \<in> set (queues sample_book Sell). r_order_id r = 1 \<and> r_price_ticks r = I64 100"
proof -
  let ?e = "trades_of (fst (apply_new_order sample_book sample_buy)) ! 0"
  have "length (trades_of (fst (apply_new_order sample_book sample_buy))) = 2"
    "e_contra_order_id ?e = 1" "e_price_ticks ?e = I64 100"
    by code_simp+
  then show ?thesis
    using trades_at_resting_price_within_limit
      [OF sample_book_inv sample_buy_valid sample_buy_side, of ?e] by fastforce
qed

section \<open>The book over time\<close>

text \<open>
  C12: The invariant holds initially and every command keeps it: both sides sorted with positive
  prices and quantities and no empty level, the order index exactly the queued orders, the book
  uncrossed, and a single instrument.
\<close>

theorem commands_keep_book_invariant:
  "engine_inv (snd (run_commands engine_apply (new_instrument_engine n) commands))"
  by (rule engine.inv_run) simp

text \<open>
  C21: The run-time self check that replay performs after every command accepts every state the
  engine can reach.
\<close>

theorem reachable_book_passes_validation:
  "validate_invariants
     (engine_order_book (snd (run_commands engine_apply (new_instrument_engine n) commands)))"
  using engine.inv_run [OF engine_inv_new, of n commands]
  unfolding engine_inv_def by (rule validate_invariants_of_book_inv)

text \<open>A book no engine builds: the orders are of two instruments. The self check accepts it.\<close>

definition mixed_book :: OrderBook where
  "mixed_book =
     (let order = (\<lambda>n instrument s price. \<lparr>r_order_id = n, r_client_id = 7, r_instrument_id = instrument,
        r_side = side_code s, r_price_ticks = I64 price, r_remaining_quantity_lots = I64 3\<rparr>)
      in (new_order_book 1)\<lparr>b_bids := [(I64 99, [order 1 5 Buy 99])], b_asks := [(I64 100, [order 2 6 Sell 100])],
           b_active_orders := [(1, order 1 5 Buy 99), (2, order 2 6 Sell 100)], b_instrument_id := Some 5\<rparr>)"

text \<open>
  C34: What the self check decides. On a book whose containers keep their representation (sorted
  levels, one index entry per id, kept under that id), it accepts exactly the books whose two sides
  are well-formed (no empty level, every order under its price and on its side, positive prices and
  quantities), whose index is exactly the queued orders, and which are not crossed. It does not
  look at the instrument: it is the book invariant except for the clause that all orders are of the
  book's one instrument.
\<close>

theorem validation_decides_invariant:
  assumes "sorted_wrt (>) (map fst (b_bids b))" "sorted_wrt (<) (map fst (b_asks b))"
    and "keys_distinct (b_active_orders b)"
    and "\<forall>(k, r) \<in> set (b_active_orders b). r_order_id r = k"
  shows "(validate_invariants b \<longleftrightarrow>
      side_ok Buy (b_bids b) \<and> side_ok Sell (b_asks b) \<and>
      indexed (b_active_orders b) (book_orders b) \<and> uncrossed b) \<and>
    (book_inv b \<longleftrightarrow> validate_invariants b \<and> one_instrument b)"
proof -
  have "validate_invariants b \<longleftrightarrow> containers_agree b"
    using containers_of_validate_invariants [OF _ assms] validate_invariants_of_containers by blast
  then show ?thesis unfolding book_inv_containers containers_agree_def by blast
qed

lemma validation_decides_invariant_witness:
  "book_inv sample_book \<and> validate_invariants mixed_book \<and> uncrossed mixed_book \<and> \<not> book_inv mixed_book"
proof -
  have "sorted_wrt (>) (map fst (b_bids sample_book))" "sorted_wrt (<) (map fst (b_asks sample_book))"
    "keys_distinct (b_active_orders sample_book)"
    "\<forall>(k, r) \<in> set (b_active_orders sample_book). r_order_id r = k"
    "validate_invariants sample_book" "one_instrument sample_book"
    by code_simp+
  note sample = validation_decides_invariant [OF this(1-4)] this(5,6)
  have "sorted_wrt (>) (map fst (b_bids mixed_book))" "sorted_wrt (<) (map fst (b_asks mixed_book))"
    "keys_distinct (b_active_orders mixed_book)"
    "\<forall>(k, r) \<in> set (b_active_orders mixed_book). r_order_id r = k"
    "validate_invariants mixed_book" "\<not> one_instrument mixed_book"
    by code_simp+
  note mixed = validation_decides_invariant [OF this(1-4)] this(5,6)
  from sample mixed show ?thesis by blast
qed

text \<open>
  After any command sequence the book is not crossed: when both sides hold orders, the best bid is
  below the best ask.
\<close>

lemma best_bid_below_best_ask:
  "let b = engine_order_book (snd (run_commands engine_apply (new_instrument_engine n) commands))
   in b_bids b = [] \<or> b_asks b = [] \<or> best_bid_price b < best_ask_price b"
proof -
  let ?b = "engine_order_book (snd (run_commands engine_apply (new_instrument_engine n) commands))"
  have "uncrossed ?b"
    using engine.inv_run [OF engine_inv_new, of n commands] by (simp add: engine_inv_def book_inv_def)
  then show ?thesis
    by (cases "b_bids ?b"; cases "b_asks ?b")
      (auto simp: Let_def uncrossed_def best_bid_price_def best_ask_price_def)
qed

lemma emits_run:
  "engine_inv g \<Longrightarrow> emits (engine_order_book g) (fst (run_commands engine_apply g commands))
     (engine_order_book (snd (run_commands engine_apply g commands)))"
proof (induction commands arbitrary: g)
  case (Cons c cs)
  obtain es g' where st: "engine_apply g c = (es, g')" by (cases "engine_apply g c")
  have "emits (engine_order_book g) es (engine_order_book g')" "engine_inv g'"
    using engine_apply_emits(1) [OF Cons.prems, of c] engine_inv_apply [OF Cons.prems, of c] st by simp_all
  then show ?case
    using emits_append [OF _ Cons.IH] st by (simp add: split_beta Let_def)
qed (simp add: emits_Nil)

text \<open>
  C33: Counters have no gaps and every command is answered. Over any run of commands the event sequence
  numbers are consecutive from the first one given to the engine, and the trade ids of the executed
  trades are consecutive from 1. The events are one block per command, in the order of the
  commands: what the engine answers to that command in the state the commands before it left. No
  block is empty, and every event of it carries the command sequence and the ingress identity of
  its command.
\<close>

theorem run_event_sequences_contiguous:
  "let events = fst (run_commands engine_apply (new_instrument_engine n) commands);
       trades = filter (\<lambda>e. e_event_type e = event_type_code TradeExecuted) events;
       block = (\<lambda>i. fst (engine_apply
         (snd (run_commands engine_apply (new_instrument_engine n) (take i commands))) (commands ! i)))
   in map e_event_sequence events = consecutive n (length events) \<and>
      map e_trade_id trades = consecutive 1 (length trades) \<and>
      events = concat (map block [0..<length commands]) \<and>
      (\<forall>i < length commands. block i \<noteq> [] \<and>
         (\<forall>e \<in> set (block i).
            e_command_sequence e = c_command_sequence (commands ! i) \<and>
            e_source_ingress_epoch e = c_source_ingress_epoch (commands ! i) \<and>
            e_source_ingress_sequence e = c_source_ingress_sequence (commands ! i)))"
proof -
  let ?events = "fst (run_commands engine_apply (new_instrument_engine n) commands)"
  have "map e_trade_id (trades_of ?events) = consecutive 1 (length (trades_of ?events))"
    using emits_run [OF engine_inv_new, of n commands]
    by (simp add: emits_def new_instrument_engine_def new_order_book_def)
  then have "map e_trade_id (filter (\<lambda>e. e_event_type e = event_type_code TradeExecuted) ?events) =
      consecutive 1 (length (filter (\<lambda>e. e_event_type e = event_type_code TradeExecuted) ?events))"
    by (simp add: trades_of_def is_trade_def [abs_def])
  moreover have "map e_event_sequence ?events = consecutive n (length ?events)"
    using engine.sequences_run [OF engine_inv_new, of n commands] by simp
  ultimately show ?thesis
    using engine.blocks_run(1) [OF engine_inv_new, of n commands]
      engine.blocks_run(2) [OF engine_inv_new, of _ commands n]
    unfolding Let_def attributed_def by blast
qed

lemma run_event_sequences_contiguous_witness:
  "map e_event_sequence (fst (run_commands engine_apply (new_instrument_engine 1) [sample_buy])) = [1, 2]"
proof -
  have "length (fst (run_commands engine_apply (new_instrument_engine 1) [sample_buy])) = 2"
    by code_simp
  then show ?thesis
    using run_event_sequences_contiguous [of 1 "[sample_buy]"] by (simp add: Let_def numeral_2_eq_2)
qed

text \<open>
  One command uses the event counter and the trade counter without gaps: its events are
  numbered consecutively, its trades carry consecutive trade ids, and both counters move on by
  exactly these numbers.
\<close>

lemma command_uses_counters_without_gaps:
  assumes "engine_inv g"
  shows "emits (engine_order_book g) (fst (engine_apply g command))
    (engine_order_book (snd (engine_apply g command)))"
  using assms by (rule engine_apply_emits)

lemma command_uses_counters_without_gaps_witness:
  "emits (new_order_book 1) (fst (engine_apply (new_instrument_engine 1) sample_buy))
    (engine_order_book (snd (engine_apply (new_instrument_engine 1) sample_buy)))"
  using command_uses_counters_without_gaps [OF engine_inv_new, of 1 sample_buy]
  by (simp add: new_instrument_engine_def)

section \<open>Rejection, cancel and replace\<close>

lemma cancel_event_not_rejected: "e_event_type (cancel_event b c r) \<noteq> event_type_code OrderRejected"
  by (simp add: cancel_event_eq)

lemma replacement_events_not_rejected:
  assumes inv: "book_inv b" and "validate_replace_order b command = NoRejection"
    and "find_order b (c_order_id command) = Some r"
    and "e \<in> set (fst (apply_new_order (advance (remove_cancelled_order b r) 1 0)
      (replacement_command command)))"
  shows "e_event_type e \<noteq> event_type_code OrderRejected"
proof -
  have "book_inv (advance (remove_cancelled_order b r) 1 0)"
    using book_inv_remove_found [OF inv assms(3)] by simp
  then show ?thesis
    by (rule new_order_not_rejected [OF _ validate_replacement [OF assms(1-3)] assms(4)])
qed

text \<open>
  C22: A rejection is final and changes nothing: if any event of a command is a rejection, it is the
  only event, it carries a rejection reason, and the book is the one before the command except
  that one event sequence number is used up. In particular a replace that passed its validation
  is never rejected half-way, after its cancel.
\<close>

theorem rejected_command_leaves_book:
  assumes "engine_inv g" "e \<in> set (fst (engine_apply g command))"
    and "e_event_type e = event_type_code OrderRejected"
  shows "\<exists>reason. reason \<noteq> NoRejection \<and> e_rejection_reason e = rejection_reason_code reason \<and>
    fst (engine_apply g command) = [e] \<and>
    engine_order_book (snd (engine_apply g command)) =
      (engine_order_book g)\<lparr>b_next_event_sequence := b_next_event_sequence (engine_order_book g) + 1\<rparr>"
proof -
  let ?b = "engine_order_book g"
  have inv: "book_inv ?b" using assms(1) by (simp add: engine_inv_def)
  have "\<exists>reason. reason \<noteq> NoRejection \<and>
    fst (engine_apply g command) = [rejection_event ?b command reason] \<and>
    engine_order_book (snd (engine_apply g command)) = advance ?b 1 0"
  proof (cases rule: engine_apply_cases [of command g])
    case unsupported
    then show ?thesis by (simp add: reject_unsupported_command_eq exI [of _ UnsupportedCommand])
  next
    case new
    then have "validate_new_order ?b command \<noteq> NoRejection"
      using new_order_not_rejected [OF inv] assms(2,3) by auto
    with new show ?thesis by (auto simp: apply_new_order_rejected)
  next
    case cancel
    then show ?thesis
      using assms(2,3) cancel_event_not_rejected
      by (cases rule: apply_cancel_order_cases [of ?b command]) auto
  next
    case replace
    then show ?thesis
    proof (cases rule: apply_replace_order_cases [of ?b command])
      case replace: (replace r)
      then have False
        using assms(2,3) \<open>engine_apply g command = _\<close> cancel_event_not_rejected
          replacement_events_not_rejected [OF inv replace(1,2)]
        by (auto simp: Let_def split_beta)
      then show ?thesis ..
    qed auto
  qed
  then show ?thesis
    using assms(2) by (auto simp: rejection_event_eq advance_def)
qed

definition sample_bad_side :: OrderCommandRecordV1 where
  "sample_bad_side = sample_buy\<lparr>c_side := 9\<rparr>"

lemma rejected_command_leaves_book_witness:
  "fst (engine_apply (new_instrument_engine 1) sample_bad_side) =
     [fst (engine_apply (new_instrument_engine 1) sample_bad_side) ! 0]"
proof -
  let ?e = "fst (engine_apply (new_instrument_engine 1) sample_bad_side) ! 0"
  have "length (fst (engine_apply (new_instrument_engine 1) sample_bad_side)) = 1"
    "e_event_type ?e = event_type_code OrderRejected"
    by code_simp+
  then show ?thesis
    using rejected_command_leaves_book [OF engine_inv_new, of ?e 1 sample_bad_side] by fastforce
qed

text \<open>
  C24: Cancelling a resting order of the command's instrument emits one event with the cancelled
  order's side, price and remaining quantity, takes exactly this order out of its queue and the
  index, and leaves the order of all others as it is.
\<close>

theorem cancel_removes_exactly_the_order:
  assumes inv: "book_inv b" and "c_command_type command = command_type_code CancelOrder"
    and f: "find_order b (c_order_id command) = Some r"
    and "r_instrument_id r = c_instrument_id command"
  shows "(let (events, b') = apply_cancel_order b command in
    queues b' = spec_cancel_order (c_order_id command) (queues b) \<and>
    \<not> has_order b' (c_order_id command) \<and>
    (\<forall>k. k \<noteq> c_order_id command \<longrightarrow> find_order b' k = find_order b k) \<and>
    map (\<lambda>e. (e_event_type e, e_order_id e, e_side e, e_price_ticks e, e_remaining_quantity_lots e)) events
      = [(event_type_code OrderCancelled, c_order_id command, r_side r, r_price_ticks r,
          r_remaining_quantity_lots r)])"
proof -
  have id: "r_order_id r = c_order_id command" using find_order_iff [OF inv] f by blast
  have "apply_cancel_order b command =
      ([cancel_event (remove_cancelled_order b r) command r], advance (remove_cancelled_order b r) 1 0)"
    using assms by (simp add: apply_cancel_order_def emit_advance decode_command_type_def)
  then show ?thesis
    using queues_remove_cancelled_order [OF inv f] id
    by (simp add: has_order_def find_order_def cancel_event_eq)
      (simp add: remove_cancelled_order_def Let_def)
qed

definition sample_cancel :: OrderCommandRecordV1 where
  "sample_cancel = sample_command CancelOrder 2 Buy 0 0"

lemma cancel_removes_exactly_the_order_witness:
  "\<not> has_order (snd (apply_cancel_order sample_book sample_cancel)) 2"
proof -
  have "c_command_type sample_cancel = command_type_code CancelOrder"
    "c_order_id sample_cancel = 2"
    "c_instrument_id sample_cancel = 1"
    by code_simp+
  moreover have "find_order sample_book 2 = Some (resting_order_of (sample_command NewOrder 2 Sell 101 7) (I64 7))"
    by code_simp
  moreover have "r_instrument_id (resting_order_of (sample_command NewOrder 2 Sell 101 7) (I64 7)) = 1"
    by code_simp
  ultimately show ?thesis
    using cancel_removes_exactly_the_order [OF sample_book_inv, of sample_cancel]
    by (auto simp: Let_def split_beta)
qed

text \<open>
  C23: A valid replace is a cancel of the old order followed by an accepted new order under the
  replacement id: it loses its time priority, its new quantity may trade at once, and no event is
  a rejection.
\<close>

theorem replace_is_cancel_and_new_order:
  assumes inv: "book_inv b" and v: "validate_replace_order b command = NoRejection"
    and s: "c_side command = side_code s"
    and spec: "spec_new_order s (spec_cancel_order (c_order_id command) (queues b))
      (replacement_command command) = (trades, left, qs)"
  shows "queues (snd (apply_replace_order b command)) = qs \<and>
    map e_event_type (fst (apply_replace_order b command)) =
      [event_type_code OrderCancelled, event_type_code OrderAccepted]
      @ replicate (length trades) (event_type_code TradeExecuted)
      @ [event_type_code (if left = 0 then OrderFullyFilled
           else if left \<noteq> c_quantity_lots command then OrderPartiallyFilled else OrderRested)] \<and>
    \<not> has_order (snd (apply_replace_order b command)) (c_order_id command)"
proof (cases rule: apply_replace_order_cases [of b command])
  case (replace r)
  let ?b1 = "advance (remove_cancelled_order b r) 1 0"
  let ?c = "replacement_command command"
  have inv1: "book_inv ?b1" using book_inv_remove_found [OF inv replace(2)] by simp
  have q1: "queues ?b1 = spec_cancel_order (c_order_id command) (queues b)"
    using queues_remove_cancelled_order [OF inv replace(2)] by simp
  have s': "c_side ?c = side_code s" "c_quantity_lots ?c = c_quantity_lots command"
    using s by (simp_all add: replacement_command_def)
  note ref = new_order_refines [OF inv1 validate_replacement [OF inv v replace(2)] s'(1),
      unfolded q1, OF spec]
  have all: "map e_event_type (trade_events b' c i ts) =
      replicate (length ts) (event_type_code TradeExecuted)" for b' c i and ts :: "(RestingOrder \<times> i64) list"
    by (induction b' c i ts rule: trade_events.induct) (simp_all add: trade_event_def)
  have "c_order_id command \<notin> r_order_id ` set (book_orders (snd (apply_new_order ?b1 ?c)))"
  proof -
    have ne: "c_replacement_order_id command \<noteq> c_order_id command"
      using v replace(2) by (auto simp: validate_replace_order_def split: if_splits)
    have old: "\<forall>x \<in> set (queues ?b1 t). r_order_id x \<noteq> c_order_id command" for t
      unfolding q1 by (simp add: spec_cancel_order_def)
    obtain opp where sw: "sweep (no_cross s (c_price_ticks ?c)) (c_quantity_lots ?c)
        (queues ?b1 (other_side s)) = (trades, left, opp)"
      and qs: "qs = (queues ?b1)(other_side s := opp,
        s := if left = 0 then queues ?b1 s else enqueue s (resting_order_of ?c left) (queues ?b1 s))"
      using spec unfolding q1 [symmetric] by (auto simp: spec_new_order_def split: prod.splits)
    have "\<forall>x \<in> set opp. r_order_id x \<noteq> c_order_id command"
      by (rule sweep_preserves [OF sw]) (use old in auto)
    then show ?thesis
      using old [of s] ne ref(1) set_queues [of "snd (apply_new_order ?b1 ?c)" s]
      by (auto simp: qs set_enqueue replacement_command_def split: if_splits)
  qed
  then have "\<not> has_order (snd (apply_new_order ?b1 ?c)) (c_order_id command)"
    using indexed_lookup_None [OF book_invD(2) [OF book_inv_apply_new_order [OF inv1]]]
    by (simp add: has_order_def)
  then show ?thesis
    using replace(3) ref by (auto simp: Let_def split_beta cancel_event_eq all s' final_event_def)
qed (use v in simp)

definition sample_replace :: OrderCommandRecordV1 where
  "sample_replace = sample_command ReplaceOrder 3 Buy 100 9"

lemma replace_is_cancel_and_new_order_witness:
  "\<not> has_order (snd (apply_replace_order sample_book sample_replace)) 3 \<and>
   length (fst (apply_replace_order sample_book sample_replace)) = 4"
proof -
  have v: "validate_replace_order sample_book sample_replace = NoRejection"
    and s: "c_side sample_replace = side_code Buy"
    and id: "c_order_id sample_replace = 3"
    and t: "length (fst (spec_new_order Buy (spec_cancel_order 3 (queues sample_book))
      (replacement_command sample_replace))) = 1"
    by code_simp+
  obtain trades left qs where sp: "spec_new_order Buy (spec_cancel_order (c_order_id sample_replace)
      (queues sample_book)) (replacement_command sample_replace) = (trades, left, qs)"
    by (cases "spec_new_order Buy (spec_cancel_order (c_order_id sample_replace) (queues sample_book))
      (replacement_command sample_replace)")
  note rep = replace_is_cancel_and_new_order [OF sample_book_inv v s sp]
  have "length trades = 1" using t sp id by simp
  then have "length (fst (apply_replace_order sample_book sample_replace)) = 4"
    using arg_cong [OF rep [THEN conjunct2, THEN conjunct1], of length] by simp
  with rep id show ?thesis by simp
qed

section \<open>Queries\<close>

lemma best_level:
  assumes "side_ok s ((p, q) # ls)" "r \<in> set (flat ((p, q) # ls))"
  shows "r_price_ticks r = p \<or> better s p (r_price_ticks r)"
proof -
  have "r_price_ticks r \<in> fst ` set ((p, q) # ls)"
    using priced_prices [OF side_okD(2) [OF assms(1)]] assms(2) by blast
  then show ?thesis using side_okD(1) [OF assms(1)] by auto
qed

lemma best_price:
  assumes "side_ok s ls" "ls \<noteq> []"
  shows "\<exists>r \<in> set (flat ls). r_price_ticks r = fst (hd ls)"
    and "\<forall>r \<in> set (flat ls). r_price_ticks r = fst (hd ls) \<or> better s (fst (hd ls)) (r_price_ticks r)"
proof -
  obtain p q rest where ls: "ls = (p, q) # rest" using assms(2) by (cases ls) auto
  have "q \<noteq> []" "\<forall>r \<in> set q. r_price_ticks r = p"
    using side_okD(2) [OF assms(1)] ls by auto
  then show "\<exists>r \<in> set (flat ls). r_price_ticks r = fst (hd ls)"
    by (cases q) (auto simp: ls)
  show "\<forall>r \<in> set (flat ls). r_price_ticks r = fst (hd ls) \<or> better s (fst (hd ls)) (r_price_ticks r)"
    using best_level assms(1) unfolding ls by (metis list.sel(1) fst_conv)
qed

text \<open>
  C35: In every reachable state the queries agree with the queues: an id is found exactly when an
  order with that id is queued, the count is the number of queued orders, and the best prices are
  the highest bid and the lowest ask, or zero on an empty side.
\<close>

theorem queries_agree_with_queues:
  "let b = engine_order_book (snd (run_commands engine_apply (new_instrument_engine n) commands));
       bids = set (queues b Buy); asks = set (queues b Sell)
   in (\<forall>k r. find_order b k = Some r \<longleftrightarrow> r \<in> bids \<union> asks \<and> r_order_id r = k) \<and>
      active_order_count b = length (queues b Buy) + length (queues b Sell) \<and>
      (if bids = {} then best_bid_price b = 0
       else best_bid_price b \<in> r_price_ticks ` bids \<and> (\<forall>r \<in> bids. r_price_ticks r \<le> best_bid_price b)) \<and>
      (if asks = {} then best_ask_price b = 0
       else best_ask_price b \<in> r_price_ticks ` asks \<and> (\<forall>r \<in> asks. best_ask_price b \<le> r_price_ticks r))"
proof -
  let ?b = "engine_order_book (snd (run_commands engine_apply (new_instrument_engine n) commands))"
  have inv: "book_inv ?b"
    using engine.inv_run [OF engine_inv_new, of n commands] by (simp add: engine_inv_def)
  have "\<forall>k r. find_order ?b k = Some r \<longleftrightarrow>
      r \<in> set (queues ?b Buy) \<union> set (queues ?b Sell) \<and> r_order_id r = k"
    using find_order_iff [OF inv] set_queues [of ?b Buy] by simp
  moreover have "active_order_count ?b = length (queues ?b Buy) + length (queues ?b Sell)"
    using indexed_length [OF book_invD(2) [OF inv]]
    by (simp add: active_order_count_def book_orders_def queues_def)
  moreover have empty: "set (queues ?b s) = {} \<longleftrightarrow> side_levels s ?b = []" for s
    using best_price(1) [OF book_invD(1) [OF inv, of s]]
    by (cases "side_levels s ?b = []") (auto simp: queues_def)
  have "best_bid_price ?b = (if side_levels Buy ?b = [] then 0 else fst (hd (side_levels Buy ?b)))"
    "best_ask_price ?b = (if side_levels Sell ?b = [] then 0 else fst (hd (side_levels Sell ?b)))"
    by (auto simp: best_bid_price_def best_ask_price_def zero_i64_def split: list.splits)
  moreover note best_price [OF book_invD(1) [OF inv, of Buy]] best_price [OF book_invD(1) [OF inv, of Sell]]
  ultimately show ?thesis
    using empty [of Buy] empty [of Sell]
    unfolding Let_def queues_def by (auto simp: image_iff) (metis order.refl order_less_imp_le)+
qed

lemma queries_agree_with_queues_witness:
  "let b = engine_order_book (snd (run_commands engine_apply (new_instrument_engine 1) [sample_buy]))
   in active_order_count b = length (queues b Buy) + length (queues b Sell)"
  using queries_agree_with_queues [of 1 "[sample_buy]"] by (simp only: Let_def)

end
