(* ===== verification/Replay.thy ===== *)
theory Replay
  imports Engine
begin

text \<open>
  \<open>src/core/src/replay.cpp\<close>: the event comparator and the replay runner. The two log readers are
  interfaces (\<open>CommandLogReader\<close>, \<open>EventLogReader\<close>): the runner takes their \<open>read_next\<close> as an
  argument. The locale \<open>record_source\<close> says what a reader promises, a list of records with an end;
  under it the runner returns, and accepts exactly the logs that the engine reproduces.
\<close>

section \<open>Types\<close>

datatype ReplayReadStatus = RecordRead | EndOfLog | ReadFailed

datatype ReplayFailureClass =
  NoFailure | CommandReadFailed | StoredEventReadFailed | CommandSequenceBreak
| StoredEventMissing | ExtraStoredEvent | EventFieldMismatch | InvariantViolation

datatype EventField =
  NoField | FieldEventType | FieldEventSequence | FieldCommandSequence | FieldSourceIngressEpoch
| FieldSourceIngressSequence | FieldInstrumentId | FieldOrderId | FieldContraOrderId | FieldSide
| FieldPriceTicks | FieldQuantityLots | FieldRemainingQuantityLots | FieldTradeId
| FieldRejectionReason | FieldReserved

record EventComparison =
  cmp_equal :: bool
  cmp_field :: EventField

record ReplayFailure =
  f_failure_class :: ReplayFailureClass
  f_command_sequence :: u64
  f_command :: OrderCommandRecordV1
  f_expected_event :: "ExecutionEventRecordV1 option"
  f_actual_event :: "ExecutionEventRecordV1 option"
  f_event_index_within_command :: u64
  f_global_event_sequence :: u64
  f_field :: EventField
  f_book_snapshot_before_command :: string
  f_book_snapshot_after_command :: string

definition no_failure :: ReplayFailure where
  "no_failure =
     \<lparr>f_failure_class = NoFailure, f_command_sequence = 0, f_command = empty_command,
      f_expected_event = None, f_actual_event = None, f_event_index_within_command = 0,
      f_global_event_sequence = 0, f_field = NoField,
      f_book_snapshot_before_command = [], f_book_snapshot_after_command = []\<rparr>"

record ReplayResult =
  res_ok :: bool
  res_commands_replayed :: u64
  res_events_compared :: u64
  res_failure :: ReplayFailure

definition failed_result :: "ReplayFailure \<Rightarrow> u64 \<Rightarrow> u64 \<Rightarrow> ReplayResult" where
  "failed_result failure commands_replayed events_compared =
     \<lparr>res_ok = False, res_commands_replayed = commands_replayed,
      res_events_compared = events_compared, res_failure = failure\<rparr>"

section \<open>The comparator\<close>

definition compare_events :: "ExecutionEventRecordV1 \<Rightarrow> ExecutionEventRecordV1 \<Rightarrow> EventComparison" where
  "compare_events expected actual =
     (if e_event_type expected \<noteq> e_event_type actual
      then \<lparr>cmp_equal = False, cmp_field = FieldEventType\<rparr>
      else if e_event_sequence expected \<noteq> e_event_sequence actual
      then \<lparr>cmp_equal = False, cmp_field = FieldEventSequence\<rparr>
      else if e_command_sequence expected \<noteq> e_command_sequence actual
      then \<lparr>cmp_equal = False, cmp_field = FieldCommandSequence\<rparr>
      else if e_source_ingress_epoch expected \<noteq> e_source_ingress_epoch actual
      then \<lparr>cmp_equal = False, cmp_field = FieldSourceIngressEpoch\<rparr>
      else if e_source_ingress_sequence expected \<noteq> e_source_ingress_sequence actual
      then \<lparr>cmp_equal = False, cmp_field = FieldSourceIngressSequence\<rparr>
      else if e_instrument_id expected \<noteq> e_instrument_id actual
      then \<lparr>cmp_equal = False, cmp_field = FieldInstrumentId\<rparr>
      else if e_order_id expected \<noteq> e_order_id actual
      then \<lparr>cmp_equal = False, cmp_field = FieldOrderId\<rparr>
      else if e_contra_order_id expected \<noteq> e_contra_order_id actual
      then \<lparr>cmp_equal = False, cmp_field = FieldContraOrderId\<rparr>
      else if e_side expected \<noteq> e_side actual
      then \<lparr>cmp_equal = False, cmp_field = FieldSide\<rparr>
      else if e_price_ticks expected \<noteq> e_price_ticks actual
      then \<lparr>cmp_equal = False, cmp_field = FieldPriceTicks\<rparr>
      else if e_quantity_lots expected \<noteq> e_quantity_lots actual
      then \<lparr>cmp_equal = False, cmp_field = FieldQuantityLots\<rparr>
      else if e_remaining_quantity_lots expected \<noteq> e_remaining_quantity_lots actual
      then \<lparr>cmp_equal = False, cmp_field = FieldRemainingQuantityLots\<rparr>
      else if e_trade_id expected \<noteq> e_trade_id actual
      then \<lparr>cmp_equal = False, cmp_field = FieldTradeId\<rparr>
      else if e_rejection_reason expected \<noteq> e_rejection_reason actual
      then \<lparr>cmp_equal = False, cmp_field = FieldRejectionReason\<rparr>
      else if e_reserved expected \<noteq> e_reserved actual
      then \<lparr>cmp_equal = False, cmp_field = FieldReserved\<rparr>
      else \<lparr>cmp_equal = True, cmp_field = NoField\<rparr>)"

text \<open>The comparator as a table: the fields in the order of the checks, each with its value.\<close>

fun field_value :: "EventField \<Rightarrow> ExecutionEventRecordV1 \<Rightarrow> int" where
  "field_value NoField e = 0"
| "field_value FieldEventType e = uint (e_event_type e)"
| "field_value FieldEventSequence e = uint (e_event_sequence e)"
| "field_value FieldCommandSequence e = uint (e_command_sequence e)"
| "field_value FieldSourceIngressEpoch e = uint (e_source_ingress_epoch e)"
| "field_value FieldSourceIngressSequence e = uint (e_source_ingress_sequence e)"
| "field_value FieldInstrumentId e = uint (e_instrument_id e)"
| "field_value FieldOrderId e = uint (e_order_id e)"
| "field_value FieldContraOrderId e = uint (e_contra_order_id e)"
| "field_value FieldSide e = uint (e_side e)"
| "field_value FieldPriceTicks e = to_int (e_price_ticks e)"
| "field_value FieldQuantityLots e = to_int (e_quantity_lots e)"
| "field_value FieldRemainingQuantityLots e = to_int (e_remaining_quantity_lots e)"
| "field_value FieldTradeId e = uint (e_trade_id e)"
| "field_value FieldRejectionReason e = uint (e_rejection_reason e)"
| "field_value FieldReserved e = uint (e_reserved e)"

definition compared_fields :: "EventField list" where
  "compared_fields =
     [FieldEventType, FieldEventSequence, FieldCommandSequence, FieldSourceIngressEpoch,
      FieldSourceIngressSequence, FieldInstrumentId, FieldOrderId, FieldContraOrderId, FieldSide,
      FieldPriceTicks, FieldQuantityLots, FieldRemainingQuantityLots, FieldTradeId,
      FieldRejectionReason, FieldReserved]"

lemma case_find_Cons:
  "(case List.find P (x # xs) of None \<Rightarrow> a | Some f \<Rightarrow> g f) =
     (if P x then g x else (case List.find P xs of None \<Rightarrow> a | Some f \<Rightarrow> g f))"
  by simp

lemma compare_events_table:
  "compare_events expected actual =
     (case List.find (\<lambda>f. field_value f expected \<noteq> field_value f actual) compared_fields of
        None \<Rightarrow> \<lparr>cmp_equal = True, cmp_field = NoField\<rparr>
      | Some f \<Rightarrow> \<lparr>cmp_equal = False, cmp_field = f\<rparr>)"
  by (simp only: compare_events_def compared_fields_def case_find_Cons List.find.simps(1) option.case
      field_value.simps to_int_inject word_uint_eq_iff [symmetric])

lemma fields_determine_event:
  assumes "\<forall>f \<in> set compared_fields. field_value f expected = field_value f actual"
  shows "expected = (actual :: ExecutionEventRecordV1)"
  by (rule ExecutionEventRecordV1.equality)
    (use assms in \<open>simp_all only: compared_fields_def list.set ball_simps insert_iff field_value.simps
      to_int_inject word_uint_eq_iff [symmetric]\<close>, simp)

lemma compare_events_equal: "cmp_equal (compare_events expected actual) \<longleftrightarrow> expected = actual"
proof
  assume "cmp_equal (compare_events expected actual)"
  then have "List.find (\<lambda>f. field_value f expected \<noteq> field_value f actual) compared_fields = None"
    unfolding compare_events_table by (auto split: option.splits)
  then show "expected = actual"
    by (intro fields_determine_event) (simp add: find_None_iff)
next
  assume "expected = actual"
  then show "cmp_equal (compare_events expected actual)"
    unfolding compare_events_table by (simp add: find_None_iff split: option.splits)
qed

section \<open>The runner\<close>

text \<open>
  The loop over the events one command generated. \<open>Inl\<close> is the failure it returns with, \<open>Inr\<close>
  the reader behind the compared events; the counter of compared events is threaded.
\<close>

fun compare_generated ::
  "('e \<Rightarrow> ReplayReadStatus \<times> ExecutionEventRecordV1 \<times> 'e) \<Rightarrow> OrderCommandRecordV1 \<Rightarrow> string \<Rightarrow> string \<Rightarrow>
   ExecutionEventRecordV1 list \<Rightarrow> u64 \<Rightarrow> 'e \<Rightarrow> u64 \<Rightarrow> (ReplayFailure + 'e) \<times> u64" where
  "compare_generated read_event command before after [] index er events_compared =
     (Inr er, events_compared)"
| "compare_generated read_event command before after (generated # rest) index er events_compared =
     (case read_event er of (status, stored_event, er') \<Rightarrow>
        if status = EndOfLog then
          (Inl (no_failure
             \<lparr>f_failure_class := StoredEventMissing,
              f_command_sequence := c_command_sequence command, f_command := command,
              f_expected_event := Some generated, f_event_index_within_command := index,
              f_global_event_sequence := e_event_sequence generated,
              f_book_snapshot_before_command := before, f_book_snapshot_after_command := after\<rparr>),
           events_compared)
        else if status \<noteq> RecordRead then
          (Inl (no_failure
             \<lparr>f_failure_class := StoredEventReadFailed,
              f_command_sequence := c_command_sequence command, f_command := command,
              f_event_index_within_command := index,
              f_book_snapshot_before_command := before, f_book_snapshot_after_command := after\<rparr>),
           events_compared)
        else
          (let comparison = compare_events generated stored_event in
           if \<not> cmp_equal comparison then
             (Inl (no_failure
                \<lparr>f_failure_class := EventFieldMismatch,
                 f_command_sequence := c_command_sequence command, f_command := command,
                 f_expected_event := Some generated, f_actual_event := Some stored_event,
                 f_event_index_within_command := index,
                 f_global_event_sequence := e_event_sequence generated,
                 f_field := cmp_field comparison,
                 f_book_snapshot_before_command := before, f_book_snapshot_after_command := after\<rparr>),
              events_compared)
           else compare_generated read_event command before after rest (index + 1) er'
                  (events_compared + 1)))"

text \<open>After the loop: no further event may be stored.\<close>

definition replay_tail ::
  "('e \<Rightarrow> ReplayReadStatus \<times> ExecutionEventRecordV1 \<times> 'e) \<Rightarrow> 'e \<Rightarrow> u64 \<Rightarrow> u64 \<Rightarrow> ReplayResult" where
  "replay_tail read_event er commands_replayed events_compared =
     (case read_event er of (status, extra_event, er') \<Rightarrow>
        if status = RecordRead then
          failed_result
            (no_failure\<lparr>f_failure_class := ExtraStoredEvent, f_actual_event := Some extra_event,
                        f_global_event_sequence := e_event_sequence extra_event\<rparr>)
            commands_replayed events_compared
        else if status \<noteq> EndOfLog then
          failed_result (no_failure\<lparr>f_failure_class := StoredEventReadFailed\<rparr>)
            commands_replayed events_compared
        else \<lparr>res_ok = True, res_commands_replayed = commands_replayed,
              res_events_compared = events_compared, res_failure = no_failure\<rparr>)"

text \<open>The \<open>while (true)\<close> loop. A command reader that never ends keeps it running: \<open>None\<close>.\<close>

partial_function (option) replay_loop ::
  "('c \<Rightarrow> ReplayReadStatus \<times> OrderCommandRecordV1 \<times> 'c) \<Rightarrow>
   ('e \<Rightarrow> ReplayReadStatus \<times> ExecutionEventRecordV1 \<times> 'e) \<Rightarrow>
   'c \<Rightarrow> 'e \<Rightarrow> InstrumentEngine \<Rightarrow> u64 option \<Rightarrow> u64 \<Rightarrow> u64 \<Rightarrow> ReplayResult option" where
  "replay_loop read_command read_event cr er engine previous commands_replayed events_compared =
     (case read_command cr of (status, command, cr') \<Rightarrow>
        if status = EndOfLog then
          Some (replay_tail read_event er commands_replayed events_compared)
        else if status \<noteq> RecordRead then
          Some (failed_result (no_failure\<lparr>f_failure_class := CommandReadFailed\<rparr>)
                  commands_replayed events_compared)
        else if previous \<noteq> None \<and> c_command_sequence command \<noteq> the previous + 1 then
          Some (failed_result
                  (no_failure
                     \<lparr>f_failure_class := CommandSequenceBreak,
                      f_command_sequence := c_command_sequence command, f_command := command,
                      f_book_snapshot_before_command := snapshot (engine_order_book engine)\<rparr>)
                  commands_replayed events_compared)
        else
          (let before = snapshot (engine_order_book engine);
               (generated, engine') = engine_apply engine command;
               after = snapshot (engine_order_book engine')
           in case compare_generated read_event command before after generated 0 er events_compared of
                (Inl failure, events_compared') \<Rightarrow>
                  Some (failed_result failure commands_replayed events_compared')
              | (Inr er', events_compared') \<Rightarrow>
                  if \<not> validate_invariants (engine_order_book engine') then
                    Some (failed_result
                            (no_failure
                               \<lparr>f_failure_class := InvariantViolation,
                                f_command_sequence := c_command_sequence command,
                                f_command := command,
                                f_book_snapshot_before_command := before,
                                f_book_snapshot_after_command := after\<rparr>)
                            commands_replayed events_compared')
                  else replay_loop read_command read_event cr' er' engine'
                         (Some (c_command_sequence command)) (commands_replayed + 1) events_compared'))"

declare replay_loop.simps [code]

definition replay ::
  "('c \<Rightarrow> ReplayReadStatus \<times> OrderCommandRecordV1 \<times> 'c) \<Rightarrow>
   ('e \<Rightarrow> ReplayReadStatus \<times> ExecutionEventRecordV1 \<times> 'e) \<Rightarrow>
   'c \<Rightarrow> 'e \<Rightarrow> InstrumentEngine \<Rightarrow> ReplayResult option" where
  "replay read_command read_event cr er engine =
     replay_loop read_command read_event cr er engine None 0 0"

section \<open>Readers as record sources\<close>

lemma run_commands_Cons:
  "step s c = (es, s') \<Longrightarrow> fst (run_commands step s (c # cs)) = es @ fst (run_commands step s' cs)"
  by (simp add: split_beta Let_def)

text \<open>
  \<open>represents r xs e\<close>: reading \<open>r\<close> yields the records \<open>xs\<close> and then the status \<open>e\<close>, the end of the
  log or a failure.
\<close>

locale record_source =
  fixes read :: "'r \<Rightarrow> ReplayReadStatus \<times> 'a \<times> 'r"
    and represents :: "'r \<Rightarrow> 'a list \<Rightarrow> ReplayReadStatus \<Rightarrow> bool"
  assumes read_record: "represents r (x # xs) e \<Longrightarrow> \<exists>r'. read r = (RecordRead, x, r') \<and> represents r' xs e"
    and read_end: "represents r [] e \<Longrightarrow> fst (read r) = e \<and> e \<noteq> RecordRead"
begin

lemma read_end_cases:
  assumes "represents r [] e"
  obtains x r' where "read r = (EndOfLog, x, r')" "e = EndOfLog"
    | x r' where "read r = (ReadFailed, x, r')" "e = ReadFailed"
  using read_end [OF assms] by (cases "read r"; cases e) auto

end

fun follows :: "u64 option \<Rightarrow> u64 list \<Rightarrow> bool" where
  "follows previous [] \<longleftrightarrow> True"
| "follows None (x # xs) \<longleftrightarrow> follows (Some x) xs"
| "follows (Some p) (x # xs) \<longleftrightarrow> x = p + 1 \<and> follows (Some x) xs"

lemma follows_Cons: "follows previous (x # xs) \<longleftrightarrow>
    \<not> (previous \<noteq> None \<and> x \<noteq> the previous + 1) \<and> follows (Some x) xs"
  by (cases previous) auto

lemma follows_Some: "follows (Some p) xs \<longleftrightarrow> consecutive (p + 1) (length xs) = xs"
proof (induction xs arbitrary: p)
  case (Cons x xs)
  show ?case unfolding follows.simps Cons.IH by auto
qed simp

lemma follows_None: "follows None xs \<longleftrightarrow> consecutive (hd xs) (length xs) = xs"
  by (cases xs) (simp_all add: follows_Some)

text \<open>What the comparison of one command's events reports at the first difference.\<close>

definition diverges ::
  "ReplayFailure \<Rightarrow> ExecutionEventRecordV1 list \<Rightarrow> ExecutionEventRecordV1 list \<Rightarrow> ReplayReadStatus \<Rightarrow> nat \<Rightarrow> bool" where
  "diverges f generated stored e n \<longleftrightarrow>
     n < length generated \<and> n \<le> length stored \<and> take n stored = take n generated \<and>
     (if n < length stored then
        generated ! n \<noteq> stored ! n \<and> f_failure_class f = EventFieldMismatch \<and>
        f_expected_event f = Some (generated ! n) \<and> f_actual_event f = Some (stored ! n) \<and>
        f_field f = cmp_field (compare_events (generated ! n) (stored ! n))
      else f_failure_class f = (if e = EndOfLog then StoredEventMissing else StoredEventReadFailed))"

text \<open>A mismatch report names the first event that differs from the run.\<close>

definition reports ::
  "ReplayFailure \<Rightarrow> ExecutionEventRecordV1 list \<Rightarrow> ExecutionEventRecordV1 list \<Rightarrow> nat \<Rightarrow> bool" where
  "reports f generated stored k \<longleftrightarrow>
     k < length generated \<and> k < length stored \<and> take k stored = take k generated \<and>
     generated ! k \<noteq> stored ! k \<and>
     f_expected_event f = Some (generated ! k) \<and> f_actual_event f = Some (stored ! k) \<and>
     f_field f = cmp_field (compare_events (generated ! k) (stored ! k))"

lemma reports_later: "reports f gen stored k \<Longrightarrow> reports f (es @ gen) (es @ stored) (length es + k)"
  by (simp add: reports_def)

lemma reports_now: "reports f es stored k \<Longrightarrow> reports f (es @ gen) stored k"
  by (simp add: reports_def nth_append)

lemma diverges_reports:
  "diverges f gen stored e k \<Longrightarrow> f_failure_class f = EventFieldMismatch \<Longrightarrow> reports f gen stored k"
  by (cases "k < length stored"; cases "e = EndOfLog") (simp_all add: diverges_def reports_def)

lemma diverges_neq:
  assumes "diverges f gen stored e k"
  shows "stored \<noteq> gen @ rest"
proof
  assume eq: "stored = gen @ rest"
  have "k < length gen" using assms unfolding diverges_def by blast
  then have "k < length stored" "gen ! k = stored ! k" by (simp_all add: eq nth_append)
  then show False using assms unfolding diverges_def by presburger
qed

lemma diverges_class: "diverges f gen stored e k \<Longrightarrow> f_failure_class f \<noteq> InvariantViolation"
  unfolding diverges_def by (metis ReplayFailureClass.distinct)

definition verdict ::
  "u64 option \<Rightarrow> InstrumentEngine \<Rightarrow> OrderCommandRecordV1 list \<Rightarrow> ReplayReadStatus \<Rightarrow>
   ExecutionEventRecordV1 list \<Rightarrow> ReplayReadStatus \<Rightarrow> u64 \<Rightarrow> u64 \<Rightarrow> ReplayResult \<Rightarrow> bool" where
  "verdict prev g cmds ce evs ee n m res \<longleftrightarrow>
     (let gen = fst (run_commands engine_apply g cmds) in
      (res_ok res \<longleftrightarrow>
         ce = EndOfLog \<and> ee = EndOfLog \<and> follows prev (map c_command_sequence cmds) \<and> evs = gen) \<and>
      (res_ok res \<longrightarrow> res_commands_replayed res = n + of_nat (length cmds) \<and>
         res_events_compared res = m + of_nat (length evs)) \<and>
      f_failure_class (res_failure res) \<noteq> InvariantViolation \<and>
      (f_failure_class (res_failure res) = EventFieldMismatch \<longrightarrow>
         (\<exists>k. res_events_compared res = m + of_nat k \<and> reports (res_failure res) gen evs k)))"

locale replay_logs =
  commands: record_source read_command has_commands + events: record_source read_event has_events
  for read_command :: "'c \<Rightarrow> ReplayReadStatus \<times> OrderCommandRecordV1 \<times> 'c"
    and has_commands :: "'c \<Rightarrow> OrderCommandRecordV1 list \<Rightarrow> ReplayReadStatus \<Rightarrow> bool"
    and read_event :: "'e \<Rightarrow> ReplayReadStatus \<times> ExecutionEventRecordV1 \<times> 'e"
    and has_events :: "'e \<Rightarrow> ExecutionEventRecordV1 list \<Rightarrow> ReplayReadStatus \<Rightarrow> bool"
begin

lemma compare_generated_cases:
  assumes "has_events er stored e"
  shows "(\<exists>er' stored'. stored = generated @ stored' \<and> has_events er' stored' e \<and>
       compare_generated read_event c bf af generated i er k = (Inr er', k + of_nat (length generated))) \<or>
    (\<exists>f n. diverges f generated stored e n \<and>
       compare_generated read_event c bf af generated i er k = (Inl f, k + of_nat n))"
  using assms
proof (induction generated arbitrary: er stored i k)
  case Nil
  then show ?case by auto
next
  case (Cons g gs)
  show ?case
  proof (cases stored)
    case Nil
    then have "has_events er [] e" using Cons.prems by simp
    then show ?thesis
      by (cases rule: events.read_end_cases)
        (auto simp: Nil diverges_def Let_def intro!: exI [of _ 0])
  next
    case (Cons x xs)
    then obtain er' where rd: "read_event er = (RecordRead, x, er')" and xs: "has_events er' xs e"
      using events.read_record Cons.prems by blast
    show ?thesis
    proof (cases "g = x")
      case True
      have step: "compare_generated read_event c bf af (g # gs) i er k =
          compare_generated read_event c bf af gs (i + 1) er' (k + 1)"
        using True rd compare_events_equal [of g x] by (simp add: Let_def)
      from Cons.IH [OF xs, of "i + 1" "k + 1"] show ?thesis
      proof (elim disjE exE conjE)
        fix er'' stored'
        assume "xs = gs @ stored'" "has_events er'' stored' e"
          "compare_generated read_event c bf af gs (i + 1) er' (k + 1)
             = (Inr er'', k + 1 + of_nat (length gs))"
        then show ?thesis
          using True Cons step by (intro disjI1 exI [of _ er''] exI [of _ stored']) (simp add: add.assoc)
      next
        fix f n
        assume "diverges f gs xs e n"
          "compare_generated read_event c bf af gs (i + 1) er' (k + 1) = (Inl f, k + 1 + of_nat n)"
        then show ?thesis
          using True Cons step
          by (intro disjI2 exI [of _ f] exI [of _ "Suc n"]) (simp add: diverges_def add.assoc)
      qed
    next
      case False
      then show ?thesis
        using rd Cons compare_events_equal [of g x]
        by (intro disjI2) (auto simp: Let_def diverges_def intro!: exI [of _ 0])
    qed
  qed
qed

text \<open>One round of the loop.\<close>

lemma replay_loop_end:
  assumes "has_commands cr [] e"
  shows "replay_loop read_command read_event cr er g prev n m =
    Some (if e = EndOfLog then replay_tail read_event er n m
          else failed_result (no_failure\<lparr>f_failure_class := CommandReadFailed\<rparr>) n m)"
  by (cases rule: commands.read_end_cases [OF assms]; subst replay_loop.simps) simp_all

lemma replay_loop_break:
  assumes "read_command cr = (RecordRead, c, cr')" "prev \<noteq> None" "c_command_sequence c \<noteq> the prev + 1"
  shows "replay_loop read_command read_event cr er g prev n m =
    Some (failed_result
      (no_failure
         \<lparr>f_failure_class := CommandSequenceBreak, f_command_sequence := c_command_sequence c,
          f_command := c, f_book_snapshot_before_command := snapshot (engine_order_book g)\<rparr>) n m)"
  by (subst replay_loop.simps) (use assms in auto)

lemma replay_loop_step:
  assumes "read_command cr = (RecordRead, c, cr')" "\<not> (prev \<noteq> None \<and> c_command_sequence c \<noteq> the prev + 1)"
    and "engine_apply g c = (gen, g')" "validate_invariants (engine_order_book g')"
    and "compare_generated read_event c (snapshot (engine_order_book g))
       (snapshot (engine_order_book g')) gen 0 er m = (r, m')"
  shows "replay_loop read_command read_event cr er g prev n m =
    (case r of Inl f \<Rightarrow> Some (failed_result f n m')
     | Inr er' \<Rightarrow> replay_loop read_command read_event cr' er' g' (Some (c_command_sequence c)) (n + 1) m')"
  by (subst replay_loop.simps) (use assms in \<open>auto simp: Let_def split: sum.splits\<close>)

lemma verdict_end:
  assumes "has_commands cr [] ce" "has_events er evs ee"
  shows "\<exists>res. replay_loop read_command read_event cr er g prev n m = Some res \<and>
    verdict prev g [] ce evs ee n m res"
proof -
  have "verdict prev g [] EndOfLog evs ee n m (replay_tail read_event er n m)"
  proof (cases evs)
    case Nil
    then have "has_events er [] ee" using assms(2) by simp
    then show ?thesis
      by (cases rule: events.read_end_cases)
        (auto simp: Nil verdict_def replay_tail_def failed_result_def no_failure_def)
  next
    case (Cons x xs)
    then obtain er' where "read_event er = (RecordRead, x, er')"
      using events.read_record assms(2) by blast
    then show ?thesis
      by (simp add: Cons verdict_def replay_tail_def failed_result_def no_failure_def)
  qed
  moreover have "verdict prev g [] ce evs ee n m
      (failed_result (no_failure\<lparr>f_failure_class := CommandReadFailed\<rparr>) n m)" if "ce \<noteq> EndOfLog"
    using that by (simp add: verdict_def failed_result_def no_failure_def)
  ultimately show ?thesis
    using replay_loop_end [OF assms(1)] by (cases "ce = EndOfLog") simp_all
qed

lemma verdict_break:
  assumes "f_failure_class f = CommandSequenceBreak" "prev \<noteq> None" "c_command_sequence c \<noteq> the prev + 1"
  shows "verdict prev g (c # cmds) ce evs ee n m (failed_result f n m)"
  using assms by (simp add: verdict_def failed_result_def follows_Cons Let_def)

lemma verdict_diverged:
  assumes "engine_apply g c = (gen, g')" "diverges f gen evs ee k"
  shows "verdict prev g (c # cmds) ce evs ee n m (failed_result f n (m + of_nat k))"
proof -
  let ?rest = "fst (run_commands engine_apply g' cmds)"
  have run: "fst (run_commands engine_apply g (c # cmds)) = gen @ ?rest"
    by (rule run_commands_Cons [of engine_apply, OF assms(1)])
  have "evs \<noteq> gen @ ?rest"
    by (rule diverges_neq [OF assms(2)])
  moreover have "f_failure_class f \<noteq> InvariantViolation"
    by (rule diverges_class [OF assms(2)])
  moreover have "reports f (gen @ ?rest) evs k" if "f_failure_class f = EventFieldMismatch"
    using reports_now diverges_reports [OF assms(2) that] by blast
  ultimately show ?thesis
    unfolding verdict_def Let_def run failed_result_def ReplayResult.simps by blast
qed

lemma verdict_step:
  assumes "engine_apply g c = (gen, g')" "\<not> (prev \<noteq> None \<and> c_command_sequence c \<noteq> the prev + 1)"
    and "verdict (Some (c_command_sequence c)) g' cmds ce evs ee (n + 1) (m + of_nat (length gen)) res"
  shows "verdict prev g (c # cmds) ce (gen @ evs) ee n m res"
proof -
  have run: "fst (run_commands engine_apply g (c # cmds)) = gen @ fst (run_commands engine_apply g' cmds)"
    by (rule run_commands_Cons [of engine_apply, OF assms(1)])
  have fol: "follows prev (map c_command_sequence (c # cmds)) \<longleftrightarrow>
      follows (Some (c_command_sequence c)) (map c_command_sequence cmds)"
    using assms(2) by (simp add: follows_Cons)
  have later: "\<exists>k. m + of_nat (length gen) + of_nat j = m + (of_nat k :: u64) \<and>
      reports f (gen @ xs) (gen @ ys) k" if "reports f xs ys j" for f xs ys j
    using reports_later [OF that, of gen] by (intro exI [of _ "length gen + j"]) (simp add: add.assoc)
  show ?thesis
    using assms(3) later unfolding verdict_def Let_def run fol
    by (auto simp: add.assoc)
qed

text \<open>The runner returns, with the verdict.\<close>

lemma replay_loop_verdict:
  assumes "has_commands cr cmds ce" "has_events er evs ee" "engine_inv g"
  shows "\<exists>res. replay_loop read_command read_event cr er g prev n m = Some res \<and>
    verdict prev g cmds ce evs ee n m res"
  using assms
proof (induction cmds arbitrary: cr er evs g prev n m)
  case Nil
  then show ?case by (intro verdict_end)
next
  case (Cons c cmds)
  obtain cr' where rd: "read_command cr = (RecordRead, c, cr')" and cr': "has_commands cr' cmds ce"
    using commands.read_record Cons.prems(1) by blast
  show ?case
  proof (cases "prev \<noteq> None \<and> c_command_sequence c \<noteq> the prev + 1")
    case True
    then show ?thesis
      using replay_loop_break [OF rd] verdict_break [of _ prev c] by fastforce
  next
    case False
    obtain gen g' where ap: "engine_apply g c = (gen, g')" by (cases "engine_apply g c")
    have inv: "engine_inv g'" using engine_inv_apply [OF Cons.prems(3), of c] ap by simp
    then have ok: "validate_invariants (engine_order_book g')"
      unfolding engine_inv_def by (rule validate_invariants_of_book_inv)
    note step = replay_loop_step [OF rd False ap ok]
    show ?thesis
      using compare_generated_cases [OF Cons.prems(2), of gen c "snapshot (engine_order_book g)"
          "snapshot (engine_order_book g')" 0 m]
    proof (elim disjE exE conjE)
      fix er' evs'
      assume evs: "evs = gen @ evs'" and er': "has_events er' evs' ee"
        and cmp: "compare_generated read_event c (snapshot (engine_order_book g))
          (snapshot (engine_order_book g')) gen 0 er m = (Inr er', m + of_nat (length gen))"
      show ?thesis
        using Cons.IH [OF cr' er' inv] step [OF cmp] verdict_step [OF ap False]
        unfolding evs by fastforce
    next
      fix f k
      assume d: "diverges f gen evs ee k"
        and cmp: "compare_generated read_event c (snapshot (engine_order_book g))
          (snapshot (engine_order_book g')) gen 0 er m = (Inl f, m + of_nat k)"
      show ?thesis
        using step [OF cmp] verdict_diverged [OF ap d] by fastforce
    qed
  qed
qed

lemma replay_returns:
  assumes "has_commands cr cmds ce" "has_events er evs ee" "engine_inv g"
  shows "\<exists>res. replay read_command read_event cr er g = Some res \<and> verdict None g cmds ce evs ee 0 0 res"
  unfolding replay_def by (rule replay_loop_verdict [OF assms])

end

section \<open>In-memory readers\<close>

text \<open>A log held as a list, the reader the runner is given where no file is involved.\<close>

fun list_reader :: "'a \<Rightarrow> 'a list \<Rightarrow> ReplayReadStatus \<times> 'a \<times> 'a list" where
  "list_reader x0 [] = (EndOfLog, x0, [])"
| "list_reader x0 (x # xs) = (RecordRead, x, xs)"

definition list_represents :: "'a list \<Rightarrow> 'a list \<Rightarrow> ReplayReadStatus \<Rightarrow> bool" where
  "list_represents r xs e \<longleftrightarrow> r = xs \<and> e = EndOfLog"

interpretation list_log: record_source "list_reader x0" list_represents for x0
  by unfold_locales (auto simp: list_represents_def)

interpretation list_logs: replay_logs "list_reader c0" list_represents "list_reader e0" list_represents
  for c0 e0 ..

end
