(* ===== verification/ReplayProperties.thy ===== *)
theory ReplayProperties
  imports Replay BookProperties
begin

text \<open>
  The properties of the comparator and the replay runner, for any pair of log readers that
  deliver a list of records and then an end or a failure.
\<close>

text \<open>
  The comparator accepts exactly equal events; otherwise it names the first field, in its
  documented order of comparison, in which they differ.
\<close>

lemma comparator_names_first_difference:
  "compare_events expected actual =
     (if expected = actual then \<lparr>cmp_equal = True, cmp_field = NoField\<rparr>
      else \<lparr>cmp_equal = False,
            cmp_field = hd (filter (\<lambda>f. field_value f expected \<noteq> field_value f actual) compared_fields)\<rparr>)"
proof -
  have hd_find: "List.find P xs = Some y \<Longrightarrow> hd (filter P xs) = y" for P :: "EventField \<Rightarrow> bool" and xs y
    by (induction xs) (auto split: if_splits)
  show ?thesis
    using compare_events_equal [of expected actual] hd_find
    unfolding compare_events_table by (auto split: option.splits)
qed

lemma verdict_unfold:
  assumes "replay_logs read_command has_commands read_event has_events"
    and "has_commands cr cmds ce" "has_events er evs ee" "engine_inv g"
  obtains res where "replay read_command read_event cr er g = Some res" "verdict None g cmds ce evs ee 0 0 res"
  using replay_logs.replay_returns [OF assms] by blast

text \<open>
  C8: Replay is deterministic and exact: on readers that deliver a command log and an event log it
  returns, and it succeeds if and only if both logs are read to their end, the command sequence
  numbers are consecutive, and the stored events are exactly the events the engine generates for
  the commands. On success the counters are the lengths of the logs. The check of the book's
  invariants is never what fails.
\<close>

theorem replay_accepts_exactly_reproducible_logs:
  assumes "replay_logs read_command has_commands read_event has_events"
    and "has_commands cr cmds ce" "has_events er evs ee" "engine_inv g"
  shows "\<exists>res. replay read_command read_event cr er g = Some res \<and>
    (res_ok res \<longleftrightarrow>
       ce = EndOfLog \<and> ee = EndOfLog \<and>
       map c_command_sequence cmds
         = consecutive (hd (map c_command_sequence cmds)) (length cmds) \<and>
       evs = fst (run_commands engine_apply g cmds)) \<and>
    (res_ok res \<longrightarrow> res_commands_replayed res = of_nat (length cmds) \<and>
       res_events_compared res = of_nat (length evs)) \<and>
    f_failure_class (res_failure res) \<noteq> InvariantViolation"
proof -
  obtain res where "replay read_command read_event cr er g = Some res"
    "verdict None g cmds ce evs ee 0 0 res"
    by (rule verdict_unfold [OF assms])
  then show ?thesis
    by (intro exI [of _ res]) (auto simp: verdict_def follows_None Let_def)
qed

definition sample_commands :: "OrderCommandRecordV1 list" where
  "sample_commands =
     [sample_command NewOrder 1 Sell 100 5, sample_command NewOrder 2 Sell 101 7,
      sample_command NewOrder 3 Buy 99 4, sample_buy]"

lemma list_logs_axioms:
  "replay_logs (list_reader c0) list_represents (list_reader e0) list_represents" ..

lemma replay_accepts_exactly_reproducible_logs_witness:
  "\<exists>res. replay (list_reader empty_command) (list_reader empty_event) sample_commands
     (fst (run_commands engine_apply (new_instrument_engine 1) sample_commands))
     (new_instrument_engine 1) = Some res \<and> res_ok res \<and> res_commands_replayed res = 4"
proof -
  have seq: "map c_command_sequence sample_commands
      = consecutive (hd (map c_command_sequence sample_commands)) (length sample_commands)"
    "length sample_commands = 4"
    by code_simp+
  show ?thesis
    using replay_accepts_exactly_reproducible_logs [OF list_logs_axioms, of sample_commands
        sample_commands EndOfLog "fst (run_commands engine_apply (new_instrument_engine 1) sample_commands)"
        "fst (run_commands engine_apply (new_instrument_engine 1) sample_commands)" EndOfLog
        "new_instrument_engine 1" empty_command empty_event] seq
    by (auto simp: list_represents_def)
qed

text \<open>
  C30: A field mismatch is reported at the first event that differs: the events before it agree with
  the run, the report carries the generated and the stored event and the first field in which
  they differ, and the number of compared events is its position.
\<close>

theorem replay_reports_first_divergence:
  assumes "replay_logs read_command has_commands read_event has_events"
    and "has_commands cr cmds ce" "has_events er evs ee" "engine_inv g"
    and "replay read_command read_event cr er g = Some res"
    and "f_failure_class (res_failure res) = EventFieldMismatch"
  shows "let gen = fst (run_commands engine_apply g cmds); f = res_failure res in
    \<exists>k. k < length gen \<and> k < length evs \<and> take k evs = take k gen \<and> gen ! k \<noteq> evs ! k \<and>
      res_events_compared res = of_nat k \<and>
      f_expected_event f = Some (gen ! k) \<and> f_actual_event f = Some (evs ! k) \<and>
      f_field f = cmp_field (compare_events (gen ! k) (evs ! k))"
proof -
  obtain res' where "replay read_command read_event cr er g = Some res'"
    and v: "verdict None g cmds ce evs ee 0 0 res'"
    by (rule verdict_unfold [OF assms(1-4)])
  then have "res' = res" using assms(5) by simp
  with v assms(6) show ?thesis
    by (auto simp: verdict_def reports_def Let_def)
qed

text \<open>A stored log whose first event was altered.\<close>

definition sample_altered_events :: "ExecutionEventRecordV1 list" where
  "sample_altered_events =
     (case fst (run_commands engine_apply (new_instrument_engine 1) sample_commands) of
        [] \<Rightarrow> []
      | e # es \<Rightarrow> e\<lparr>e_price_ticks := I64 1\<rparr> # es)"

lemma sample_altered_report:
  "map_option (\<lambda>res. f_failure_class (res_failure res))
     (replay (list_reader empty_command) (list_reader empty_event) sample_commands
        sample_altered_events (new_instrument_engine 1)) = Some EventFieldMismatch"
  by code_simp

lemma replay_reports_first_divergence_witness:
  "\<exists>k. take k sample_altered_events =
       take k (fst (run_commands engine_apply (new_instrument_engine 1) sample_commands)) \<and>
     fst (run_commands engine_apply (new_instrument_engine 1) sample_commands) ! k
       \<noteq> sample_altered_events ! k"
proof -
  obtain res where res: "replay (list_reader empty_command) (list_reader empty_event) sample_commands
      sample_altered_events (new_instrument_engine 1) = Some res"
    "f_failure_class (res_failure res) = EventFieldMismatch"
    using sample_altered_report by auto
  show ?thesis
    using replay_reports_first_divergence [OF list_logs_axioms _ _ _ res, of sample_commands EndOfLog
        sample_altered_events EndOfLog]
    by (auto simp: list_represents_def Let_def)
qed

end
