(* ===== verification/Projection.thy ===== *)
theory Projection
  imports Domain Levels Decimal
begin

text \<open>
  \<open>projections::MarketDataProjection\<close> (\<open>src/projections/\<close>): the public book and the trade list
  built from execution events. \<open>active_orders_\<close> is a hash map whose iteration order the
  standard leaves open: the order in which \<open>rebuild_book\<close> visits the entries is the argument
  \<open>iteration\<close> of the definitions, any function that permutes the entries.
\<close>

section \<open>State\<close>

record PublicBookView =
  v_instrument_id :: u32
  v_bids :: "(i64 \<times> i64) list"
  v_asks :: "(i64 \<times> i64) list"

record PublicTrade =
  t_trade_id :: u64
  t_instrument_id :: u32
  t_incoming_order_id :: u64
  t_resting_order_id :: u64
  t_aggressor_side :: u16
  t_price_ticks :: i64
  t_quantity_lots :: i64

datatype ProjectionApplyStatus = Applied | Ignored | Rejected

record ProjectionApplyResult =
  apply_status :: ProjectionApplyStatus
  apply_error :: string

record OrderState =
  o_instrument_id :: u32
  o_side :: u16
  o_price_ticks :: i64
  o_remaining_quantity_lots :: i64

type_synonym projected_orders = "(u64 \<times> OrderState) list"

record MarketDataProjection =
  p_book :: PublicBookView
  p_trades :: "PublicTrade list"
  p_last_applied_event_sequence :: u64
  p_active_orders :: projected_orders

definition new_market_data_projection :: MarketDataProjection where
  "new_market_data_projection =
     \<lparr>p_book = \<lparr>v_instrument_id = 0, v_bids = [], v_asks = []\<rparr>, p_trades = [],
      p_last_applied_event_sequence = 0, p_active_orders = []\<rparr>"

definition side_is_buy :: "u16 \<Rightarrow> bool" where
  "side_is_buy side \<longleftrightarrow> side = side_code Buy"

definition side_is_sell :: "u16 \<Rightarrow> bool" where
  "side_is_sell side \<longleftrightarrow> side = side_code Sell"

definition applied :: ProjectionApplyResult where
  "applied = \<lparr>apply_status = Applied, apply_error = []\<rparr>"

definition ignored :: ProjectionApplyResult where
  "ignored = \<lparr>apply_status = Ignored, apply_error = []\<rparr>"

definition rejected :: "string \<Rightarrow> ProjectionApplyResult" where
  "rejected error = \<lparr>apply_status = Rejected, apply_error = error\<rparr>"

section \<open>Rebuilding the public book\<close>

text \<open>
  \<open>levels[price] += quantity\<close> on a \<open>std::map\<close>; a new entry starts from zero. The sum wraps around here; in
  C++ a signed overflow is undefined. \<open>ProjectionTotals\<close> states the bound below which it does not occur.
\<close>

fun add_quantity :: "('k \<Rightarrow> 'k \<Rightarrow> bool) \<Rightarrow> 'k \<Rightarrow> i64 \<Rightarrow> ('k \<times> i64) list \<Rightarrow> ('k \<times> i64) list" where
  "add_quantity before key quantity [] = [(key, 0 + quantity)]"
| "add_quantity before key quantity ((k, q) # ls) =
     (if key = k then (k, q + quantity) # ls
      else if before key k then (key, 0 + quantity) # (k, q) # ls
      else (k, q) # add_quantity before key quantity ls)"

fun rebuild_loop ::
  "projected_orders \<Rightarrow> u32 \<Rightarrow> (i64 \<times> i64) list \<Rightarrow> (i64 \<times> i64) list \<Rightarrow>
   u32 \<times> (i64 \<times> i64) list \<times> (i64 \<times> i64) list" where
  "rebuild_loop [] instrument_id bids asks = (instrument_id, bids, asks)"
| "rebuild_loop ((active_order_id, active_order) # rest) instrument_id bids asks =
     (if side_is_buy (o_side active_order) then
        rebuild_loop rest (o_instrument_id active_order)
          (add_quantity (>) (o_price_ticks active_order) (o_remaining_quantity_lots active_order) bids)
          asks
      else if side_is_sell (o_side active_order) then
        rebuild_loop rest (o_instrument_id active_order) bids
          (add_quantity (<) (o_price_ticks active_order) (o_remaining_quantity_lots active_order) asks)
      else rebuild_loop rest (o_instrument_id active_order) bids asks)"

definition visible_levels :: "(i64 \<times> i64) list \<Rightarrow> (i64 \<times> i64) list" where
  "visible_levels levels = filter (\<lambda>(price, quantity). 0 < to_int quantity) levels"

definition rebuild_book ::
  "(projected_orders \<Rightarrow> projected_orders) \<Rightarrow> MarketDataProjection \<Rightarrow> MarketDataProjection" where
  "rebuild_book iteration p =
     (case rebuild_loop (iteration (p_active_orders p)) 0 [] [] of (instrument_id, bids, asks) \<Rightarrow>
        p\<lparr>p_book := \<lparr>v_instrument_id = instrument_id, v_bids = visible_levels bids,
                     v_asks = visible_levels asks\<rparr>\<rparr>)"

section \<open>Applying events\<close>

definition upsert_order ::
  "(projected_orders \<Rightarrow> projected_orders) \<Rightarrow> MarketDataProjection \<Rightarrow> u64 \<Rightarrow> u32 \<Rightarrow> u16 \<Rightarrow> i64 \<Rightarrow> i64 \<Rightarrow>
   ProjectionApplyResult \<times> MarketDataProjection" where
  "upsert_order iteration p order_id instrument_id side price_ticks new_remaining_quantity_lots =
     (if order_id = 0 \<or> to_int price_ticks \<le> 0 \<or> to_int new_remaining_quantity_lots \<le> 0
      then (rejected ''invalid order state for market data projection'', p)
      else
        (applied,
         rebuild_book iteration
           (p\<lparr>p_active_orders :=
                AList.update order_id
                  \<lparr>o_instrument_id = instrument_id, o_side = side, o_price_ticks = price_ticks,
                   o_remaining_quantity_lots = new_remaining_quantity_lots\<rparr>
                  (p_active_orders p)\<rparr>)))"

definition remove_order ::
  "(projected_orders \<Rightarrow> projected_orders) \<Rightarrow> MarketDataProjection \<Rightarrow> u64 \<Rightarrow>
   ProjectionApplyResult \<times> MarketDataProjection" where
  "remove_order iteration p order_id =
     (applied,
      rebuild_book iteration (p\<lparr>p_active_orders := AList.delete order_id (p_active_orders p)\<rparr>))"

definition apply_rested ::
  "(projected_orders \<Rightarrow> projected_orders) \<Rightarrow> MarketDataProjection \<Rightarrow> ExecutionEventRecordV1 \<Rightarrow>
   ProjectionApplyResult \<times> MarketDataProjection" where
  "apply_rested iteration p event =
     (if to_int (e_remaining_quantity_lots event) \<le> 0
         \<or> (\<not> side_is_buy (e_side event) \<and> \<not> side_is_sell (e_side event))
      then (rejected ''resting event does not contain visible liquidity'', p)
      else upsert_order iteration p (e_order_id event) (e_instrument_id event) (e_side event)
             (e_price_ticks event) (e_remaining_quantity_lots event))"

definition apply_trade ::
  "(projected_orders \<Rightarrow> projected_orders) \<Rightarrow> MarketDataProjection \<Rightarrow> ExecutionEventRecordV1 \<Rightarrow>
   ProjectionApplyResult \<times> MarketDataProjection" where
  "apply_trade iteration p event =
     (if to_int (e_quantity_lots event) \<le> 0 \<or> e_contra_order_id event = 0
      then (rejected ''trade event is missing quantity or resting order id'', p)
      else (case map_of (p_active_orders p) (e_contra_order_id event) of
        None \<Rightarrow> (rejected ''trade references unknown resting order'', p)
      | Some resting_order \<Rightarrow>
          if o_remaining_quantity_lots resting_order < e_quantity_lots event
          then (rejected ''trade quantity exceeds projected resting quantity'', p)
          else
            (let p1 = p\<lparr>p_trades := p_trades p @
                   [\<lparr>t_trade_id = e_trade_id event, t_instrument_id = e_instrument_id event,
                     t_incoming_order_id = e_order_id event,
                     t_resting_order_id = e_contra_order_id event,
                     t_aggressor_side = e_side event, t_price_ticks = e_price_ticks event,
                     t_quantity_lots = e_quantity_lots event\<rparr>]\<rparr>;
                 remaining = o_remaining_quantity_lots resting_order - e_quantity_lots event;
                 p2 = p1\<lparr>p_active_orders :=
                        AList.update (e_contra_order_id event)
                          (resting_order\<lparr>o_remaining_quantity_lots := remaining\<rparr>) (p_active_orders p1)\<rparr>;
                 p3 = (if to_int remaining = 0
                       then p2\<lparr>p_active_orders :=
                              AList.delete (e_contra_order_id event) (p_active_orders p2)\<rparr>
                       else p2)
             in (applied, rebuild_book iteration p3))))"

definition apply_cancelled ::
  "(projected_orders \<Rightarrow> projected_orders) \<Rightarrow> MarketDataProjection \<Rightarrow> ExecutionEventRecordV1 \<Rightarrow>
   ProjectionApplyResult \<times> MarketDataProjection" where
  "apply_cancelled iteration p event =
     (if map_of (p_active_orders p) (e_order_id event) = None
      then (rejected ''cancel references unknown resting order'', p)
      else remove_order iteration p (e_order_id event))"

definition apply_filled ::
  "(projected_orders \<Rightarrow> projected_orders) \<Rightarrow> MarketDataProjection \<Rightarrow> ExecutionEventRecordV1 \<Rightarrow>
   ProjectionApplyResult \<times> MarketDataProjection" where
  "apply_filled iteration p event =
     (if map_of (p_active_orders p) (e_order_id event) = None then (ignored, p)
      else remove_order iteration p (e_order_id event))"

text \<open>The \<open>switch\<close> over the cast event type; unknown values go to \<open>default\<close>.\<close>

definition projection_dispatch ::
  "(projected_orders \<Rightarrow> projected_orders) \<Rightarrow> MarketDataProjection \<Rightarrow> ExecutionEventRecordV1 \<Rightarrow>
   ProjectionApplyResult \<times> MarketDataProjection" where
  "projection_dispatch iteration p event =
     (case decode_event_type (e_event_type event) of
        Some OrderAccepted \<Rightarrow> (ignored, p)
      | Some OrderRejected \<Rightarrow> (ignored, p)
      | Some OrderRested \<Rightarrow> apply_rested iteration p event
      | Some OrderPartiallyFilled \<Rightarrow> apply_rested iteration p event
      | Some TradeExecuted \<Rightarrow> apply_trade iteration p event
      | Some OrderFullyFilled \<Rightarrow> apply_filled iteration p event
      | Some OrderCancelled \<Rightarrow> apply_cancelled iteration p event
      | None \<Rightarrow> (rejected ''unknown execution event type'', p))"

definition projection_apply ::
  "(projected_orders \<Rightarrow> projected_orders) \<Rightarrow> MarketDataProjection \<Rightarrow> ExecutionEventRecordV1 \<Rightarrow>
   ProjectionApplyResult \<times> MarketDataProjection" where
  "projection_apply iteration p event =
     (if e_event_sequence event \<noteq> p_last_applied_event_sequence p + 1
      then (rejected (''event sequence gap: expected '' @ show_word (p_last_applied_event_sequence p + 1)
              @ '' got '' @ show_word (e_event_sequence event)), p)
      else (case projection_dispatch iteration p event of (result, p') \<Rightarrow>
        (result,
         if apply_status result \<noteq> Rejected
         then p'\<lparr>p_last_applied_event_sequence := e_event_sequence event\<rparr>
         else p')))"

section \<open>A rejected event changes nothing\<close>

lemma rebuild_book_fields [simp]:
  "p_trades (rebuild_book iteration p) = p_trades p"
  "p_last_applied_event_sequence (rebuild_book iteration p) = p_last_applied_event_sequence p"
  "p_active_orders (rebuild_book iteration p) = p_active_orders p"
  by (simp_all add: rebuild_book_def split: prod.splits)

lemma apply_status_simps [simp]:
  "apply_status applied = Applied" "apply_status ignored = Ignored"
  "apply_status (rejected e) = Rejected"
  by (simp_all add: applied_def ignored_def rejected_def)

lemma remove_order_rejected [simp]: "apply_status (fst (remove_order iteration p k)) = Applied"
  by (simp add: remove_order_def)

lemma upsert_order_rejected:
  "apply_status (fst (upsert_order iteration p k i s pr q)) = Rejected \<Longrightarrow>
   snd (upsert_order iteration p k i s pr q) = p"
  by (auto simp: upsert_order_def split: if_splits)

lemma apply_rested_rejected:
  "apply_status (fst (apply_rested iteration p event)) = Rejected \<Longrightarrow>
   snd (apply_rested iteration p event) = p"
  using upsert_order_rejected by (auto simp: apply_rested_def)

lemma apply_trade_rejected:
  "apply_status (fst (apply_trade iteration p event)) = Rejected \<Longrightarrow>
   snd (apply_trade iteration p event) = p"
  by (cases "map_of (p_active_orders p) (e_contra_order_id event)")
    (auto simp: apply_trade_def Let_def split: if_splits)

lemma projection_dispatch_rejected:
  assumes "apply_status (fst (projection_dispatch iteration p event)) = Rejected"
  shows "snd (projection_dispatch iteration p event) = p"
proof (cases "decode_event_type (e_event_type event)")
  case None
  then show ?thesis by (simp add: projection_dispatch_def)
next
  case (Some t)
  then show ?thesis
    using assms apply_rested_rejected apply_trade_rejected
    by (cases t) (simp_all add: projection_dispatch_def apply_cancelled_def apply_filled_def
        split: if_splits)
qed

lemma projection_apply_rejected:
  "apply_status (fst (projection_apply iteration p event)) = Rejected \<Longrightarrow>
   snd (projection_apply iteration p event) = p"
  using projection_dispatch_rejected [of iteration p event]
  by (auto simp: projection_apply_def split: prod.splits if_splits)

section \<open>The public book is a function of the active orders\<close>

definition public_view :: "projected_orders \<Rightarrow> PublicBookView" where
  "public_view orders =
     (case rebuild_loop orders 0 [] [] of (instrument_id, bids, asks) \<Rightarrow>
        \<lparr>v_instrument_id = instrument_id, v_bids = visible_levels bids, v_asks = visible_levels asks\<rparr>)"

definition view_current :: "(projected_orders \<Rightarrow> projected_orders) \<Rightarrow> MarketDataProjection \<Rightarrow> bool" where
  "view_current iteration p \<longleftrightarrow>
     p_book p = public_view (iteration (p_active_orders p)) \<and> keys_distinct (p_active_orders p)"

lemma p_book_rebuild_book: "p_book (rebuild_book iteration p) = public_view (iteration (p_active_orders p))"
  by (simp add: rebuild_book_def public_view_def split: prod.splits)

lemma view_current_rebuild:
  "keys_distinct (p_active_orders p) \<Longrightarrow> view_current iteration (rebuild_book iteration p)"
  by (simp add: view_current_def p_book_rebuild_book)

lemma view_current_remove_order:
  "view_current iteration p \<Longrightarrow> view_current iteration (snd (remove_order iteration p k))"
  unfolding remove_order_def snd_conv by (rule view_current_rebuild) (simp add: view_current_def)

lemma view_current_rested:
  "view_current iteration p \<Longrightarrow> view_current iteration (snd (apply_rested iteration p event))"
  by (auto simp: apply_rested_def upsert_order_def intro!: view_current_rebuild)
    (simp_all add: view_current_def)

lemma view_current_trade:
  assumes "view_current iteration p"
  shows "view_current iteration (snd (apply_trade iteration p event))"
proof (cases "map_of (p_active_orders p) (e_contra_order_id event)")
  case None
  with assms show ?thesis by (simp add: apply_trade_def)
next
  case (Some r)
  have "keys_distinct (p_active_orders p)" using assms by (simp add: view_current_def)
  with Some assms show ?thesis
    by (auto simp: apply_trade_def Let_def intro!: view_current_rebuild)
qed

lemma view_current_dispatch:
  assumes "view_current iteration p"
  shows "view_current iteration (snd (projection_dispatch iteration p event))"
proof (cases "decode_event_type (e_event_type event)")
  case None
  with assms show ?thesis by (simp add: projection_dispatch_def)
next
  case (Some t)
  then show ?thesis
    using assms view_current_rested view_current_trade view_current_remove_order
    by (cases t) (simp_all add: projection_dispatch_def apply_cancelled_def apply_filled_def)
qed

lemma view_current_sequence [simp]:
  "view_current iteration (p\<lparr>p_last_applied_event_sequence := n\<rparr>) \<longleftrightarrow> view_current iteration p"
  by (simp add: view_current_def)

lemma view_current_apply:
  "view_current iteration p \<Longrightarrow> view_current iteration (snd (projection_apply iteration p event))"
  using view_current_dispatch [of iteration p event]
  by (auto simp: projection_apply_def split: prod.splits)

lemma view_current_new: "iteration [] = [] \<Longrightarrow> view_current iteration new_market_data_projection"
  by (simp add: view_current_def new_market_data_projection_def public_view_def visible_levels_def)

section \<open>The public book does not depend on the iteration order\<close>

text \<open>Price and quantity of the entries of one side, in the order of the visit.\<close>

definition side_entries :: "Side \<Rightarrow> projected_orders \<Rightarrow> (i64 \<times> i64) list" where
  "side_entries s orders =
     map (\<lambda>o'. (o_price_ticks o', o_remaining_quantity_lots o'))
       (filter (\<lambda>o'. o_side o' = side_code s) (map snd orders))"

fun add_quantities :: "('k \<Rightarrow> 'k \<Rightarrow> bool) \<Rightarrow> ('k \<times> i64) list \<Rightarrow> ('k \<times> i64) list \<Rightarrow> ('k \<times> i64) list" where
  "add_quantities before [] ls = ls"
| "add_quantities before ((k, q) # xs) ls = add_quantities before xs (add_quantity before k q ls)"

lemma side_entries_simps [simp]:
  "side_entries s [] = []"
  "side_entries s ((k, o') # os) =
     (if o_side o' = side_code s then (o_price_ticks o', o_remaining_quantity_lots o') # side_entries s os
      else side_entries s os)"
  by (simp_all add: side_entries_def)

lemma rebuild_loop_entries:
  "rebuild_loop orders i bids asks =
     (if orders = [] then i else o_instrument_id (snd (last orders)),
      add_quantities (>) (side_entries Buy orders) bids,
      add_quantities (<) (side_entries Sell orders) asks)"
  by (induction orders i bids asks rule: rebuild_loop.induct)
    (auto simp: side_is_buy_def side_is_sell_def)

text \<open>The quantity at one price, as a sum over a multiset of entries.\<close>

definition quantity_at :: "'k \<Rightarrow> ('k \<times> i64) list \<Rightarrow> i64" where
  "quantity_at k xs = sum_list (map snd (filter (\<lambda>x. fst x = k) xs))"

lemma quantity_at_perm: "mset xs = mset ys \<Longrightarrow> quantity_at k xs = quantity_at k ys"
proof -
  assume "mset xs = mset ys"
  then have "mset (map snd (filter (\<lambda>x. fst x = k) xs)) = mset (map snd (filter (\<lambda>x. fst x = k) ys))"
    by simp
  then show "quantity_at k xs = quantity_at k ys"
    unfolding quantity_at_def by (simp only: sum_mset_sum_list [symmetric])
qed

lemma quantity_at_simps [simp]:
  "quantity_at k [] = 0"
  "quantity_at k ((k', q) # xs) = (if k' = k then q + quantity_at k xs else quantity_at k xs)"
  by (simp_all add: quantity_at_def)

context price_order
begin

lemma keys_add_quantity: "fst ` set (add_quantity before k q ls) = insert k (fst ` set ls)"
  by (induction before k q ls rule: add_quantity.induct) auto

lemma sorted_add_quantity:
  "sorted_wrt before (map fst ls) \<Longrightarrow> sorted_wrt before (map fst (add_quantity before k q ls))"
proof (induction ls)
  case (Cons l ls)
  obtain k' q' where l: "l = (k', q')" by (cases l)
  consider "k = k'" | "k \<noteq> k'" "before k k'" | "k \<noteq> k'" "\<not> before k k'" by blast
  then show ?case
  proof cases
    case 3
    then have "before k' k" using before_total by blast
    with 3 Cons l show ?thesis using keys_add_quantity [of k q ls] by auto
  qed (use Cons.prems l in \<open>auto intro: before_trans\<close>)
qed simp

lemma map_of_add_quantity:
  assumes "sorted_wrt before (map fst ls)"
  shows "map_of (add_quantity before k q ls) =
    (map_of ls)(k \<mapsto> (case map_of ls k of None \<Rightarrow> q | Some q' \<Rightarrow> q' + q))"
  using assms
proof (induction ls)
  case Nil
  then show ?case by simp
next
  case (Cons l ls)
  obtain k' q' where l: "l = (k', q')" by (cases l)
  consider "k = k'" | "k \<noteq> k'" "before k k'" | "k \<noteq> k'" "\<not> before k k'" by blast
  then show ?case
  proof cases
    case 1
    then show ?thesis by (simp add: l fun_eq_iff)
  next
    case 2
    then have "k \<notin> fst ` set ls" using Cons.prems l before_asym by auto
    then have "map_of ls k = None" by (simp add: map_of_eq_None_iff)
    with 2 show ?thesis by (simp add: l fun_eq_iff)
  next
    case 3
    have "map_of (add_quantity before k q ls) =
      (map_of ls)(k \<mapsto> (case map_of ls k of None \<Rightarrow> q | Some q' \<Rightarrow> q' + q))"
      using Cons by (simp add: fun_eq_iff)
    with 3 show ?thesis by (simp add: l fun_eq_iff)
  qed
qed

lemma sorted_add_quantities:
  "sorted_wrt before (map fst ls) \<Longrightarrow> sorted_wrt before (map fst (add_quantities before xs ls))"
proof (induction xs arbitrary: ls)
  case (Cons x xs)
  then show ?case by (cases x) (simp add: sorted_add_quantity)
qed simp

lemma map_of_add_quantities:
  assumes "sorted_wrt before (map fst ls)"
  shows "map_of (add_quantities before xs ls) k =
    (if k \<in> fst ` set xs \<or> map_of ls k \<noteq> None
     then Some ((case map_of ls k of None \<Rightarrow> 0 | Some q \<Rightarrow> q) + quantity_at k xs) else None)"
  using assms
proof (induction xs arbitrary: ls)
  case (Cons x xs)
  obtain k' q where x: "x = (k', q)" by (cases x)
  show ?case
    using Cons.IH [OF sorted_add_quantity [OF Cons.prems, of k' q]]
    by (auto simp: x map_of_add_quantity [OF Cons.prems] add.assoc split: option.splits)
qed (auto split: option.splits)

text \<open>A sorted list of levels is determined by its lookup function.\<close>

lemma sorted_levels_unique:
  assumes "sorted_wrt before (map fst xs)" "sorted_wrt before (map fst ys)" "map_of xs = map_of ys"
  shows "xs = ys"
  using assms
proof (induction xs arbitrary: ys)
  case Nil
  then show ?case by (cases ys) (auto simp: fun_eq_iff split: if_splits)
next
  case (Cons x xs)
  obtain k v where x: "x = (k, v)" by (cases x)
  have "map_of ys k = Some v" using Cons.prems(3) x by (metis map_of_Cons_code(2))
  then obtain k' v' ys' where ys: "ys = (k', v') # ys'" by (cases ys) auto
  have dom: "fst ` set (x # xs) = fst ` set ys"
    using Cons.prems(3) by (metis dom_map_of_conv_image_fst)
  have kk: "k = k'"
  proof (rule ccontr)
    assume "k \<noteq> k'"
    then have "k' \<in> fst ` set xs" "k \<in> fst ` set ys'"
      using dom unfolding x ys by auto
    then have "before k k'" "before k' k"
      using Cons.prems(1,2) unfolding x ys by auto
    then show False using before_asym by blast
  qed
  have v: "v = v'" using fun_cong [OF Cons.prems(3), of k] by (simp add: x ys kk)
  have "k \<notin> fst ` set xs" "k \<notin> fst ` set ys'"
    using Cons.prems(1,2) before_irrefl kk unfolding x ys by auto
  then have none: "map_of xs k = None" "map_of ys' k = None"
    by (simp_all add: map_of_eq_None_iff)
  have "map_of xs j = map_of ys' j" for j
    using fun_cong [OF Cons.prems(3), of j] none by (cases "j = k") (simp_all add: x ys kk)
  then have "map_of xs = map_of ys'" by blast
  then show ?case
    using Cons.IH [of ys'] Cons.prems(1,2) by (simp add: x ys kk v)
qed

lemma add_quantities_perm:
  assumes "mset xs = mset ys"
  shows "add_quantities before xs [] = add_quantities before ys []"
proof (rule sorted_levels_unique)
  show "map_of (add_quantities before xs []) = map_of (add_quantities before ys [])"
    using quantity_at_perm [OF assms] mset_eq_setD [OF assms]
    by (simp add: fun_eq_iff map_of_add_quantities)
qed (simp_all add: sorted_add_quantities)

end

lemma side_entries_perm: "mset xs = mset ys \<Longrightarrow> mset (side_entries s xs) = mset (side_entries s ys)"
  by (simp add: side_entries_def)

lemma public_view_entries:
  "v_bids (public_view orders) = visible_levels (add_quantities (>) (side_entries Buy orders) [])"
  "v_asks (public_view orders) = visible_levels (add_quantities (<) (side_entries Sell orders) [])"
  "v_instrument_id (public_view orders) = (if orders = [] then 0 else o_instrument_id (snd (last orders)))"
  by (simp_all add: public_view_def rebuild_loop_entries)

lemma public_view_perm:
  assumes "mset xs = mset ys"
  shows "v_bids (public_view xs) = v_bids (public_view ys)"
    and "v_asks (public_view xs) = v_asks (public_view ys)"
  using asks_order.add_quantities_perm [OF side_entries_perm [OF assms]]
    bids_order.add_quantities_perm [OF side_entries_perm [OF assms]]
  by (simp_all add: public_view_entries)

end
