(* ===== verification/ProjectionRefinement.thy ===== *)
theory ProjectionRefinement
  imports Projection BookProperties
begin

text \<open>
  The projection as a client of the engine: fed with the engine's events it never rejects one, its
  active orders are those of the book, its trades are the trade events, and its public book is the
  book's levels with their quantities added up. The condition is that no order has id 0, which
  the projection refuses and the engine accepts.
\<close>

section \<open>Feeding events\<close>

fun project_events ::
  "(projected_orders \<Rightarrow> projected_orders) \<Rightarrow> MarketDataProjection \<Rightarrow> ExecutionEventRecordV1 list \<Rightarrow>
   ProjectionApplyResult list \<times> MarketDataProjection" where
  "project_events iteration p [] = ([], p)"
| "project_events iteration p (e # es) =
     (let (r, p') = projection_apply iteration p e; (rs, p'') = project_events iteration p' es
      in (r # rs, p''))"

definition order_state :: "RestingOrder \<Rightarrow> OrderState" where
  "order_state r =
     \<lparr>o_instrument_id = r_instrument_id r, o_side = r_side r, o_price_ticks = r_price_ticks r,
      o_remaining_quantity_lots = r_remaining_quantity_lots r\<rparr>"

definition public_trade :: "ExecutionEventRecordV1 \<Rightarrow> PublicTrade" where
  "public_trade e =
     \<lparr>t_trade_id = e_trade_id e, t_instrument_id = e_instrument_id e,
      t_incoming_order_id = e_order_id e, t_resting_order_id = e_contra_order_id e,
      t_aggressor_side = e_side e, t_price_ticks = e_price_ticks e,
      t_quantity_lots = e_quantity_lots e\<rparr>"

text \<open>The projection stands at an order index and at the next event sequence number.\<close>

definition stands_at ::
  "(projected_orders \<Rightarrow> projected_orders) \<Rightarrow> MarketDataProjection \<Rightarrow> (u64 \<times> RestingOrder) list \<Rightarrow> u64 \<Rightarrow> bool" where
  "stands_at iteration p al n \<longleftrightarrow>
     view_current iteration p \<and> p_last_applied_event_sequence p + 1 = n \<and>
     (\<forall>k. map_of (p_active_orders p) k = map_option order_state (map_of al k))"

definition carries ::
  "(projected_orders \<Rightarrow> projected_orders) \<Rightarrow> (u64 \<times> RestingOrder) list \<Rightarrow> u64 \<Rightarrow>
   ExecutionEventRecordV1 list \<Rightarrow> (u64 \<times> RestingOrder) list \<Rightarrow> u64 \<Rightarrow> bool" where
  "carries iteration al n es al' n' \<longleftrightarrow>
     (\<forall>p. stands_at iteration p al n \<longrightarrow>
        (case project_events iteration p es of (rs, p') \<Rightarrow>
           list_all (\<lambda>r. apply_status r \<noteq> Rejected) rs \<and> stands_at iteration p' al' n' \<and>
           p_trades p' = p_trades p @ map public_trade (trades_of es)))"

lemma project_events_append:
  "project_events iteration p (es @ es') =
     (let (rs, p') = project_events iteration p es; (rs', p'') = project_events iteration p' es'
      in (rs @ rs', p''))"
  by (induction iteration p es rule: project_events.induct) (auto split: prod.splits)

lemma carries_append:
  assumes "carries it al n es al1 n1" "carries it al1 n1 es' al' n'"
  shows "carries it al n (es @ es') al' n'"
  unfolding carries_def
proof (intro allI impI)
  fix p assume p: "stands_at it p al n"
  obtain rs p1 where e1: "project_events it p es = (rs, p1)" by (cases "project_events it p es")
  obtain rs' p2 where e2: "project_events it p1 es' = (rs', p2)" by (cases "project_events it p1 es'")
  have 1: "list_all (\<lambda>r. apply_status r \<noteq> Rejected) rs \<and> stands_at it p1 al1 n1 \<and>
      p_trades p1 = p_trades p @ map public_trade (trades_of es)"
    using assms(1) p e1 unfolding carries_def by fastforce
  then have "list_all (\<lambda>r. apply_status r \<noteq> Rejected) rs' \<and> stands_at it p2 al' n' \<and>
      p_trades p2 = p_trades p1 @ map public_trade (trades_of es')"
    using assms(2) e2 unfolding carries_def by fastforce
  with 1 show "case project_events it p (es @ es') of (rs, p') \<Rightarrow>
      list_all (\<lambda>r. apply_status r \<noteq> Rejected) rs \<and> stands_at it p' al' n' \<and>
      p_trades p' = p_trades p @ map public_trade (trades_of (es @ es'))"
    by (simp add: project_events_append e1 e2)
qed

lemma carries_Nil: "(\<And>k. map_of al' k = map_of al k) \<Longrightarrow> carries it al n [] al' n"
  by (simp add: carries_def stands_at_def)

lemma carries_cong:
  "carries it al n es al1 n' \<Longrightarrow> (\<And>k. map_of al' k = map_of al1 k) \<Longrightarrow> carries it al n es al' n'"
  unfolding carries_def stands_at_def by simp

lemma carries_single:
  assumes "e_event_sequence e = n"
    and "\<And>p. stands_at it p al n \<Longrightarrow>
      (case projection_dispatch it p e of (r, p') \<Rightarrow>
         apply_status r \<noteq> Rejected \<and>
         (\<forall>k. map_of (p_active_orders p') k = map_option order_state (map_of al' k)) \<and>
         p_trades p' = p_trades p @ map public_trade (trades_of [e]))"
  shows "carries it al n [e] al' (n + 1)"
  unfolding carries_def
proof (intro allI impI)
  fix p assume p: "stands_at it p al n"
  obtain r p' where d: "projection_dispatch it p e = (r, p')"
    by (cases "projection_dispatch it p e")
  have "p_last_applied_event_sequence p + 1 = n" using p by (simp add: stands_at_def)
  then have ap: "projection_apply it p e =
      (r, if apply_status r \<noteq> Rejected then p'\<lparr>p_last_applied_event_sequence := n\<rparr> else p')"
    using d assms(1) by (simp add: projection_apply_def)
  have "view_current it p'"
    using view_current_dispatch [of it p e] p d by (simp add: stands_at_def)
  then show "case project_events it p [e] of (rs, p') \<Rightarrow>
      list_all (\<lambda>r. apply_status r \<noteq> Rejected) rs \<and> stands_at it p' al' (n + 1) \<and>
      p_trades p' = p_trades p @ map public_trade (trades_of [e])"
    using assms(2) [OF p] d by (simp add: ap stands_at_def del: trades_of_simps)
qed

section \<open>One event of each kind\<close>

lemma decode_event_typeI: "e_event_type e = event_type_code t \<Longrightarrow> decode_event_type (e_event_type e) = Some t"
  by simp

lemma is_trade_iff_type: "e_event_type e = event_type_code t \<Longrightarrow> is_trade e \<longleftrightarrow> t = TradeExecuted"
  unfolding is_trade_def by (simp del: event_type_code.simps)

lemma carries_ignored:
  assumes "e_event_sequence e = n"
    and "e_event_type e = event_type_code OrderAccepted \<or> e_event_type e = event_type_code OrderRejected"
  shows "carries it al n [e] al (n + 1)"
  using assms(2) decode_event_typeI [of e] is_trade_iff_type [of e]
  by (intro carries_single [OF assms(1)])
    (auto simp: projection_dispatch_def stands_at_def simp del: event_type_code.simps)

lemma carries_filled:
  assumes "e_event_sequence e = n" "e_event_type e = event_type_code OrderFullyFilled"
    and "map_of al (e_order_id e) = None"
  shows "carries it al n [e] al (n + 1)"
  using assms(3) decode_event_typeI [OF assms(2)] is_trade_iff_type [OF assms(2)]
  by (intro carries_single [OF assms(1)])
    (simp add: projection_dispatch_def apply_filled_def stands_at_def)

lemma carries_cancelled:
  assumes "e_event_sequence e = n" "e_event_type e = event_type_code OrderCancelled"
    and "map_of al (e_order_id e) = Some r"
  shows "carries it al n [e] (AList.delete (e_order_id e) al) (n + 1)"
  using assms(3) decode_event_typeI [OF assms(2)] is_trade_iff_type [OF assms(2)]
  by (intro carries_single [OF assms(1)])
    (simp add: projection_dispatch_def apply_cancelled_def remove_order_def stands_at_def)

lemma carries_rested:
  assumes "e_event_sequence e = n"
    and "e_event_type e = event_type_code OrderRested \<or> e_event_type e = event_type_code OrderPartiallyFilled"
    and "e_order_id e \<noteq> 0" "0 < to_int (e_price_ticks e)" "0 < to_int (e_remaining_quantity_lots e)"
    and "e_side e = side_code s" "r_order_id r = e_order_id e"
    and "order_state r = \<lparr>o_instrument_id = e_instrument_id e, o_side = e_side e,
      o_price_ticks = e_price_ticks e, o_remaining_quantity_lots = e_remaining_quantity_lots e\<rparr>"
  shows "carries it al n [e] (AList.update (e_order_id e) r al) (n + 1)"
proof (rule carries_single [OF assms(1)])
  fix p assume p: "stands_at it p al n"
  have "side_is_buy (e_side e) \<or> side_is_sell (e_side e)"
    using assms(6) by (cases s) (simp_all add: side_is_buy_def side_is_sell_def)
  then have "projection_dispatch it p e =
      (applied, rebuild_book it (p\<lparr>p_active_orders :=
         AList.update (e_order_id e) (order_state r) (p_active_orders p)\<rparr>))"
    using assms(2-5) decode_event_typeI [of e]
    by (auto simp: projection_dispatch_def apply_rested_def upsert_order_def assms(8)
        simp del: event_type_code.simps)
  moreover have "\<not> is_trade e"
    using assms(2) is_trade_iff_type [of e] by (auto simp del: event_type_code.simps)
  ultimately show "case projection_dispatch it p e of (r', p') \<Rightarrow>
      apply_status r' \<noteq> Rejected \<and>
      (\<forall>k. map_of (p_active_orders p') k = map_option order_state (map_of (AList.update (e_order_id e) r al) k)) \<and>
      p_trades p' = p_trades p @ map public_trade (trades_of [e])"
    using p by (simp add: stands_at_def)
qed

text \<open>A trade with an indexed order takes its quantity off.\<close>

definition traded_index :: "(u64 \<times> RestingOrder) list \<Rightarrow> RestingOrder \<Rightarrow> i64 \<Rightarrow> (u64 \<times> RestingOrder) list" where
  "traded_index al r qty =
     (if qty = r_remaining_quantity_lots r then AList.delete (r_order_id r) al
      else AList.update (r_order_id r)
             (r\<lparr>r_remaining_quantity_lots := r_remaining_quantity_lots r - qty\<rparr>) al)"

lemma carries_trade:
  assumes "e_event_sequence e = n" "e_event_type e = event_type_code TradeExecuted"
    and "map_of al (r_order_id r) = Some r" "e_contra_order_id e = r_order_id r" "r_order_id r \<noteq> 0"
    and "0 < to_int (e_quantity_lots e)" "e_quantity_lots e \<le> r_remaining_quantity_lots r"
  shows "carries it al n [e] (traded_index al r (e_quantity_lots e)) (n + 1)"
proof (rule carries_single [OF assms(1)])
  fix p assume p: "stands_at it p al n"
  then have r: "map_of (p_active_orders p) (e_contra_order_id e) = Some (order_state r)"
    using assms(3,4) by (simp add: stands_at_def)
  have zero: "r_remaining_quantity_lots r - e_quantity_lots e = 0 \<longleftrightarrow>
      e_quantity_lots e = r_remaining_quantity_lots r"
    by auto
  have "projection_dispatch it p e = apply_trade it p e"
    using decode_event_typeI [OF assms(2)] by (simp add: projection_dispatch_def)
  then show "case projection_dispatch it p e of (r', p') \<Rightarrow>
      apply_status r' \<noteq> Rejected \<and>
      (\<forall>k. map_of (p_active_orders p') k =
         map_option order_state (map_of (traded_index al r (e_quantity_lots e)) k)) \<and>
      p_trades p' = p_trades p @ map public_trade (trades_of [e])"
    using p r assms is_trade_iff_type [OF assms(2)] zero
    by (auto simp: apply_trade_def Let_def stands_at_def traded_index_def public_trade_def
        order_state_def not_less)
qed

section \<open>The events of a command\<close>

lemma trade_event_simps [simp]:
  "e_event_type (trade_event b c k p q i) = event_type_code TradeExecuted"
  "e_contra_order_id (trade_event b c k p q i) = k"
  "e_quantity_lots (trade_event b c k p q i) = q"
  by (simp_all add: trade_event_def)

lemma carries_sweep:
  assumes "sweep nc incoming queue = (trades, incoming', queue')" "indexed al (queue @ os)"
    and "positive queue" "0 \<le> to_int incoming" "\<forall>r \<in> set queue. r_order_id r \<noteq> 0"
  shows "carries it al (b_next_event_sequence b) (trade_events b c i trades)
    (index_trades al trades) (b_next_event_sequence b + of_nat (length trades))"
  using assms
proof (induction queue arbitrary: incoming trades al b i)
  case Nil
  then show ?case by (auto intro: carries_Nil)
next
  case (Cons r rs)
  let ?q = "r_remaining_quantity_lots r"
  have r: "map_of al (r_order_id r) = Some r" "r_order_id r \<noteq> 0"
    using Cons.prems by (simp_all add: indexed_lookup)
  have one: "carries it al (b_next_event_sequence b) [trade_event b c (r_order_id r) (r_price_ticks r) x j]
      (traded_index al r x) (b_next_event_sequence b + 1)" if "0 < to_int x" "x \<le> ?q" for x j
    using carries_trade [of "trade_event b c (r_order_id r) (r_price_ticks r) x j"
        "b_next_event_sequence b" al r it] r that by simp
  consider "\<not> 0 < to_int incoming \<or> nc (r_price_ticks r)"
    | "0 < to_int incoming" "\<not> nc (r_price_ticks r)" "?q \<le> incoming"
    | "0 < to_int incoming" "\<not> nc (r_price_ticks r)" "incoming < ?q"
    by fastforce
  then show ?case
  proof cases
    case 1
    with Cons.prems show ?thesis by (auto intro: carries_Nil)
  next
    case 2
    then obtain ts where ts: "sweep nc (incoming - ?q) rs = (ts, incoming', queue')"
      and trades: "trades = (r, ?q) # ts"
      using Cons.prems(1) by (auto split: prod.splits)
    have "0 \<le> to_int (incoming - ?q)"
      using 2 Cons.prems(3) to_int_minus_part [of ?q incoming] by (simp add: i64_simps)
    moreover have "indexed (AList.delete (r_order_id r) al) (rs @ os)"
      using Cons.prems(2) by (simp add: indexed_delete)
    ultimately have "carries it (AList.delete (r_order_id r) al) (b_next_event_sequence (advance b 1 1))
        (trade_events (advance b 1 1) c (i - ?q) ts) (index_trades (AList.delete (r_order_id r) al) ts)
        (b_next_event_sequence (advance b 1 1) + of_nat (length ts))"
      using Cons.IH [OF ts, of "AList.delete (r_order_id r) al" "advance b 1 1" "i - ?q"] Cons.prems
      by simp
    with one [of ?q "i - ?q"] Cons.prems(3) show ?thesis
      using carries_append by (fastforce simp: trades traded_index_def add.assoc)
  next
    case 3
    with Cons.prems(1) have "trades = [(r, incoming)]" by (auto split: if_splits)
    with one [of incoming "i - incoming"] 3 show ?thesis
      by (auto simp: traded_index_def)
  qed
qed

definition ids_nonzero :: "OrderBook \<Rightarrow> bool" where
  "ids_nonzero b \<longleftrightarrow> (\<forall>r \<in> set (book_orders b). r_order_id r \<noteq> 0)"

text \<open>The last event of an accepted order: it is filled, or what is left of it rests.\<close>

lemma carries_final_event:
  assumes s: "c_side c = side_code s" "c_order_id c \<noteq> 0" "0 < to_int (c_price_ticks c)" "0 \<le> to_int left"
    and n: "b_next_event_sequence b = n"
    and fresh: "left = 0 \<Longrightarrow> map_of al (c_order_id c) = None"
  shows "carries it al n [final_event b c left]
    (if left = 0 then al else AList.update (c_order_id c) (resting_order_of c left) al) (n + 1)"
proof (cases "left = 0")
  case True
  then show ?thesis
    using carries_filled [of "final_event b c left" n al it] fresh n by (simp add: final_event_def)
next
  case False
  then have "0 < to_int left" using s(4) by (metis order_le_less to_int_eq_0)
  then show ?thesis
    using carries_rested [of "final_event b c left" n s "resting_order_of c left" it al] s False n
    by (simp add: final_event_def order_state_def)
qed

lemma carries_apply_new_order:
  assumes inv: "book_inv b" and nz: "ids_nonzero b" "c_order_id c \<noteq> 0"
  shows "carries it (b_active_orders b) (b_next_event_sequence b) (fst (apply_new_order b c))
    (b_active_orders (snd (apply_new_order b c))) (b_next_event_sequence (snd (apply_new_order b c)))"
proof (cases "validate_new_order b c = NoRejection")
  case False
  have "carries it (b_active_orders b) (b_next_event_sequence b) [rejection_event b c (validate_new_order b c)]
      (b_active_orders b) (b_next_event_sequence b + 1)"
    by (rule carries_ignored) (simp_all add: rejection_event_eq)
  with False show ?thesis by (simp add: apply_new_order_rejected)
next
  case True
  then obtain s where s: "c_side c = side_code s" and v: "0 < to_int (c_price_ticks c)"
    "0 < to_int (c_quantity_lots c)" "map_of (b_active_orders b) (c_order_id c) = None"
    by (rule validate_new_orderD)
  have "priced (b_bids b)" "priced (b_asks b)"
    using inv unfolding book_inv_def side_ok_def by blast+
  then obtain trades left levels where sw:
    "sweep (no_cross s (c_price_ticks c)) (c_quantity_lots c) (flat (side_levels (other_side s) b))
       = (trades, left, flat levels)"
    and out: "apply_new_order b c = new_order_outcome s b c trades left levels"
    using True s by (rule apply_new_order_accepted)
  let ?m = "matched s b c trades levels" and ?q = "c_quantity_lots c"
  let ?al = "index_trades (b_active_orders b) trades"
  let ?n = "b_next_event_sequence b"
  have pos: "positive (flat (side_levels (other_side s) b))"
    using book_invD(1) [OF inv] by (simp add: side_ok_def)
  have "carries it (b_active_orders b) ?n [order_event b c OrderAccepted ?q ?q] (b_active_orders b) (?n + 1)"
    by (rule carries_ignored) simp_all
  moreover have "carries it (b_active_orders b) (?n + 1) (trade_events (advance b 1 0) c ?q trades)
      ?al (?n + 1 + of_nat (length trades))"
    using carries_sweep [OF sw, of "b_active_orders b" "flat (side_levels s b)" it "advance b 1 0" c ?q]
      inv [unfolded book_inv_side [of _ s]] pos nz(1) v(2)
    by (simp add: ids_nonzero_def set_book_orders_side [of _ s])
  moreover have "carries it ?al (?n + 1 + of_nat (length trades)) [final_event ?m c left]
      (if left = 0 then ?al else AList.update (c_order_id c) (resting_order_of c left) ?al)
      (?n + 1 + of_nat (length trades) + 1)"
  proof (rule carries_final_event [OF s nz(2) v(1)])
    show "0 \<le> to_int left" using sweep_quantities(1) [OF sw pos] v(2) by simp
    show "b_next_event_sequence ?m = ?n + 1 + of_nat (length trades)" by (simp add: matched_def add.assoc)
    have "c_order_id c \<notin> r_order_id ` set (book_orders b)"
      using indexed_lookup_None [OF book_invD(2) [OF inv]] v(3) by simp
    moreover have "fst ` set trades \<subseteq> set (book_orders b)"
      using sweep_crosses [OF sw] by (fastforce simp: set_book_orders_side [of _ s])
    ultimately show "map_of ?al (c_order_id c) = None"
      using v(3) by (auto intro!: sweep_index_None)
  qed
  ultimately have "carries it (b_active_orders b) ?n (fst (apply_new_order b c))
      (if left = 0 then ?al else AList.update (c_order_id c) (resting_order_of c left) ?al)
      (?n + 1 + of_nat (length trades) + 1)"
    unfolding out new_order_outcome_def Let_def fst_conv by (blast intro: carries_append)
  moreover have "b_active_orders (snd (apply_new_order b c)) =
      (if left = 0 then ?al else AList.update (c_order_id c) (resting_order_of c left) ?al)"
    "b_next_event_sequence (snd (apply_new_order b c)) = ?n + 1 + of_nat (length trades) + 1"
    by (auto simp: out new_order_outcome_def Let_def matched_def rest_order_side [OF s])
  ultimately show ?thesis by simp
qed

lemma remove_cancelled_order_active [simp]:
  "b_active_orders (remove_cancelled_order b r) = AList.delete (r_order_id r) (b_active_orders b)"
  by (simp add: remove_cancelled_order_def Let_def)

lemma carries_cancel_event:
  assumes "book_inv b" "find_order b (c_order_id c) = Some r"
  shows "carries it (b_active_orders b) (b_next_event_sequence b)
    [cancel_event (remove_cancelled_order b r) c r]
    (b_active_orders (remove_cancelled_order b r)) (b_next_event_sequence b + 1)"
proof -
  have "r_order_id r = c_order_id c" using find_order_iff assms by blast
  then show ?thesis
    using carries_cancelled [of "cancel_event (remove_cancelled_order b r) c r" "b_next_event_sequence b"
        "b_active_orders b" r it] assms(2)
    by (simp add: cancel_event_eq find_order_def)
qed

lemma carries_rejection:
  "carries it al (b_next_event_sequence b) [rejection_event b c reason] al (b_next_event_sequence b + 1)"
  by (rule carries_ignored) (simp_all add: rejection_event_eq)

lemma ids_nonzero_remove:
  assumes "book_inv b" "find_order b k = Some r" "ids_nonzero b"
  shows "ids_nonzero (remove_cancelled_order b r)"
  using book_orders_remove_cancelled_order [OF assms(1) find_order_id [OF assms(1,2)]] assms(3)
  by (simp add: ids_nonzero_def)

lemma ids_nonzero_advance [simp]: "ids_nonzero (advance b n m) \<longleftrightarrow> ids_nonzero b"
  by (simp add: ids_nonzero_def book_orders_def)

lemma ids_nonzero_new_order:
  assumes inv: "book_inv b" and "ids_nonzero b" "c_order_id c \<noteq> 0"
  shows "ids_nonzero (snd (apply_new_order b c))"
proof (cases "validate_new_order b c = NoRejection")
  case True
  then obtain s where s: "c_side c = side_code s" by (rule validate_new_orderD)
  obtain trades left opposite where
    sw: "sweep (no_cross s (c_price_ticks c)) (c_quantity_lots c) (queues b (other_side s))
       = (trades, left, opposite)"
    and q: "queues (snd (apply_new_order b c)) (other_side s) = opposite"
    "queues (snd (apply_new_order b c)) s =
       (if left = 0 then queues b s else enqueue s (resting_order_of c left) (queues b s))"
    by (rule accepted_spec [OF inv True s])
  have nz: "\<forall>r \<in> set (queues b t). r_order_id r \<noteq> 0" for t
    using assms(2) set_queues [of b t] by (simp add: ids_nonzero_def)
  have "\<forall>r \<in> set opposite. r_order_id r \<noteq> 0"
    by (rule sweep_preserves [OF sw]) (use nz in auto)
  then show ?thesis
    using nz [of s] q assms(3) set_queues [of "snd (apply_new_order b c)" s]
    by (auto simp: ids_nonzero_def set_enqueue)
qed (use assms in \<open>simp add: apply_new_order_rejected\<close>)

text \<open>The command does not introduce order id 0.\<close>

definition nonzero_id :: "OrderCommandRecordV1 \<Rightarrow> bool" where
  "nonzero_id c \<longleftrightarrow> c_command_type c = command_type_code NewOrder \<longrightarrow> c_order_id c \<noteq> 0"

lemma carries_apply_replace_order:
  assumes inv: "book_inv b" and nz: "ids_nonzero b"
  shows "carries it (b_active_orders b) (b_next_event_sequence b) (fst (apply_replace_order b c))
      (b_active_orders (snd (apply_replace_order b c)))
      (b_next_event_sequence (snd (apply_replace_order b c)))"
    and "ids_nonzero (snd (apply_replace_order b c))"
proof -
  have "carries it (b_active_orders b) (b_next_event_sequence b) (fst (apply_replace_order b c))
      (b_active_orders (snd (apply_replace_order b c)))
      (b_next_event_sequence (snd (apply_replace_order b c)))
    \<and> ids_nonzero (snd (apply_replace_order b c))"
  proof (cases rule: apply_replace_order_cases [of b c])
    case reject
    then show ?thesis using carries_rejection nz by simp
  next
    case (replace r)
    let ?b1 = "advance (remove_cancelled_order b r) 1 0"
    have inv1: "book_inv ?b1" using book_inv_remove_found [OF inv replace(2)] by simp
    have nz1: "ids_nonzero ?b1" using ids_nonzero_remove [OF inv replace(2) nz] by simp
    have id: "c_order_id (replacement_command c) \<noteq> 0"
      using replace(1,2) by (auto simp: replacement_command_def validate_replace_order_def split: if_splits)
    have "carries it (b_active_orders b) (b_next_event_sequence b)
        [cancel_event (remove_cancelled_order b r) c r] (b_active_orders ?b1) (b_next_event_sequence ?b1)"
      using carries_cancel_event [OF inv replace(2)] by simp
    from carries_append [OF this carries_apply_new_order [OF inv1 nz1 id]]
    show ?thesis
      using ids_nonzero_new_order [OF inv1 nz1 id] by (simp add: replace(3) Let_def split_beta)
  qed
  then show "carries it (b_active_orders b) (b_next_event_sequence b) (fst (apply_replace_order b c))
      (b_active_orders (snd (apply_replace_order b c)))
      (b_next_event_sequence (snd (apply_replace_order b c)))"
    and "ids_nonzero (snd (apply_replace_order b c))" by auto
qed

lemma carries_engine_apply:
  assumes inv: "engine_inv g" and nz: "ids_nonzero (engine_order_book g)" "nonzero_id c"
  shows "carries it (b_active_orders (engine_order_book g)) (engine_next_sequence g)
      (fst (engine_apply g c)) (b_active_orders (engine_order_book (snd (engine_apply g c))))
      (engine_next_sequence (snd (engine_apply g c)))"
    and "ids_nonzero (engine_order_book (snd (engine_apply g c)))"
proof -
  let ?b = "engine_order_book g"
  have binv: "book_inv ?b" using inv by (simp add: engine_inv_def)
  have "carries it (b_active_orders (engine_order_book g)) (engine_next_sequence g)
      (fst (engine_apply g c)) (b_active_orders (engine_order_book (snd (engine_apply g c))))
      (engine_next_sequence (snd (engine_apply g c)))
    \<and> ids_nonzero (engine_order_book (snd (engine_apply g c)))"
  proof (cases rule: engine_apply_cases [of c g])
    case unsupported
    then show ?thesis
      using carries_rejection nz(1) by (simp add: engine_next_sequence_def reject_unsupported_command_eq)
  next
    case new
    then have "c_order_id c \<noteq> 0" using nz(2) by (simp add: nonzero_id_def decode_command_type_iff)
    with new show ?thesis
      using carries_apply_new_order [OF binv nz(1)] ids_nonzero_new_order [OF binv nz(1)]
      by (simp add: engine_next_sequence_def)
  next
    case cancel
    then show ?thesis
    proof (cases rule: apply_cancel_order_cases [of ?b c])
      case (reject reason)
      with cancel show ?thesis using carries_rejection nz(1) by (simp add: engine_next_sequence_def)
    next
      case c: (cancel r)
      with cancel show ?thesis
        using carries_cancel_event [OF binv c(2)] ids_nonzero_remove [OF binv c(2) nz(1)]
        by (simp add: engine_next_sequence_def)
    qed
  next
    case replace
    then show ?thesis
      using carries_apply_replace_order [OF binv nz(1)] by (simp add: engine_next_sequence_def)
  qed
  then show "carries it (b_active_orders (engine_order_book g)) (engine_next_sequence g)
      (fst (engine_apply g c)) (b_active_orders (engine_order_book (snd (engine_apply g c))))
      (engine_next_sequence (snd (engine_apply g c)))"
    and "ids_nonzero (engine_order_book (snd (engine_apply g c)))" by auto
qed

lemma carries_run:
  assumes "engine_inv g" "ids_nonzero (engine_order_book g)" "\<forall>c \<in> set cs. nonzero_id c"
  shows "carries it (b_active_orders (engine_order_book g)) (engine_next_sequence g)
      (fst (run_commands engine_apply g cs))
      (b_active_orders (engine_order_book (snd (run_commands engine_apply g cs))))
      (engine_next_sequence (snd (run_commands engine_apply g cs)))"
  using assms
proof (induction cs arbitrary: g)
  case Nil
  then show ?case by (simp add: carries_Nil)
next
  case (Cons c cs)
  obtain es g' where ap: "engine_apply g c = (es, g')" by (cases "engine_apply g c")
  obtain es' g'' where run: "run_commands engine_apply g' cs = (es', g'')"
    by (cases "run_commands engine_apply g' cs")
  have "engine_inv g'" using engine_inv_apply [OF Cons.prems(1), of c] ap by simp
  moreover have "ids_nonzero (engine_order_book g')"
    using carries_engine_apply(2) [OF Cons.prems(1,2), of c] Cons.prems(3) ap by simp
  ultimately have "carries it (b_active_orders (engine_order_book g')) (engine_next_sequence g') es'
      (b_active_orders (engine_order_book g'')) (engine_next_sequence g'')"
    using Cons.IH [of g'] Cons.prems(3) run by simp
  moreover have "carries it (b_active_orders (engine_order_book g)) (engine_next_sequence g) es
      (b_active_orders (engine_order_book g')) (engine_next_sequence g')"
    using carries_engine_apply(1) [OF Cons.prems(1,2), of c it] Cons.prems(3) ap by simp
  ultimately show ?case
    by (simp add: ap run) (rule carries_append)
qed

section \<open>The public book of an index\<close>

text \<open>The levels of one side with their quantities added up.\<close>

definition level_quantities :: "price_levels \<Rightarrow> (i64 \<times> i64) list" where
  "level_quantities ls = map (\<lambda>(p, q). (p, sum_list (map r_remaining_quantity_lots q))) ls"

definition priced_quantities :: "RestingOrder list \<Rightarrow> (i64 \<times> i64) list" where
  "priced_quantities rs = map (\<lambda>r. (r_price_ticks r, r_remaining_quantity_lots r)) rs"

lemma quantity_at_append: "quantity_at k (xs @ ys) = quantity_at k xs + quantity_at k ys"
  by (simp add: quantity_at_def)

lemma quantity_at_none: "k \<notin> fst ` set xs \<Longrightarrow> quantity_at k xs = 0"
  by (induction xs) auto

lemma quantity_at_level:
  "\<forall>r \<in> set q. r_price_ticks r = p \<Longrightarrow>
   quantity_at k (priced_quantities q) = (if k = p then sum_list (map r_remaining_quantity_lots q) else 0)"
  by (induction q) (auto simp: priced_quantities_def)

lemma fst_priced_quantities: "fst ` set (priced_quantities rs) = r_price_ticks ` set rs"
  unfolding priced_quantities_def set_map image_image by simp

lemma priced_quantities_append: "priced_quantities (rs @ rs') = priced_quantities rs @ priced_quantities rs'"
  by (simp add: priced_quantities_def)

lemma map_of_level_quantities:
  assumes "priced ls" "distinct (map fst ls)"
  shows "map_of (level_quantities ls) k =
    (if k \<in> r_price_ticks ` set (flat ls) then Some (quantity_at k (priced_quantities (flat ls))) else None)"
  using assms
proof (induction ls)
  case Nil
  then show ?case by (simp add: level_quantities_def)
next
  case (Cons l ls)
  obtain p q where l: "l = (p, q)" by (cases l)
  have q: "\<forall>r \<in> set q. r_price_ticks r = p" "q \<noteq> []" and ls: "priced ls" "distinct (map fst ls)"
    and p: "p \<notin> r_price_ticks ` set (flat ls)"
    using Cons.prems priced_prices [of ls] by (auto simp: l)
  have "r_price_ticks ` set q = {p}" using q by (cases q) auto
  moreover have "quantity_at p (priced_quantities (flat ls)) = 0"
    by (rule quantity_at_none) (use p in \<open>simp add: fst_priced_quantities\<close>)
  ultimately show ?case
    using Cons.IH [OF ls] quantity_at_level [OF q(1), of k]
    by (auto simp: l level_quantities_def priced_quantities_append quantity_at_append image_Un)
qed

lemmas side_unique = price_order.sorted_levels_unique [OF side_order.price_order_axioms]
lemmas side_sorted_add = price_order.sorted_add_quantities [OF side_order.price_order_axioms]
lemmas side_map_of_add = price_order.map_of_add_quantities [OF side_order.price_order_axioms]

lemma add_quantities_levels:
  assumes "side_ok s ls"
  shows "add_quantities (better s) (priced_quantities (flat ls)) [] = level_quantities ls"
proof (rule side_unique)
  note ok = side_okD [OF assms]
  have "map fst (level_quantities ls) = map fst ls"
    by (simp add: level_quantities_def case_prod_beta o_def)
  then show "sorted_wrt (better s) (map fst (level_quantities ls))"
    using ok(1) by simp
  show "sorted_wrt (better s) (map fst (add_quantities (better s) (priced_quantities (flat ls)) []))"
    by (simp add: side_sorted_add)
  show "map_of (add_quantities (better s) (priced_quantities (flat ls)) []) = map_of (level_quantities ls)"
    using map_of_level_quantities [OF ok(2,6)]
    by (simp add: fun_eq_iff side_map_of_add fst_priced_quantities)
qed

lemma stands_at_entries:
  assumes "stands_at it p al n" "indexed al os"
  shows "mset (map snd (p_active_orders p)) = mset (map order_state os)"
proof -
  let ?es = "map (\<lambda>r. (r_order_id r, order_state r)) os"
  have d: "keys_distinct (p_active_orders p)"
    using assms(1) by (simp add: stands_at_def view_current_def)
  have "set (p_active_orders p) = set ?es"
    using assms indexed_lookup [OF assms(2)] keys_distinct_map_of_iff [OF d]
    by (auto simp: stands_at_def set_eq_iff image_iff) metis+
  moreover have "distinct (p_active_orders p)" "distinct ?es"
    using d indexed_distinct [OF assms(2)]
    by (auto simp: keys_distinct_def distinct_map inj_on_def)
  ultimately have "mset (p_active_orders p) = mset ?es"
    using set_eq_iff_mset_eq_distinct [of "p_active_orders p" ?es] by blast
  from arg_cong [OF this, of "image_mset snd"] show ?thesis by (simp add: image_mset.compositionality o_def)
qed

lemma filter_side:
  "\<forall>r \<in> set rs. r_side r = side_code s \<Longrightarrow>
   filter (\<lambda>r. r_side r = side_code t) rs = (if s = t then rs else [])"
  by (auto simp: filter_id_conv filter_empty_conv simp del: side_code.simps)

lemma mset_side_entries:
  assumes "mset (map snd orders) = mset (map order_state (book_orders b))" "book_inv b"
  shows "mset (side_entries s orders) = mset (priced_quantities (flat (side_levels s b)))"
proof -
  let ?f = "\<lambda>o'. (o_price_ticks o', o_remaining_quantity_lots o')"
  let ?P = "\<lambda>o'. o_side o' = side_code s"
  have "mset (side_entries s orders) = mset (map ?f (filter ?P (map order_state (book_orders b))))"
    unfolding side_entries_def mset_map [of ?f] mset_filter [of ?P] assms(1) ..
  also have "map ?f (filter ?P (map order_state (book_orders b))) =
      priced_quantities (filter (\<lambda>r. r_side r = side_code s) (book_orders b))"
    by (simp add: filter_map o_def priced_quantities_def order_state_def del: side_code.simps)
  also have "filter (\<lambda>r. r_side r = side_code s) (book_orders b) = flat (side_levels s b)"
    using filter_side [of "flat (b_bids b)" Buy s] filter_side [of "flat (b_asks b)" Sell s]
      side_okD(5) [OF book_invD(1) [OF assms(2), of Buy]] side_okD(5) [OF book_invD(1) [OF assms(2), of Sell]]
    by (cases s) (simp_all add: book_orders_def del: side_code.simps)
  finally show ?thesis .
qed

lemma public_view_of_book:
  assumes "stands_at it p (b_active_orders b) n" "book_inv b" "\<And>orders. mset (it orders) = mset orders"
  shows "v_bids (p_book p) = visible_levels (level_quantities (b_bids b))"
    and "v_asks (p_book p) = visible_levels (level_quantities (b_asks b))"
    and "v_instrument_id (p_book p) = (if book_orders b = [] then 0 else the (b_instrument_id b))"
proof -
  have book: "p_book p = public_view (it (p_active_orders p))"
    using assms(1) by (simp add: stands_at_def view_current_def)
  have act: "mset (map snd (it (p_active_orders p))) = mset (map order_state (book_orders b))"
    using stands_at_entries [OF assms(1) book_invD(2) [OF assms(2)]] assms(3) [of "p_active_orders p"]
    by simp
  note entries = mset_side_entries [OF act assms(2)]
  have "add_quantities (>) (side_entries Buy (it (p_active_orders p))) [] = level_quantities (b_bids b)"
    using bids_order.add_quantities_perm [OF entries [of Buy]] add_quantities_levels [of Buy "b_bids b"]
      book_invD(1) [OF assms(2), of Buy] by (simp add: better_Buy_Sell)
  moreover have "add_quantities (<) (side_entries Sell (it (p_active_orders p))) [] = level_quantities (b_asks b)"
    using asks_order.add_quantities_perm [OF entries [of Sell]] add_quantities_levels [of Sell "b_asks b"]
      book_invD(1) [OF assms(2), of Sell] by (simp add: better_Buy_Sell)
  ultimately show "v_bids (p_book p) = visible_levels (level_quantities (b_bids b))"
    and "v_asks (p_book p) = visible_levels (level_quantities (b_asks b))"
    by (simp_all add: book public_view_entries)
  let ?os = "it (p_active_orders p)"
  have empty: "?os = [] \<longleftrightarrow> book_orders b = []"
    using arg_cong [OF act, of size] by (metis length_0_conv length_map size_mset)
  have "o_instrument_id (snd (last ?os)) = the (b_instrument_id b)" if "?os \<noteq> []"
  proof -
    have "snd (last ?os) \<in> set (map snd ?os)" using that by simp
    also have "set (map snd ?os) = order_state ` set (book_orders b)"
      using mset_eq_setD [OF act] by simp
    finally obtain r where "r \<in> set (book_orders b)" "snd (last ?os) = order_state r" by auto
    then show ?thesis
      using book_invD(4) [OF assms(2)] by (simp add: one_instrument_def order_state_def)
  qed
  with empty show "v_instrument_id (p_book p) = (if book_orders b = [] then 0 else the (b_instrument_id b))"
    by (simp add: book public_view_entries)
qed

text \<open>The projection of a run of a fresh engine.\<close>

lemma projection_of_run:
  assumes "\<forall>c \<in> set commands. nonzero_id c" "\<And>orders. mset (it orders) = mset orders"
    and "run_commands engine_apply (new_instrument_engine 1) commands = (events, g)"
    and "project_events it new_market_data_projection events = (results, p)"
  shows "list_all (\<lambda>r. apply_status r \<noteq> Rejected) results"
    and "stands_at it p (b_active_orders (engine_order_book g)) (engine_next_sequence g)"
    and "p_trades p = map public_trade (trades_of events)"
    and "book_inv (engine_order_book g)"
proof -
  let ?g = "new_instrument_engine 1"
  have "mset (it []) = {#}" using assms(2) [of "[]"] by simp
  then have "it [] = []" by simp
  then have start: "stands_at it new_market_data_projection (b_active_orders (engine_order_book ?g)) (engine_next_sequence ?g)"
    using view_current_new
    by (simp add: stands_at_def) (simp add: new_market_data_projection_def new_instrument_engine_def new_order_book_def)
  have "ids_nonzero (engine_order_book ?g)"
    by (simp add: ids_nonzero_def new_instrument_engine_def new_order_book_def book_orders_def)
  from carries_run [OF engine_inv_new this assms(1), of it] assms(3)
  have "carries it (b_active_orders (engine_order_book ?g)) (engine_next_sequence ?g) events
      (b_active_orders (engine_order_book g)) (engine_next_sequence g)" by simp
  with start assms(4) show "list_all (\<lambda>r. apply_status r \<noteq> Rejected) results"
    and "stands_at it p (b_active_orders (engine_order_book g)) (engine_next_sequence g)"
    and "p_trades p = map public_trade (trades_of events)"
    unfolding carries_def by (fastforce simp: new_market_data_projection_def)+
  show "book_inv (engine_order_book g)"
    using engine.inv_run [OF engine_inv_new, of 1 commands] assms(3) by (simp add: engine_inv_def)
qed

section \<open>Accepted events\<close>

text \<open>The trades of the projection are the trade events it accepted, whatever these events are.\<close>

lemma accepted_event_trades:
  assumes "projection_apply it p e = (r, p')" "apply_status r \<noteq> Rejected"
  shows "p_trades p' = p_trades p @ map public_trade (trades_of [e])"
proof -
  obtain p0 where d: "projection_dispatch it p e = (r, p0)" "p_trades p' = p_trades p0"
    using assms by (auto simp: projection_apply_def split: prod.splits if_splits)
  show ?thesis
  proof (cases "decode_event_type (e_event_type e)")
    case None
    then show ?thesis using d assms(2) by (auto simp: projection_dispatch_def)
  next
    case (Some t)
    then have t: "e_event_type e = event_type_code t" by (auto simp: decode_event_type_def split: if_splits)
    show ?thesis
      using d assms(2) Some is_trade_iff_type [OF t]
      by (cases t) (auto simp: projection_dispatch_def apply_rested_def upsert_order_def apply_trade_def
          apply_filled_def apply_cancelled_def remove_order_def public_trade_def Let_def
          split: if_splits option.splits)
  qed
qed

lemma accepted_prefix:
  assumes "project_events it p (es @ es') = (rs, p')" "list_all (\<lambda>r. apply_status r \<noteq> Rejected) rs"
  obtains rs1 p1 where "project_events it p es = (rs1, p1)" "list_all (\<lambda>r. apply_status r \<noteq> Rejected) rs1"
  using assms by (auto simp: project_events_append split: prod.splits)

lemma accepted_trades:
  assumes "project_events it p es = (rs, p')" "list_all (\<lambda>r. apply_status r \<noteq> Rejected) rs"
  shows "p_trades p' = p_trades p @ map public_trade (trades_of es)"
  using assms
proof (induction es arbitrary: p rs)
  case (Cons e es)
  obtain r p1 where e: "projection_apply it p e = (r, p1)" by (cases "projection_apply it p e")
  obtain rs1 where "project_events it p1 es = (rs1, p')" "rs = r # rs1"
    using Cons.prems(1) e by (auto split: prod.splits)
  then show ?case using Cons.IH [of p1 rs1] accepted_event_trades [OF e] Cons.prems(2) by simp
qed simp

section \<open>The levels the public sees\<close>

text \<open>
  What is to be published of a side, without reference to the code of the projection: the price and
  the total of every level, over the integers and then reduced to a signed 64-bit value, unless that
  value is not positive. Below 2^63 the reduction does nothing and every level is shown; in C++ the
  addition of the code has no defined result beyond that.
\<close>

definition total_quantity :: "RestingOrder list \<Rightarrow> int" where
  "total_quantity q = sum_list (map (\<lambda>r. to_int (r_remaining_quantity_lots r)) q)"

definition level_view :: "price_levels \<Rightarrow> (i64 \<times> int) list" where
  "level_view ls =
     filter (\<lambda>(price, n). n > 0) (map (\<lambda>(price, q). (price, to_int (i64_of_int (total_quantity q)))) ls)"

lemma i64_of_int_plus: "i64_of_int (m + n) = i64_of_int m + i64_of_int n"
  by (simp add: i64_of_int_def)

lemma sum_quantities: "sum_list (map r_remaining_quantity_lots q) = i64_of_int (total_quantity q)"
  by (induction q)
    (simp_all add: total_quantity_def i64_of_int_plus, simp add: i64_of_int_def zero_i64_def)

lemma visible_levels_view:
  "map (\<lambda>(price, quantity). (price, to_int quantity)) (visible_levels (level_quantities ls)) = level_view ls"
  by (induction ls) (auto simp: visible_levels_def level_quantities_def level_view_def sum_quantities)

section \<open>Properties\<close>

text \<open>
  C9: The public view follows the engine: the events of any run of a fresh engine, on commands that
  introduce no order id 0, are all accepted by a fresh projection; its trades are the trade events;
  its public book is the instrument and the levels of the engine's book, best price first, each
  with the total of the quantities that rest there, whatever the iteration order of the hash map.
  A total of 2^63 or more is shown reduced to 64 bits, or not at all if that is not positive.
\<close>

theorem projection_follows_engine:
  assumes "\<forall>c \<in> set commands. nonzero_id c" "\<And>orders. mset (it orders) = mset orders"
    and "run_commands engine_apply (new_instrument_engine 1) commands = (events, g)"
    and "project_events it new_market_data_projection events = (results, p)"
  shows "list_all (\<lambda>r. apply_status r \<noteq> Rejected) results \<and>
    p_trades p = map public_trade (trades_of events) \<and>
    map (\<lambda>(price, quantity). (price, to_int quantity)) (v_bids (p_book p)) =
      level_view (b_bids (engine_order_book g)) \<and>
    map (\<lambda>(price, quantity). (price, to_int quantity)) (v_asks (p_book p)) =
      level_view (b_asks (engine_order_book g)) \<and>
    v_instrument_id (p_book p) =
      (if book_orders (engine_order_book g) = [] then 0 else the (b_instrument_id (engine_order_book g)))"
  using projection_of_run [OF assms] public_view_of_book [OF projection_of_run(2,4) [OF assms] assms(2)]
  by (simp add: visible_levels_view)

definition sample_run :: "OrderCommandRecordV1 list" where
  "sample_run =
     [sample_command NewOrder 1 Sell 100 5, sample_command NewOrder 2 Sell 101 7,
      sample_command NewOrder 3 Buy 99 4, sample_buy, sample_command CancelOrder 3 Buy 0 0]"

lemma projection_follows_engine_witness:
  "map (\<lambda>(price, quantity). (price, to_int quantity))
     (v_asks (p_book (snd (project_events (\<lambda>orders. orders) new_market_data_projection
       (fst (run_commands engine_apply (new_instrument_engine 1) sample_run)))))) = [(I64 101, 3)]"
proof -
  have nz: "\<forall>c \<in> set sample_run. nonzero_id c" by code_simp
  have "level_view (b_asks (engine_order_book
      (snd (run_commands engine_apply (new_instrument_engine 1) sample_run)))) = [(I64 101, 3)]"
    by code_simp
  then show ?thesis
    using projection_follows_engine [OF nz, of "\<lambda>orders. orders"
        "fst (run_commands engine_apply (new_instrument_engine 1) sample_run)"
        "snd (run_commands engine_apply (new_instrument_engine 1) sample_run)"]
    by (metis prod.collapse)
qed

text \<open>
  An event the projection rejects changes nothing of it; an event it does not reject carries
  exactly the next sequence number, which becomes the last applied one.
\<close>

lemma projection_step_is_gap_free:
  "(let (result, p') = projection_apply iteration p event in
     if apply_status result = Rejected then p' = p
     else e_event_sequence event = p_last_applied_event_sequence p + 1 \<and>
          p_last_applied_event_sequence p' = e_event_sequence event)"
  using projection_apply_rejected [of iteration p event]
  by (auto simp: projection_apply_def Let_def split: prod.splits if_splits)

lemma sorted_visible_levels:
  "sorted_wrt R (map fst ls) \<Longrightarrow> sorted_wrt R (map fst (visible_levels ls))"
  by (induction ls) (auto simp: visible_levels_def)

definition sample_commands_2 :: "OrderCommandRecordV1 list" where
  "sample_commands_2 =
     [sample_command NewOrder 1 Sell 100 5, sample_command NewOrder 2 Sell 101 7,
      sample_command NewOrder 3 Sell 100 4]"

text \<open>
  The price levels a projection publishes do not depend on the iteration order of its hash map:
  two visits of the same entries in any order give the same bids and asks, each sorted with the
  best price first and without a price twice, with only positive quantities.
\<close>

lemma public_levels_independent_of_iteration:
  assumes "mset (iteration' (p_active_orders p)) = mset (iteration (p_active_orders p))"
  shows "v_bids (p_book (rebuild_book iteration' p)) = v_bids (p_book (rebuild_book iteration p)) \<and>
    v_asks (p_book (rebuild_book iteration' p)) = v_asks (p_book (rebuild_book iteration p)) \<and>
    sorted_wrt (>) (map fst (v_bids (p_book (rebuild_book iteration p)))) \<and>
    sorted_wrt (<) (map fst (v_asks (p_book (rebuild_book iteration p)))) \<and>
    list_all (\<lambda>(price, quantity). 0 < to_int quantity) (v_bids (p_book (rebuild_book iteration p))) \<and>
    list_all (\<lambda>(price, quantity). 0 < to_int quantity) (v_asks (p_book (rebuild_book iteration p)))"
proof -
  have "list_all (\<lambda>(price, quantity). 0 < to_int quantity) (visible_levels ls)" for ls
    by (auto simp: list_all_iff visible_levels_def)
  then show ?thesis
    using public_view_perm [OF assms]
    unfolding p_book_rebuild_book public_view_entries
    by (intro conjI sorted_visible_levels bids_order.sorted_add_quantities
        asks_order.sorted_add_quantities) simp_all
qed

lemma public_levels_independent_of_iteration_witness:
  "v_asks (p_book (rebuild_book rev (snd (project_events (\<lambda>orders. orders) new_market_data_projection
     (fst (run_commands engine_apply (new_instrument_engine 1) sample_commands_2)))))) =
   v_asks (p_book (rebuild_book (\<lambda>orders. orders) (snd (project_events (\<lambda>orders. orders)
     new_market_data_projection
     (fst (run_commands engine_apply (new_instrument_engine 1) sample_commands_2))))))"
  using public_levels_independent_of_iteration [of rev _ "\<lambda>orders. orders"] by simp

text \<open>
  The condition on order ids is needed: the engine accepts and rests an order with id 0, and the
  projection rejects the event.
\<close>

lemma order_id_zero_stops_projection:
  "map apply_status (fst (project_events (\<lambda>orders. orders) new_market_data_projection
     (fst (engine_apply (new_instrument_engine 1) (sample_command NewOrder 0 Buy 100 5)))))
   = [Ignored, Rejected]"
  by code_simp

end
