(* ===== verification/ByteCodec.thy ===== *)
theory ByteCodec
  imports Domain
begin

text \<open>
  Object representations: the bytes that \<open>reinterpret_cast\<close> and \<open>memcpy\<close> see, for a little-endian
  target with the natural alignment of the fields. The records end in padding bytes (four, for
  commands and events), whose values C++ leaves open: they are an argument of the encoders and
  are dropped by the decoders. The locale states what a client of a representation relies on.
\<close>

type_synonym bytes = "u8 list"

section \<open>Little-endian integers\<close>

fun le_nat :: "nat \<Rightarrow> nat \<Rightarrow> bytes" where
  "le_nat 0 x = []"
| "le_nat (Suc n) x = of_nat x # le_nat n (x div 256)"

fun nat_le :: "bytes \<Rightarrow> nat" where
  "nat_le [] = 0"
| "nat_le (b # bs) = unat b + 256 * nat_le bs"

definition word_bytes :: "nat \<Rightarrow> 'a::len word \<Rightarrow> bytes" where
  "word_bytes n w = le_nat n (unat w)"

definition bytes_word :: "bytes \<Rightarrow> 'a::len word" where
  "bytes_word bs = of_nat (nat_le bs)"

text \<open>The bytes of a field at an offset.\<close>

definition sub :: "bytes \<Rightarrow> nat \<Rightarrow> nat \<Rightarrow> bytes" where
  "sub bs offset n = take n (drop offset bs)"

lemma length_le_nat [simp]: "length (le_nat n x) = n"
  by (induction n arbitrary: x) auto

lemma length_word_bytes [simp]: "length (word_bytes n w) = n"
  by (simp add: word_bytes_def)

lemma nat_le_le_nat: "nat_le (le_nat n x) = x mod 256 ^ n"
proof (induction n arbitrary: x)
  case (Suc n)
  have "unat (of_nat x :: u8) = x mod 256"
    by (simp add: unat_of_nat)
  then show ?case
    using Suc [of "x div 256"] by (simp add: mod_mult2_eq)
qed simp

lemma bytes_word_word_bytes [simp]:
  fixes w :: "'a::len word"
  assumes "LENGTH('a) \<le> 8 * n"
  shows "bytes_word (word_bytes n w) = w"
proof -
  have "unat w < 2 ^ LENGTH('a)" by (rule unsigned_less)
  also have "(2 :: nat) ^ LENGTH('a) \<le> 2 ^ (8 * n)" using assms by (intro power_increasing) auto
  also have "(2 :: nat) ^ (8 * n) = 256 ^ n" by (simp add: power_mult)
  finally show ?thesis
    by (simp add: bytes_word_def word_bytes_def nat_le_le_nat)
qed

lemma sub_append [simp]:
  "length xs \<le> offset \<Longrightarrow> sub (xs @ ys) offset n = sub ys (offset - length xs) n"
  "length xs = n \<Longrightarrow> sub (xs @ ys) 0 n = xs"
  by (simp_all add: sub_def)

lemma sub_whole [simp]: "length xs = n \<Longrightarrow> sub xs 0 n = xs"
  by (simp add: sub_def)

lemma unat_less_256: "unat (b :: u8) < 256"
  using unsigned_less [of b, where ?'a = nat] by simp

lemma nat_le_inject: "length xs = length ys \<Longrightarrow> nat_le xs = nat_le ys \<longleftrightarrow> xs = ys"
proof (induction xs arbitrary: ys)
  case (Cons x xs)
  then obtain y ys' where ys: "ys = y # ys'" by (cases ys) auto
  have "nat_le (x # xs) = nat_le ys \<longleftrightarrow> unat x = unat y \<and> nat_le xs = nat_le ys'"
  proof
    assume eq: "nat_le (x # xs) = nat_le ys"
    then have "(unat x + 256 * nat_le xs) mod 256 = (unat y + 256 * nat_le ys') mod 256"
      by (simp add: ys)
    then have "unat x = unat y" using unat_less_256 [of x] unat_less_256 [of y] by simp
    with eq show "unat x = unat y \<and> nat_le xs = nat_le ys'" by (simp add: ys)
  qed (simp add: ys)
  with Cons ys show ?case by (simp add: word_unat_eq_iff)
qed simp

section \<open>Representations\<close>

locale codec =
  fixes encode :: "'a \<Rightarrow> bytes" and decode :: "bytes \<Rightarrow> 'a" and len :: nat
  assumes length_encode: "length (encode x) = len"
    and decode_encode: "decode (encode x) = x"
begin

lemma encode_inject: "encode x = encode y \<longleftrightarrow> x = y"
  using decode_encode by metis

lemma encode_split:
  "length (encode x @ bs) = len + length bs" "take len (encode x @ bs) = encode x"
  "drop len (encode x @ bs) = bs"
  by (simp_all add: length_encode)

end

text \<open>The command record: 76 bytes of fields and four padding bytes.\<close>

definition sizeof_command :: nat where
  "sizeof_command = 80"

definition encode_command :: "u32 \<Rightarrow> OrderCommandRecordV1 \<Rightarrow> bytes" where
  "encode_command padding c =
     word_bytes 8 (c_command_sequence c) @ word_bytes 8 (c_source_ingress_epoch c) @
     word_bytes 8 (c_source_ingress_sequence c) @ word_bytes 8 (c_order_id c) @
     word_bytes 8 (c_replacement_order_id c) @ word_bytes 8 (c_client_id c) @
     word_bytes 8 (bits64 (c_price_ticks c)) @ word_bytes 8 (bits64 (c_quantity_lots c)) @
     word_bytes 4 (c_instrument_id c) @ word_bytes 2 (c_command_type c) @
     word_bytes 2 (c_side c) @ word_bytes 2 (c_time_in_force c) @ word_bytes 2 (c_reserved c) @
     word_bytes 4 padding"

definition decode_command :: "bytes \<Rightarrow> OrderCommandRecordV1" where
  "decode_command bs =
     \<lparr>c_command_sequence = bytes_word (sub bs 0 8), c_source_ingress_epoch = bytes_word (sub bs 8 8),
      c_source_ingress_sequence = bytes_word (sub bs 16 8), c_order_id = bytes_word (sub bs 24 8),
      c_replacement_order_id = bytes_word (sub bs 32 8), c_client_id = bytes_word (sub bs 40 8),
      c_price_ticks = I64 (bytes_word (sub bs 48 8)), c_quantity_lots = I64 (bytes_word (sub bs 56 8)),
      c_instrument_id = bytes_word (sub bs 64 4), c_command_type = bytes_word (sub bs 68 2),
      c_side = bytes_word (sub bs 70 2), c_time_in_force = bytes_word (sub bs 72 2),
      c_reserved = bytes_word (sub bs 74 2)\<rparr>"

interpretation command_codec: codec "encode_command padding" decode_command sizeof_command for padding
proof
  fix c
  show "length (encode_command padding c) = sizeof_command"
    by (simp add: encode_command_def sizeof_command_def)
  show "decode_command (encode_command padding c) = c"
    by (cases c) (simp add: encode_command_def decode_command_def)
qed

text \<open>The event record: 92 bytes of fields and four padding bytes.\<close>

definition sizeof_event :: nat where
  "sizeof_event = 96"

definition encode_event :: "u32 \<Rightarrow> ExecutionEventRecordV1 \<Rightarrow> bytes" where
  "encode_event padding e =
     word_bytes 8 (e_event_sequence e) @ word_bytes 8 (e_command_sequence e) @
     word_bytes 8 (e_source_ingress_epoch e) @ word_bytes 8 (e_source_ingress_sequence e) @
     word_bytes 8 (e_order_id e) @ word_bytes 8 (e_contra_order_id e) @ word_bytes 8 (e_trade_id e) @
     word_bytes 8 (bits64 (e_price_ticks e)) @ word_bytes 8 (bits64 (e_quantity_lots e)) @
     word_bytes 8 (bits64 (e_remaining_quantity_lots e)) @
     word_bytes 4 (e_instrument_id e) @ word_bytes 2 (e_event_type e) @ word_bytes 2 (e_side e) @
     word_bytes 2 (e_rejection_reason e) @ word_bytes 2 (e_reserved e) @ word_bytes 4 padding"

definition decode_event :: "bytes \<Rightarrow> ExecutionEventRecordV1" where
  "decode_event bs =
     \<lparr>e_event_sequence = bytes_word (sub bs 0 8), e_command_sequence = bytes_word (sub bs 8 8),
      e_source_ingress_epoch = bytes_word (sub bs 16 8),
      e_source_ingress_sequence = bytes_word (sub bs 24 8),
      e_order_id = bytes_word (sub bs 32 8), e_contra_order_id = bytes_word (sub bs 40 8),
      e_trade_id = bytes_word (sub bs 48 8), e_price_ticks = I64 (bytes_word (sub bs 56 8)),
      e_quantity_lots = I64 (bytes_word (sub bs 64 8)),
      e_remaining_quantity_lots = I64 (bytes_word (sub bs 72 8)),
      e_instrument_id = bytes_word (sub bs 80 4), e_event_type = bytes_word (sub bs 84 2),
      e_side = bytes_word (sub bs 86 2), e_rejection_reason = bytes_word (sub bs 88 2),
      e_reserved = bytes_word (sub bs 90 2)\<rparr>"

interpretation event_codec: codec "encode_event padding" decode_event sizeof_event for padding
proof
  fix e
  show "length (encode_event padding e) = sizeof_event"
    by (simp add: encode_event_def sizeof_event_def)
  show "decode_event (encode_event padding e) = e"
    by (cases e) (simp add: encode_event_def decode_event_def)
qed

end
