(* ===== verification/WalFormat.thy ===== *)
theory WalFormat
  imports ByteCodec Decimal
begin

unbundle bit_operations_syntax

text \<open>
  The on-disk format of \<open>src/wal/\<close>: error values, positions, alignment, the CRC-32, and the segment
  and record headers with their validity tests and checksums.
\<close>

section \<open>Errors and results\<close>

datatype WalError =
  NoError
| CannotOpenFile | CannotReadFile | CannotWriteFile | CannotFlushFile | CannotSyncFile
| InvalidSegmentHeader | InvalidRecordHeader | InvalidMagic | UnsupportedVersion
| InvalidRecordLength | InvalidPayloadLength
| PayloadChecksumMismatch | HeaderChecksumMismatch
| UnexpectedSequence | UnknownRecordType | PayloadSizeMismatch | RecordTypeMismatch
| IncompleteTrailingRecord | CorruptedMiddleRecord
| WalEndOfLog

fun wal_error_to_string :: "WalError \<Rightarrow> string" where
  "wal_error_to_string NoError = ''none''"
| "wal_error_to_string CannotOpenFile = ''cannot_open_file''"
| "wal_error_to_string CannotReadFile = ''cannot_read_file''"
| "wal_error_to_string CannotWriteFile = ''cannot_write_file''"
| "wal_error_to_string CannotFlushFile = ''cannot_flush_file''"
| "wal_error_to_string CannotSyncFile = ''cannot_sync_file''"
| "wal_error_to_string InvalidSegmentHeader = ''invalid_segment_header''"
| "wal_error_to_string InvalidRecordHeader = ''invalid_record_header''"
| "wal_error_to_string InvalidMagic = ''invalid_magic''"
| "wal_error_to_string UnsupportedVersion = ''unsupported_version''"
| "wal_error_to_string InvalidRecordLength = ''invalid_record_length''"
| "wal_error_to_string InvalidPayloadLength = ''invalid_payload_length''"
| "wal_error_to_string PayloadChecksumMismatch = ''payload_checksum_mismatch''"
| "wal_error_to_string HeaderChecksumMismatch = ''header_checksum_mismatch''"
| "wal_error_to_string UnexpectedSequence = ''unexpected_sequence''"
| "wal_error_to_string UnknownRecordType = ''unknown_record_type''"
| "wal_error_to_string PayloadSizeMismatch = ''payload_size_mismatch''"
| "wal_error_to_string RecordTypeMismatch = ''record_type_mismatch''"
| "wal_error_to_string IncompleteTrailingRecord = ''incomplete_trailing_record''"
| "wal_error_to_string CorruptedMiddleRecord = ''corrupted_middle_record''"
| "wal_error_to_string WalEndOfLog = ''end_of_log''"

record WalPosition =
  pos_stream_id :: u64
  pos_epoch :: u64
  pos_sequence :: u64

definition no_position :: WalPosition where
  "no_position = \<lparr>pos_stream_id = 0, pos_epoch = 0, pos_sequence = 0\<rparr>"

definition position_is_valid :: "WalPosition \<Rightarrow> bool" where
  "position_is_valid p \<longleftrightarrow> pos_stream_id p \<noteq> 0 \<and> pos_epoch p \<noteq> 0 \<and> pos_sequence p \<noteq> 0"

definition same_stream_epoch :: "WalPosition \<Rightarrow> WalPosition \<Rightarrow> bool" where
  "same_stream_epoch p other \<longleftrightarrow>
     pos_stream_id p = pos_stream_id other \<and> pos_epoch p = pos_epoch other"

datatype WalAppendStatus = Appended | AppendRejected | AppendFailed

record WalAppendResult =
  append_status :: WalAppendStatus
  append_error :: WalError
  append_position :: WalPosition

datatype WalCommitStatus = Committed | CommitFailed

record WalCommitResult =
  commit_status :: WalCommitStatus
  commit_error :: WalError
  committed_up_to :: WalPosition

datatype WalReadStatus = WalRecordRead | WalReadEnd | WalReadFailed

record WalReadResult =
  read_status :: WalReadStatus
  read_error :: WalError
  read_position :: WalPosition

section \<open>Alignment\<close>

definition align_up :: "u32 \<Rightarrow> u32 \<Rightarrow> u32" where
  "align_up value alignment =
     (if alignment = 0 then value
      else (let remainder = value mod alignment
            in if remainder = 0 then value else value + (alignment - remainder)))"

definition padding_for :: "u32 \<Rightarrow> u32 \<Rightarrow> u32" where
  "padding_for value alignment = align_up value alignment - value"

section \<open>CRC-32\<close>

definition crc_bit :: "u32 \<Rightarrow> u32" where
  "crc_bit crc = (let mask = 0 - (crc AND 1) in drop_bit 1 crc XOR (0xEDB88320 AND mask))"

definition crc_byte :: "u32 \<Rightarrow> u8 \<Rightarrow> u32" where
  "crc_byte crc byte = (crc_bit ^^ 8) (crc XOR ucast byte)"

fun crc_loop :: "u32 \<Rightarrow> bytes \<Rightarrow> u32" where
  "crc_loop crc [] = crc"
| "crc_loop crc (byte # bs) = crc_loop (crc_byte crc byte) bs"

definition calculate_crc32 :: "bytes \<Rightarrow> u32" where
  "calculate_crc32 bs = NOT (crc_loop 0xFFFFFFFF bs)"

section \<open>Headers\<close>

definition WalRecordMagic :: u32 where "WalRecordMagic = 0x57414C52"
definition WalSegmentMagic :: u32 where "WalSegmentMagic = 0x57414C53"
definition WalFormatVersion :: u16 where "WalFormatVersion = 1"
definition DefaultRecordAlignment :: u32 where "DefaultRecordAlignment = 8"

record WalSegmentHeader =
  sh_magic :: u32
  sh_version :: u16
  sh_header_size :: u16
  sh_stream_id :: u64
  sh_epoch :: u64
  sh_first_sequence :: u64
  sh_flags :: u32
  sh_header_crc :: u32

definition sizeof_segment_header :: nat where
  "sizeof_segment_header = 40"

text \<open>The value of \<open>WalSegmentHeader{}\<close>.\<close>

definition default_segment_header :: WalSegmentHeader where
  "default_segment_header =
     \<lparr>sh_magic = WalSegmentMagic, sh_version = WalFormatVersion, sh_header_size = 40,
      sh_stream_id = 0, sh_epoch = 0, sh_first_sequence = 1, sh_flags = 0, sh_header_crc = 0\<rparr>"

definition encode_segment_header :: "WalSegmentHeader \<Rightarrow> bytes" where
  "encode_segment_header h =
     word_bytes 4 (sh_magic h) @ word_bytes 2 (sh_version h) @ word_bytes 2 (sh_header_size h) @
     word_bytes 8 (sh_stream_id h) @ word_bytes 8 (sh_epoch h) @ word_bytes 8 (sh_first_sequence h) @
     word_bytes 4 (sh_flags h) @ word_bytes 4 (sh_header_crc h)"

definition decode_segment_header :: "bytes \<Rightarrow> WalSegmentHeader" where
  "decode_segment_header bs =
     \<lparr>sh_magic = bytes_word (sub bs 0 4), sh_version = bytes_word (sub bs 4 2),
      sh_header_size = bytes_word (sub bs 6 2), sh_stream_id = bytes_word (sub bs 8 8),
      sh_epoch = bytes_word (sub bs 16 8), sh_first_sequence = bytes_word (sub bs 24 8),
      sh_flags = bytes_word (sub bs 32 4), sh_header_crc = bytes_word (sub bs 36 4)\<rparr>"

definition segment_header_valid :: "WalSegmentHeader \<Rightarrow> bool" where
  "segment_header_valid h \<longleftrightarrow>
     sh_magic h = WalSegmentMagic \<and> sh_version h = WalFormatVersion \<and>
     sh_header_size h = of_nat sizeof_segment_header \<and>
     sh_stream_id h \<noteq> 0 \<and> sh_epoch h \<noteq> 0 \<and> sh_first_sequence h \<noteq> 0"

definition calculate_segment_header_crc :: "WalSegmentHeader \<Rightarrow> u32" where
  "calculate_segment_header_crc h =
     calculate_crc32 (encode_segment_header (h\<lparr>sh_header_crc := 0\<rparr>))"

text \<open>
  The record header ends in four padding bytes, which are written, read and covered by the header
  checksum like the fields: \<open>rh_padding\<close>.
\<close>

record WalRecordHeader =
  rh_magic :: u32
  rh_version :: u16
  rh_header_size :: u16
  rh_record_length :: u32
  rh_record_type :: u32
  rh_stream_id :: u64
  rh_epoch :: u64
  rh_sequence :: u64
  rh_payload_length :: u32
  rh_payload_crc :: u32
  rh_header_crc :: u32
  rh_padding :: u32

definition sizeof_record_header :: nat where
  "sizeof_record_header = 56"

definition encode_record_header :: "WalRecordHeader \<Rightarrow> bytes" where
  "encode_record_header h =
     word_bytes 4 (rh_magic h) @ word_bytes 2 (rh_version h) @ word_bytes 2 (rh_header_size h) @
     word_bytes 4 (rh_record_length h) @ word_bytes 4 (rh_record_type h) @
     word_bytes 8 (rh_stream_id h) @ word_bytes 8 (rh_epoch h) @ word_bytes 8 (rh_sequence h) @
     word_bytes 4 (rh_payload_length h) @ word_bytes 4 (rh_payload_crc h) @
     word_bytes 4 (rh_header_crc h) @ word_bytes 4 (rh_padding h)"

definition decode_record_header :: "bytes \<Rightarrow> WalRecordHeader" where
  "decode_record_header bs =
     \<lparr>rh_magic = bytes_word (sub bs 0 4), rh_version = bytes_word (sub bs 4 2),
      rh_header_size = bytes_word (sub bs 6 2), rh_record_length = bytes_word (sub bs 8 4),
      rh_record_type = bytes_word (sub bs 12 4), rh_stream_id = bytes_word (sub bs 16 8),
      rh_epoch = bytes_word (sub bs 24 8), rh_sequence = bytes_word (sub bs 32 8),
      rh_payload_length = bytes_word (sub bs 40 4), rh_payload_crc = bytes_word (sub bs 44 4),
      rh_header_crc = bytes_word (sub bs 48 4), rh_padding = bytes_word (sub bs 52 4)\<rparr>"

definition record_header_valid :: "WalRecordHeader \<Rightarrow> bool" where
  "record_header_valid h \<longleftrightarrow>
     (let expected_record_length =
            align_up (of_nat sizeof_record_header + rh_payload_length h) DefaultRecordAlignment
      in rh_magic h = WalRecordMagic \<and> rh_version h = WalFormatVersion \<and>
         rh_header_size h = of_nat sizeof_record_header \<and>
         of_nat sizeof_record_header \<le> rh_record_length h \<and>
         rh_record_length h mod DefaultRecordAlignment = 0 \<and>
         rh_record_length h = expected_record_length)"

definition calculate_record_header_crc :: "WalRecordHeader \<Rightarrow> u32" where
  "calculate_record_header_crc h =
     calculate_crc32 (encode_record_header (h\<lparr>rh_header_crc := 0\<rparr>))"

interpretation segment_header_codec: codec encode_segment_header decode_segment_header sizeof_segment_header
proof
  fix h
  show "length (encode_segment_header h) = sizeof_segment_header"
    by (simp add: encode_segment_header_def sizeof_segment_header_def)
  show "decode_segment_header (encode_segment_header h) = h"
    by (cases h) (simp add: encode_segment_header_def decode_segment_header_def)
qed

interpretation record_header_codec: codec encode_record_header decode_record_header sizeof_record_header
proof
  fix h
  show "length (encode_record_header h) = sizeof_record_header"
    by (simp add: encode_record_header_def sizeof_record_header_def)
  show "decode_record_header (encode_record_header h) = h"
    by (cases h) (simp add: encode_record_header_def decode_record_header_def)
qed

section \<open>The checksum detects a changed byte\<close>

text \<open>One step of the shift register is injective: the top bit of the polynomial marks the lost bit.\<close>

lemma crc_bit_mask: "crc_bit crc = drop_bit 1 crc XOR (if bit crc 0 then 0xEDB88320 else 0)"
proof -
  have "crc AND 1 = (if bit crc 0 then 1 else 0)"
    by (simp add: and_one_eq odd_iff_mod_2_eq_one [symmetric] bit_0 mod_2_eq_odd)
  then show ?thesis
    by (simp add: crc_bit_def)
qed

lemma crc_bit_top: "bit (crc_bit crc) 31 \<longleftrightarrow> bit crc 0"
proof -
  have "bit (0xEDB88320 :: u32) 31" by simp
  moreover have "\<not> bit (drop_bit 1 crc) 31"
    using bit_imp_le_length [of crc 32] by (auto simp: bit_drop_bit_eq)
  ultimately show ?thesis by (simp add: crc_bit_mask bit_xor_iff)
qed

lemma xor_cancel_right: "x XOR z = y XOR z \<longleftrightarrow> x = (y :: u32)"
proof
  assume "x XOR z = y XOR z"
  then have "(x XOR z) XOR z = (y XOR z) XOR z" by simp
  then show "x = y" by (simp add: xor.assoc)
qed simp

lemma xor_cancel_left: "z XOR x = z XOR y \<longleftrightarrow> x = (y :: u32)"
  using xor_cancel_right [of x z y] by (simp add: xor.commute)

lemma ucast_byte_inject: "(ucast b :: u32) = ucast b' \<longleftrightarrow> b = (b' :: u8)"
proof
  assume eq: "(ucast b :: u32) = ucast b'"
  show "b = b'"
  proof (rule bit_word_eqI)
    fix n assume "n < LENGTH(8)"
    then show "bit b n \<longleftrightarrow> bit b' n"
      using arg_cong [OF eq, of "\<lambda>w. bit w n"] by (simp add: bit_ucast_iff)
  qed
qed simp

lemma crc_bit_inject: "crc_bit x = crc_bit y \<longleftrightarrow> x = y"
proof
  assume eq: "crc_bit x = crc_bit y"
  then have low: "bit x 0 \<longleftrightarrow> bit y 0" using crc_bit_top [of x] crc_bit_top [of y] by simp
  have "drop_bit 1 x XOR (if bit y 0 then 0xEDB88320 else 0) =
      drop_bit 1 y XOR (if bit y 0 then 0xEDB88320 else 0)"
    using eq low by (simp add: crc_bit_mask)
  then have high: "drop_bit 1 x = drop_bit 1 y"
    by (simp only: xor_cancel_right)
  show "x = y"
  proof (rule bit_word_eqI)
    fix n assume "n < LENGTH(32)"
    show "bit x n \<longleftrightarrow> bit y n"
    proof (cases n)
      case 0
      then show ?thesis using low by simp
    next
      case (Suc m)
      have "bit (drop_bit 1 x) m \<longleftrightarrow> bit (drop_bit 1 y) m" using high by simp
      then show ?thesis by (simp add: Suc bit_drop_bit_eq)
    qed
  qed
qed simp

lemma crc_bits_inject: "(crc_bit ^^ n) x = (crc_bit ^^ n) y \<longleftrightarrow> x = y"
  by (induction n) (simp_all add: crc_bit_inject)

lemma crc_byte_inject:
  "crc_byte x b = crc_byte y b \<longleftrightarrow> x = y" "crc_byte x b = crc_byte x b' \<longleftrightarrow> b = b'"
proof -
  show "crc_byte x b = crc_byte y b \<longleftrightarrow> x = y"
    unfolding crc_byte_def crc_bits_inject by (rule xor_cancel_right)
  show "crc_byte x b = crc_byte x b' \<longleftrightarrow> b = b'"
    unfolding crc_byte_def crc_bits_inject xor_cancel_left by (rule ucast_byte_inject)
qed

lemma crc_loop_append: "crc_loop crc (xs @ ys) = crc_loop (crc_loop crc xs) ys"
  by (induction crc xs rule: crc_loop.induct) auto

lemma crc_loop_inject: "crc_loop x bs = crc_loop y bs \<longleftrightarrow> x = y"
  by (induction bs arbitrary: x y) (simp_all add: crc_byte_inject)

lemma crc32_detects_changed_byte:
  "b \<noteq> b' \<Longrightarrow> calculate_crc32 (xs @ b # ys) \<noteq> calculate_crc32 (xs @ b' # ys)"
  by (simp add: calculate_crc32_def crc_loop_append crc_loop_inject crc_byte_inject)

end
