(* ===== verification/FileStream.thy ===== *)
theory FileStream
  imports ByteCodec
begin

text \<open>
  The part of the C++ standard library the WAL uses: the file system and binary file streams.
  A path is a list of components. An input stream is a position and the state bits of
  \<open>std::basic_ios\<close>; the bytes of the file are an argument of its operations. An output stream
  opened with \<open>ios::app\<close> holds the bytes that were written and not flushed; the device may stop at
  any write or flush, which the field \<open>o_outcomes\<close> decides in advance.
\<close>

section \<open>The file system\<close>

type_synonym path = "string list"

datatype fs_node = RegularFile bytes | Directory

type_synonym file_system = "path \<Rightarrow> fs_node option"

fun regular_bytes :: "fs_node option \<Rightarrow> bytes option" where
  "regular_bytes (Some (RegularFile bs)) = Some bs"
| "regular_bytes (Some Directory) = None"
| "regular_bytes None = None"

definition file_bytes :: "file_system \<Rightarrow> path \<Rightarrow> bytes option" where
  "file_bytes fs p = regular_bytes (fs p)"

definition is_directory :: "file_system \<Rightarrow> path \<Rightarrow> bool" where
  "is_directory fs p \<longleftrightarrow> fs p = Some Directory"

text \<open>
  \<open>std::filesystem::create_directories\<close>, over the ancestors from the outermost one; \<open>None\<close> is the
  exception when a component exists and is not a directory.
\<close>

fun create_directories_from :: "file_system \<Rightarrow> path \<Rightarrow> path \<Rightarrow> file_system option" where
  "create_directories_from fs done [] = Some fs"
| "create_directories_from fs done (c # cs) =
     (case fs (done @ [c]) of
        None \<Rightarrow> create_directories_from (fs(done @ [c] \<mapsto> Directory)) (done @ [c]) cs
      | Some Directory \<Rightarrow> create_directories_from fs (done @ [c]) cs
      | Some (RegularFile _) \<Rightarrow> None)"

definition create_directories :: "file_system \<Rightarrow> path \<Rightarrow> file_system option" where
  "create_directories fs p = create_directories_from fs [] p"

section \<open>Input streams\<close>

record ifstream =
  i_pos :: nat
  i_eof :: bool
  i_fail :: bool
  i_gcount :: nat

text \<open>Opening a missing file sets \<open>failbit\<close>.\<close>

definition ifstream_open :: "bytes option \<Rightarrow> ifstream" where
  "ifstream_open file = \<lparr>i_pos = 0, i_eof = False, i_fail = (file = None), i_gcount = 0\<rparr>"

text \<open>\<open>operator bool\<close>: neither \<open>failbit\<close> nor \<open>badbit\<close>; \<open>eofbit\<close> does not count.\<close>

definition stream_ok :: "ifstream \<Rightarrow> bool" where
  "stream_ok i \<longleftrightarrow> \<not> i_fail i"

definition stream_good :: "ifstream \<Rightarrow> bool" where
  "stream_good i \<longleftrightarrow> \<not> i_fail i \<and> \<not> i_eof i"

text \<open>\<open>read\<close>: a short read sets \<open>eofbit\<close> and \<open>failbit\<close>; on a stream that is not good it only fails.\<close>

definition stream_read :: "bytes \<Rightarrow> ifstream \<Rightarrow> nat \<Rightarrow> bytes \<times> ifstream" where
  "stream_read content i n =
     (if \<not> stream_good i then ([], i\<lparr>i_fail := True, i_gcount := 0\<rparr>)
      else
        (let got = take n (drop (i_pos i) content);
             short = (length got < n)
         in (got, \<lparr>i_pos = i_pos i + length got, i_eof = short, i_fail = short,
                   i_gcount = length got\<rparr>)))"

text \<open>
  \<open>ignore\<close>: reaching the end of the file sets \<open>eofbit\<close> only. A count that is not positive extracts
  nothing.
\<close>

definition stream_ignore :: "bytes \<Rightarrow> ifstream \<Rightarrow> int \<Rightarrow> ifstream" where
  "stream_ignore content i n =
     (if \<not> stream_good i then i\<lparr>i_fail := True, i_gcount := 0\<rparr>
      else
        (let got = length (take (nat n) (drop (i_pos i) content))
         in \<lparr>i_pos = i_pos i + got, i_eof = (got < nat n), i_fail = False, i_gcount = got\<rparr>))"

text \<open>
  \<open>tellg\<close> builds a sentry first, which sets \<open>failbit\<close> when \<open>eofbit\<close> is set; on a failed stream it
  returns -1.
\<close>

definition stream_tellg :: "ifstream \<Rightarrow> int \<times> ifstream" where
  "stream_tellg i =
     (let i' = (if stream_good i then i else i\<lparr>i_fail := True\<rparr>)
      in (if i_fail i' then - 1 else int (i_pos i'), i'))"

definition stream_clear :: "ifstream \<Rightarrow> ifstream" where
  "stream_clear i = i\<lparr>i_eof := False, i_fail := False\<rparr>"

section \<open>Output streams\<close>

text \<open>\<open>Stops k\<close>: the operation gets \<open>k\<close> bytes through and then fails.\<close>

datatype device_outcome = Accepts | Stops nat

record ofstream =
  o_open :: bool
  o_fail :: bool
  o_buffer :: bytes
  o_outcomes :: "device_outcome list"

text \<open>The outcomes that are not given are \<open>Accepts\<close>.\<close>

definition next_outcome :: "device_outcome list \<Rightarrow> device_outcome \<times> device_outcome list" where
  "next_outcome os = (case os of [] \<Rightarrow> (Accepts, []) | x # xs \<Rightarrow> (x, xs))"

definition closed_ofstream :: "device_outcome list \<Rightarrow> ofstream" where
  "closed_ofstream os = \<lparr>o_open = False, o_fail = False, o_buffer = [], o_outcomes = os\<rparr>"

text \<open>\<open>open(path, binary | app)\<close>: a missing file is created.\<close>

definition ofstream_open :: "file_system \<Rightarrow> path \<Rightarrow> ofstream \<Rightarrow> ofstream \<times> file_system" where
  "ofstream_open fs p out =
     (case next_outcome (o_outcomes out) of
        (Stops _, rest) \<Rightarrow> (out\<lparr>o_fail := True, o_outcomes := rest\<rparr>, fs)
      | (Accepts, rest) \<Rightarrow>
          (case fs p of
             Some Directory \<Rightarrow> (out\<lparr>o_fail := True, o_outcomes := rest\<rparr>, fs)
           | Some (RegularFile _) \<Rightarrow> (out\<lparr>o_open := True, o_outcomes := rest\<rparr>, fs)
           | None \<Rightarrow> (out\<lparr>o_open := True, o_outcomes := rest\<rparr>, fs(p \<mapsto> RegularFile []))))"

definition stream_write :: "bytes \<Rightarrow> ofstream \<Rightarrow> ofstream" where
  "stream_write bs out =
     (if o_fail out \<or> \<not> o_open out then out\<lparr>o_fail := True\<rparr>
      else (case next_outcome (o_outcomes out) of
        (Accepts, rest) \<Rightarrow> out\<lparr>o_buffer := o_buffer out @ bs, o_outcomes := rest\<rparr>
      | (Stops k, rest) \<Rightarrow>
          out\<lparr>o_fail := True, o_buffer := o_buffer out @ take k bs, o_outcomes := rest\<rparr>))"

definition append_to_file :: "file_system \<Rightarrow> path \<Rightarrow> bytes \<Rightarrow> file_system" where
  "append_to_file fs p bs =
     (case file_bytes fs p of None \<Rightarrow> fs | Some old \<Rightarrow> fs(p \<mapsto> RegularFile (old @ bs)))"

definition stream_flush :: "file_system \<Rightarrow> path \<Rightarrow> ofstream \<Rightarrow> ofstream \<times> file_system" where
  "stream_flush fs p out =
     (if o_fail out \<or> \<not> o_open out then (out, fs)
      else (case next_outcome (o_outcomes out) of
        (Accepts, rest) \<Rightarrow>
          (out\<lparr>o_buffer := [], o_outcomes := rest\<rparr>, append_to_file fs p (o_buffer out))
      | (Stops k, rest) \<Rightarrow>
          (out\<lparr>o_fail := True, o_buffer := drop k (o_buffer out), o_outcomes := rest\<rparr>,
           append_to_file fs p (take k (o_buffer out)))))"

text \<open>
  Closing the file, which the destructor of the stream does: the buffer object writes what it still
  holds, whatever the state bits of the stream are.
\<close>

definition stream_close :: "file_system \<Rightarrow> path \<Rightarrow> ofstream \<Rightarrow> file_system" where
  "stream_close fs p out =
     (if \<not> o_open out then fs
      else (case next_outcome (o_outcomes out) of
        (Accepts, _) \<Rightarrow> append_to_file fs p (o_buffer out)
      | (Stops k, _) \<Rightarrow> append_to_file fs p (take k (o_buffer out))))"

section \<open>Facts\<close>

lemma file_bytes_update [simp]: "file_bytes (fs(p \<mapsto> RegularFile bs)) p = Some bs"
  by (simp add: file_bytes_def)

lemma file_bytes_append_to_file:
  "file_bytes fs p = Some old \<Longrightarrow> file_bytes (append_to_file fs p bs) p = Some (old @ bs)"
  by (simp add: append_to_file_def)

lemma stream_good_simps [simp]:
  "stream_good \<lparr>i_pos = n, i_eof = e, i_fail = f, i_gcount = g\<rparr> \<longleftrightarrow> \<not> f \<and> \<not> e"
  by (auto simp: stream_good_def)

lemma stream_read_exact:
  assumes "stream_good i" "drop (i_pos i) content = bs @ rest" "length bs = n"
  shows "stream_read content i n =
    (bs, \<lparr>i_pos = i_pos i + n, i_eof = False, i_fail = False, i_gcount = n\<rparr>)"
  using assms by (simp add: stream_read_def)

lemma stream_read_short:
  assumes "stream_good i" "length (drop (i_pos i) content) < n"
  shows "stream_read content i n =
    (drop (i_pos i) content,
     \<lparr>i_pos = i_pos i + length (drop (i_pos i) content), i_eof = True, i_fail = True,
      i_gcount = length (drop (i_pos i) content)\<rparr>)"
  using assms by (simp add: stream_read_def Let_def)

lemma drop_advance: "drop n content = bs @ rest \<Longrightarrow> drop (n + length bs) content = rest"
  by (metis add.commute append_eq_conv_conj drop_drop)

end
