(* ===== verification/WalRecord.thy ===== *)
theory WalRecord
  imports WalFormat FileStream
begin

text \<open>
  One record as the writer lays it out: header, payload, zero padding up to the alignment
  (\<open>WalSegmentWriter::make_header\<close> and the writes of \<open>write_record\<close>), and why every reader accepts
  what the writer laid out.
\<close>

section \<open>Laying out a record\<close>

text \<open>
  \<open>make_header\<close>; \<open>padding_bytes\<close> are the indeterminate padding bytes of the header object. The
  length of a payload is narrowed to 32 bits.
\<close>

definition make_header ::
  "u64 \<Rightarrow> u64 \<Rightarrow> u32 \<Rightarrow> u32 \<Rightarrow> bytes \<Rightarrow> u64 \<Rightarrow> WalRecordHeader" where
  "make_header stream_id epoch padding_bytes record_type payload sequence =
     (let raw_length = of_nat sizeof_record_header + of_nat (length payload);
          header =
            \<lparr>rh_magic = WalRecordMagic, rh_version = WalFormatVersion,
             rh_header_size = of_nat sizeof_record_header,
             rh_record_length = align_up raw_length DefaultRecordAlignment,
             rh_record_type = record_type, rh_stream_id = stream_id, rh_epoch = epoch,
             rh_sequence = sequence, rh_payload_length = of_nat (length payload),
             rh_payload_crc = calculate_crc32 payload, rh_header_crc = 0, rh_padding = padding_bytes\<rparr>
      in header\<lparr>rh_header_crc := calculate_record_header_crc header\<rparr>)"

definition record_padding :: "bytes \<Rightarrow> u32" where
  "record_padding payload =
     padding_for (of_nat sizeof_record_header + of_nat (length payload)) DefaultRecordAlignment"

text \<open>The bytes of a record: what the three writes put behind one another.\<close>

definition record_bytes :: "u64 \<Rightarrow> u64 \<Rightarrow> u32 \<Rightarrow> u32 \<Rightarrow> bytes \<Rightarrow> u64 \<Rightarrow> bytes" where
  "record_bytes stream_id epoch padding_bytes record_type payload sequence =
     encode_record_header (make_header stream_id epoch padding_bytes record_type payload sequence)
     @ payload @ replicate (unat (record_padding payload)) 0"

text \<open>The segment header a writer starts a file with.\<close>

definition make_segment_header :: "u64 \<Rightarrow> u64 \<Rightarrow> u64 \<Rightarrow> WalSegmentHeader" where
  "make_segment_header stream_id epoch first_sequence =
     (let header = default_segment_header
            \<lparr>sh_stream_id := stream_id, sh_epoch := epoch, sh_first_sequence := first_sequence\<rparr>
      in header\<lparr>sh_header_crc := calculate_segment_header_crc header\<rparr>)"

section \<open>Alignment\<close>

lemma align_up_bounds:
  assumes "a \<noteq> 0" "unat v + unat a < 2 ^ 32"
  shows "unat a dvd unat (align_up v a)" "unat v \<le> unat (align_up v a)"
    "unat (align_up v a) < unat v + unat a"
proof -
  let ?r = "unat v mod unat a"
  have a: "0 < unat a" using assms(1) by (simp add: unat_gt_0)
  have r: "unat (v mod a) = ?r" by (simp add: unat_mod)
  have eq: "unat (align_up v a) = (if ?r = 0 then unat v else unat v + (unat a - ?r))"
  proof (cases "v mod a = 0")
    case True
    then show ?thesis using assms(1) r by (simp add: align_up_def)
  next
    case False
    then have "?r \<noteq> 0" using r by (metis unat_eq_zero)
    have le: "v mod a \<le> a" using r a by (simp add: word_le_nat_alt)
    have "unat (a - v mod a) = unat a - ?r"
      using le r by (simp add: unat_sub)
    moreover have "unat (v + (a - v mod a)) = unat v + unat (a - v mod a)"
    proof (rule unat_add_lem [THEN iffD1])
      show "unat v + unat (a - v mod a) < 2 ^ LENGTH(32)"
        using assms(2) calculation by simp
    qed
    ultimately show ?thesis
      using False assms(1) \<open>?r \<noteq> 0\<close> by (simp add: align_up_def Let_def)
  qed
  have dv: "unat a dvd unat v + (unat a - ?r)"
  proof -
    have "unat v + (unat a - ?r) = unat a * (unat v div unat a) + unat a"
      using mod_less_divisor [OF a, of "unat v"] mult_div_mod_eq [of "unat a" "unat v"] by linarith
    then show ?thesis by simp
  qed
  obtain k where k: "k = ?r" "k < unat a" using a by simp
  show "unat a dvd unat (align_up v a)"
    using dv by (cases "?r = 0") (simp_all add: eq mod_eq_0_iff_dvd)
  show "unat v \<le> unat (align_up v a)" "unat (align_up v a) < unat v + unat a"
    using k(2) a unfolding eq k(1) [symmetric] by (cases "k = 0"; simp)+
qed

text \<open>Payloads the 32-bit lengths of the format can describe.\<close>

definition payload_fits :: "bytes \<Rightarrow> bool" where
  "payload_fits payload \<longleftrightarrow> length payload < 2 ^ 32 - 64"

lemma record_lengths:
  assumes "payload_fits payload"
  shows "unat (of_nat (length payload) :: u32) = length payload"
    and "unat (of_nat sizeof_record_header + of_nat (length payload) :: u32) = 56 + length payload"
    and "unat (align_up (of_nat sizeof_record_header + of_nat (length payload)) DefaultRecordAlignment)
      = 56 + length payload + unat (record_padding payload)"
    and "unat (record_padding payload) < 8"
    and "8 dvd 56 + length payload + unat (record_padding payload)"
proof -
  let ?v = "of_nat sizeof_record_header + of_nat (length payload) :: u32"
  show len: "unat (of_nat (length payload) :: u32) = length payload"
    using assms by (simp add: payload_fits_def unat_of_nat)
  have "?v = of_nat (56 + length payload)" by (simp add: sizeof_record_header_def)
  then show v: "unat ?v = 56 + length payload"
    using assms by (simp only: unat_of_nat) (simp add: payload_fits_def)
  have a: "DefaultRecordAlignment \<noteq> 0" "unat DefaultRecordAlignment = 8"
    by (simp_all add: DefaultRecordAlignment_def)
  have "unat ?v + unat DefaultRecordAlignment < 2 ^ 32"
    using assms v a by (simp add: payload_fits_def)
  note al = align_up_bounds [OF a(1) this]
  have pad: "unat (record_padding payload) = unat (align_up ?v DefaultRecordAlignment) - unat ?v"
    using al(2) by (simp add: record_padding_def padding_for_def unat_sub word_le_nat_alt)
  show len2: "unat (align_up ?v DefaultRecordAlignment) = 56 + length payload + unat (record_padding payload)"
    using pad al(2) v by simp
  show "unat (record_padding payload) < 8" using pad al(3) a v by simp
  show "8 dvd 56 + length payload + unat (record_padding payload)"
    using al(1) a len2 by simp
qed

section \<open>Readers accept the layout\<close>

lemma make_header_fields [simp]:
  "rh_stream_id (make_header s e pb t payload q) = s"
  "rh_epoch (make_header s e pb t payload q) = e"
  "rh_sequence (make_header s e pb t payload q) = q"
  "rh_record_type (make_header s e pb t payload q) = t"
  "rh_payload_length (make_header s e pb t payload q) = of_nat (length payload)"
  "rh_payload_crc (make_header s e pb t payload q) = calculate_crc32 payload"
  by (simp_all add: make_header_def Let_def)

lemma make_header_crc:
  "rh_header_crc (make_header s e pb t payload q) = calculate_record_header_crc (make_header s e pb t payload q)"
  by (simp add: make_header_def Let_def calculate_record_header_crc_def)

lemma make_header_valid:
  assumes "payload_fits payload"
  shows "record_header_valid (make_header s e pb t payload q)"
proof -
  let ?l = "align_up (of_nat sizeof_record_header + of_nat (length payload)) DefaultRecordAlignment"
  have "of_nat sizeof_record_header \<le> ?l"
    using record_lengths(3) [OF assms] by (simp add: word_le_nat_alt sizeof_record_header_def)
  moreover have "?l mod DefaultRecordAlignment = 0"
  proof -
    have "unat (?l mod DefaultRecordAlignment) = unat ?l mod 8"
      by (simp add: unat_mod DefaultRecordAlignment_def)
    also have "\<dots> = 0" using record_lengths(3,5) [OF assms] by simp
    finally show ?thesis by (metis unat_eq_zero)
  qed
  ultimately show ?thesis
    by (simp add: record_header_valid_def make_header_def Let_def)
qed

text \<open>The padding the readers compute in 64 bits from the two length fields.\<close>

definition padding_after :: "WalRecordHeader \<Rightarrow> u64" where
  "padding_after header =
     ucast (rh_record_length header) - of_nat sizeof_record_header - ucast (rh_payload_length header)"

lemma padding_after_make_header:
  assumes "payload_fits payload"
  shows "padding_after (make_header s e pb t payload q) = of_nat (unat (record_padding payload))"
proof -
  let ?l = "align_up (of_nat sizeof_record_header + of_nat (length payload)) DefaultRecordAlignment"
  have "rh_record_length (make_header s e pb t payload q) = ?l"
    by (simp add: make_header_def Let_def)
  moreover have "(ucast ?l :: u64) = of_nat (56 + length payload + unat (record_padding payload))"
    unfolding record_lengths(3) [OF assms, symmetric] by simp
  moreover have "(ucast (of_nat (length payload) :: u32) :: u64) = of_nat (length payload)"
  proof -
    have "(ucast (x :: u32) :: u64) = of_nat (unat x)" for x by simp
    then have "(ucast (of_nat (length payload) :: u32) :: u64) = of_nat (unat (of_nat (length payload) :: u32))"
      by blast
    then show ?thesis by (simp only: record_lengths(1) [OF assms])
  qed
  ultimately show ?thesis
    by (simp add: padding_after_def sizeof_record_header_def)
qed

lemma make_segment_header_crc:
  "sh_header_crc (make_segment_header s e f) = calculate_segment_header_crc (make_segment_header s e f)"
  by (simp add: make_segment_header_def Let_def calculate_segment_header_crc_def)

lemma make_segment_header_fields [simp]:
  "sh_stream_id (make_segment_header s e f) = s" "sh_epoch (make_segment_header s e f) = e"
  "sh_first_sequence (make_segment_header s e f) = f"
  by (simp_all add: make_segment_header_def Let_def)

lemma make_segment_header_valid:
  "segment_header_valid (make_segment_header s e f) \<longleftrightarrow> s \<noteq> 0 \<and> e \<noteq> 0 \<and> f \<noteq> 0"
  by (simp add: segment_header_valid_def make_segment_header_def Let_def default_segment_header_def
      sizeof_segment_header_def)

lemma length_record_bytes:
  "length (record_bytes s e pb t payload q) = 56 + length payload + unat (record_padding payload)"
  by (simp add: record_bytes_def record_header_codec.length_encode sizeof_record_header_def)

text \<open>Records without padding: their length is already aligned.\<close>

lemma record_padding_zero:
  assumes "payload_fits payload"
  shows "record_padding payload = 0 \<longleftrightarrow> 8 dvd length payload"
proof -
  have "8 dvd 56 + length payload + unat (record_padding payload)" "unat (record_padding payload) < 8"
    using record_lengths(4,5) [OF assms] by auto
  then have "unat (record_padding payload) = 0 \<longleftrightarrow> 8 dvd length payload"
    by presburger
  then show ?thesis by (simp add: unat_eq_0)
qed

end
