(* ===== verification/WalScanner.thy ===== *)
theory WalScanner
  imports WalRecord "HOL-Library.Sublist"
begin

text \<open>
  \<open>WalSegmentScanner::scan\<close>: one pass over a segment that reports the last valid position and
  offset, and distinguishes an incomplete trailing record from a corrupted one.
\<close>

section \<open>The scanner\<close>

record WalSegmentScanResult =
  scan_ok :: bool
  scan_error :: WalError
  scan_last_valid_position :: WalPosition
  scan_last_valid_offset :: u64
  scan_has_incomplete_trailing_record :: bool

definition empty_scan_result :: WalSegmentScanResult where
  "empty_scan_result =
     \<lparr>scan_ok = False, scan_error = NoError, scan_last_valid_position = no_position,
      scan_last_valid_offset = 0, scan_has_incomplete_trailing_record = False\<rparr>"

definition incomplete_tail :: "WalSegmentScanResult \<Rightarrow> u64 \<Rightarrow> WalSegmentScanResult" where
  "incomplete_tail result record_offset =
     result\<lparr>scan_ok := False, scan_error := IncompleteTrailingRecord,
            scan_last_valid_offset := record_offset, scan_has_incomplete_trailing_record := True\<rparr>"

definition corrupted_record :: "WalSegmentScanResult \<Rightarrow> u64 \<Rightarrow> WalSegmentScanResult" where
  "corrupted_record result record_offset =
     result\<lparr>scan_ok := False, scan_error := CorruptedMiddleRecord,
            scan_last_valid_offset := record_offset\<rparr>"

text \<open>
  One round of the loop: \<open>Inl\<close> is a \<open>return\<close>, \<open>Inr\<close> the stream and the result at the end of the
  body. \<open>record_offset\<close> is the value of \<open>tellg\<close> cast to 64 unsigned bits.
\<close>

definition scan_record ::
  "bytes \<Rightarrow> WalSegmentHeader \<Rightarrow> ifstream \<Rightarrow> u64 \<Rightarrow> WalSegmentScanResult \<Rightarrow>
   WalSegmentScanResult + (ifstream \<times> WalSegmentScanResult)" where
  "scan_record content segment_header file expected_sequence result =
     (let (offset, f0) = stream_tellg file;
          record_offset = of_int offset :: u64;
          (header_bytes, f1) = stream_read content f0 sizeof_record_header
      in if i_gcount f1 = 0 \<and> i_eof f1 then Inl (result\<lparr>scan_last_valid_offset := record_offset\<rparr>)
         else if i_gcount f1 \<noteq> sizeof_record_header then Inl (incomplete_tail result record_offset)
         else
           (let header = decode_record_header header_bytes in
            if \<not> record_header_valid header
               \<or> rh_header_crc header \<noteq> calculate_record_header_crc header
               \<or> rh_stream_id header \<noteq> sh_stream_id segment_header
               \<or> rh_epoch header \<noteq> sh_epoch segment_header
               \<or> rh_sequence header \<noteq> expected_sequence
            then Inl (corrupted_record result record_offset)
            else
              (let (payload, f2) =
                     (if rh_payload_length header \<noteq> 0
                      then stream_read content f1 (unat (rh_payload_length header)) else ([], f1))
               in if rh_payload_length header \<noteq> 0 \<and> i_gcount f2 \<noteq> unat (rh_payload_length header)
                  then Inl (incomplete_tail result record_offset)
                  else if calculate_crc32 payload \<noteq> rh_payload_crc header
                  then Inl (corrupted_record result record_offset)
                  else
                    (let padding = padding_after header;
                         f3 = (if padding \<noteq> 0 then stream_ignore content f2 (sint padding) else f2)
                     in if padding \<noteq> 0 \<and> \<not> stream_ok f3
                        then Inl (incomplete_tail result record_offset)
                        else
                          (let (end_offset, f4) = stream_tellg f3
                           in Inr (f4, result
                                \<lparr>scan_last_valid_position :=
                                   \<lparr>pos_stream_id = rh_stream_id header, pos_epoch = rh_epoch header,
                                    pos_sequence = rh_sequence header\<rparr>,
                                 scan_last_valid_offset := of_int end_offset\<rparr>))))))"

text \<open>Every round that does not return has consumed a record header.\<close>

lemma stream_tellg_pos [simp]: "i_pos (snd (stream_tellg i)) = i_pos i"
  by (simp add: stream_tellg_def Let_def)

lemma stream_ignore_pos: "i_pos i \<le> i_pos (stream_ignore content i n)"
  by (simp add: stream_ignore_def Let_def)

lemma stream_read_pos: "i_pos i \<le> i_pos (snd (stream_read content i n))"
  by (simp add: stream_read_def Let_def)

lemma stream_read_gcount:
  "0 < n \<Longrightarrow> i_gcount (snd (stream_read content i n)) = n \<Longrightarrow>
   i_pos (snd (stream_read content i n)) = i_pos i + n \<and> i_pos i + n \<le> length content"
  by (auto simp: stream_read_def Let_def min_def split: if_splits)

lemma scan_record_progress:
  assumes "scan_record content h file s r = Inr (file', r')"
  shows "i_pos file < i_pos file' \<and> i_pos file < length content"
proof -
  obtain o0 f0 where t0: "stream_tellg file = (o0, f0)" by (cases "stream_tellg file")
  obtain hb f1 where r1: "stream_read content f0 sizeof_record_header = (hb, f1)"
    by (cases "stream_read content f0 sizeof_record_header")
  let ?h = "decode_record_header hb"
  obtain pl f2 where r2: "(if rh_payload_length ?h \<noteq> 0
      then stream_read content f1 (unat (rh_payload_length ?h)) else ([], f1)) = (pl, f2)"
    by (cases "if rh_payload_length ?h \<noteq> 0
      then stream_read content f1 (unat (rh_payload_length ?h)) else ([], f1)")
  let ?f3 = "if padding_after ?h \<noteq> 0 then stream_ignore content f2 (sint (padding_after ?h)) else f2"
  have g: "i_gcount f1 = sizeof_record_header" and f': "file' = snd (stream_tellg ?f3)"
    using assms unfolding scan_record_def t0 Let_def prod.case r1 r2
    by (auto split: if_splits prod.splits)
  have "i_pos f1 = i_pos file + 56" "i_pos file + 56 \<le> length content"
    using stream_read_gcount [of sizeof_record_header content f0] g r1 stream_tellg_pos [of "file"] t0
    by (auto simp: sizeof_record_header_def)
  moreover have "i_pos f1 \<le> i_pos f2"
    using r2 stream_read_pos [of f1 content] by (metis order_refl snd_conv)
  moreover have "i_pos f2 \<le> i_pos ?f3" using stream_ignore_pos by simp
  ultimately show ?thesis by (simp add: f')
qed

function scan_loop ::
  "bytes \<Rightarrow> WalSegmentHeader \<Rightarrow> ifstream \<Rightarrow> u64 \<Rightarrow> WalSegmentScanResult \<Rightarrow> WalSegmentScanResult" where
  "scan_loop content segment_header file expected_sequence result =
     (case scan_record content segment_header file expected_sequence result of
        Inl final \<Rightarrow> final
      | Inr (file', result') \<Rightarrow>
          scan_loop content segment_header file' (expected_sequence + 1) result')"
  by pat_completeness auto

termination scan_loop
  by (relation "measure (\<lambda>(content, h, file, s, r). length content - i_pos file)")
    (auto dest: scan_record_progress)

declare scan_loop.simps [simp del]

definition scan_segment :: "bytes option \<Rightarrow> WalSegmentScanResult" where
  "scan_segment file =
     (case file of
        None \<Rightarrow> empty_scan_result\<lparr>scan_error := CannotOpenFile\<rparr>
      | Some content \<Rightarrow>
          (let (header_bytes, f) = stream_read content (ifstream_open file) sizeof_segment_header;
               segment_header = decode_segment_header header_bytes
           in if i_gcount f \<noteq> sizeof_segment_header \<or> \<not> segment_header_valid segment_header
              then empty_scan_result\<lparr>scan_error := InvalidSegmentHeader\<rparr>
              else if sh_header_crc segment_header \<noteq> calculate_segment_header_crc segment_header
              then empty_scan_result\<lparr>scan_error := HeaderChecksumMismatch\<rparr>
              else scan_loop content segment_header f (sh_first_sequence segment_header)
                     (empty_scan_result
                        \<lparr>scan_ok := True, scan_last_valid_offset := of_nat sizeof_segment_header\<rparr>)))"

section \<open>Logs\<close>

text \<open>A record with its header padding bytes, type and payload; a log numbers them from \<open>q\<close>.\<close>

type_synonym log_record = "u32 \<times> u32 \<times> bytes"

fun log_bytes :: "u64 \<Rightarrow> u64 \<Rightarrow> u64 \<Rightarrow> log_record list \<Rightarrow> bytes" where
  "log_bytes s e q [] = []"
| "log_bytes s e q ((pb, t, payload) # rs) = record_bytes s e pb t payload q @ log_bytes s e (q + 1) rs"

definition segment_bytes :: "u64 \<Rightarrow> u64 \<Rightarrow> u64 \<Rightarrow> log_record list \<Rightarrow> bytes" where
  "segment_bytes s e first rs =
     encode_segment_header (make_segment_header s e first) @ log_bytes s e first rs"

definition record_fits :: "log_record \<Rightarrow> bool" where
  "record_fits r \<longleftrightarrow> payload_fits (snd (snd r))"

lemma log_bytes_append: "log_bytes s e q (rs @ rs') = log_bytes s e q rs @ log_bytes s e (q + of_nat (length rs)) rs'"
  by (induction s e q rs rule: log_bytes.induct) (auto simp: algebra_simps)

lemma stream_tellg_good: "stream_good i \<Longrightarrow> stream_tellg i = (int (i_pos i), i)"
  by (simp add: stream_tellg_def stream_good_def)

text \<open>A stream in good state at a position.\<close>

definition at :: "nat \<Rightarrow> ifstream \<Rightarrow> bool" where
  "at n i \<longleftrightarrow> stream_good i \<and> i_pos i = n"

lemma atI [simp]: "at n \<lparr>i_pos = n, i_eof = False, i_fail = False, i_gcount = g\<rparr>"
  by (simp add: at_def)

lemma stream_read_at:
  assumes "at n i" "drop n content = bs @ rest" "length bs = k"
  obtains i' where "stream_read content i k = (bs, i')" "at (n + k) i'" "i_gcount i' = k" "\<not> i_eof i'"
  using stream_read_exact [of i content bs rest k] assms by (auto simp: at_def)

lemma stream_read_end_at:
  assumes "at n i" "drop n content = tail" "length tail < k"
  shows "stream_read content i k =
    (tail, \<lparr>i_pos = n + length tail, i_eof = True, i_fail = True, i_gcount = length tail\<rparr>)"
  using assms by (simp add: at_def stream_read_def Let_def)

lemma stream_ignore_at:
  assumes "at n i" "drop n content = bs @ rest" "length bs = k"
  shows "at (n + k) (stream_ignore content i (int k))"
  using assms by (simp add: at_def stream_ignore_def)

lemma sint_of_nat_small: "n < 8 \<Longrightarrow> sint (of_nat n :: u64) = int n"
proof -
  assume "n < 8"
  then have "n = 0 \<or> n = 1 \<or> n = 2 \<or> n = 3 \<or> n = 4 \<or> n = 5 \<or> n = 6 \<or> n = 7" by arith
  then show "sint (of_nat n :: u64) = int n" by (elim disjE) simp_all
qed

lemma padding_after_facts:
  assumes fits: "payload_fits payload"
  shows "sint (padding_after (make_header s e pb t payload q)) = int (unat (record_padding payload))"
    and "padding_after (make_header s e pb t payload q) = 0 \<longleftrightarrow> unat (record_padding payload) = 0"
proof -
  let ?h = "make_header s e pb t payload q" and ?pad = "unat (record_padding payload)"
  have pad: "padding_after ?h = of_nat ?pad" by (rule padding_after_make_header [OF fits])
  show sp: "sint (padding_after ?h) = int ?pad"
    unfolding pad by (rule sint_of_nat_small [OF record_lengths(4) [OF fits]])
  show "padding_after ?h = 0 \<longleftrightarrow> ?pad = 0"
  proof
    assume "padding_after ?h = 0"
    then have "int ?pad = sint (0 :: u64)" using sp by metis
    then have "uint (record_padding payload) = 0" by simp
    then show "?pad = 0" by (simp add: unat_eq_nat_uint)
  next
    assume z: "?pad = 0"
    show "padding_after ?h = 0" unfolding pad z by simp
  qed
qed

text \<open>A record header that fits the segment: what is left to do with the payload behind it.\<close>

lemma scan_record_header:
  assumes i: "at n i" and c: "drop n content = encode_record_header (make_header s e pb t payload q) @ rest"
    and fits: "payload_fits payload" and h: "sh_stream_id h = s" "sh_epoch h = e"
  obtains f1 where "at (n + 56) f1" "drop (n + 56) content = rest"
    "scan_record content h i q r =
      (let header = make_header s e pb t payload q;
           (bytes, f2) = (if payload \<noteq> [] then stream_read content f1 (length payload) else ([], f1))
       in if payload \<noteq> [] \<and> i_gcount f2 \<noteq> length payload then Inl (incomplete_tail r (of_nat n))
          else if calculate_crc32 bytes \<noteq> rh_payload_crc header then Inl (corrupted_record r (of_nat n))
          else
            (let padding = padding_after header;
                 f3 = (if padding \<noteq> 0 then stream_ignore content f2 (sint padding) else f2)
             in if padding \<noteq> 0 \<and> \<not> stream_ok f3 then Inl (incomplete_tail r (of_nat n))
                else (let (end_offset, f4) = stream_tellg f3
                  in Inr (f4, r\<lparr>scan_last_valid_position := \<lparr>pos_stream_id = s, pos_epoch = e, pos_sequence = q\<rparr>,
                               scan_last_valid_offset := of_int end_offset\<rparr>))))"
proof -
  let ?h = "make_header s e pb t payload q"
  have tell: "stream_tellg i = (int n, i)" using i stream_tellg_good by (simp add: at_def)
  have leh: "length (encode_record_header ?h) = 56"
    by (simp add: record_header_codec.length_encode sizeof_record_header_def)
  obtain f1 where r1: "stream_read content i sizeof_record_header = (encode_record_header ?h, f1)"
    and f1: "at (n + 56) f1" "i_gcount f1 = 56" "\<not> i_eof f1"
    by (rule stream_read_at [OF i c, of 56]) (simp_all add: leh sizeof_record_header_def)
  have d1: "drop (n + 56) content = rest" using drop_advance [OF c] leh by simp
  have len: "unat (rh_payload_length ?h) = length payload"
    using record_lengths(1) [OF fits] by simp
  then have nz: "rh_payload_length ?h = 0 \<longleftrightarrow> payload = []"
    by (metis length_0_conv unat_0 unat_eq_zero)
  have c1: "(i_gcount f1 = 0 \<and> i_eof f1) = False" "(i_gcount f1 \<noteq> sizeof_record_header) = False"
    using f1 by (simp_all add: sizeof_record_header_def)
  have c2: "(\<not> record_header_valid ?h \<or> rh_header_crc ?h \<noteq> calculate_record_header_crc ?h
      \<or> rh_stream_id ?h \<noteq> sh_stream_id h \<or> rh_epoch ?h \<noteq> sh_epoch h \<or> rh_sequence ?h \<noteq> q) = False"
    using make_header_valid [OF fits] make_header_crc [of s e pb t payload q] h by simp
  show ?thesis
    by (rule that [OF f1(1) d1])
      (simp only: scan_record_def tell Let_def prod.case r1 record_header_codec.decode_encode
        c1 c2 len nz if_False, simp only: make_header_fields of_int_of_nat_eq)
qed

text \<open>A record up to the end of its payload: what is left to do with the padding behind it.\<close>

lemma scan_record_payload:
  assumes i: "at n i"
    and c: "drop n content = encode_record_header (make_header s e pb t payload q) @ payload @ rest"
    and fits: "payload_fits payload" and h: "sh_stream_id h = s" "sh_epoch h = e"
  obtains f2 where "at (n + 56 + length payload) f2" "drop (n + 56 + length payload) content = rest"
    "scan_record content h i q r =
      (let pad = unat (record_padding payload);
           f3 = (if pad \<noteq> 0 then stream_ignore content f2 (int pad) else f2)
       in if pad \<noteq> 0 \<and> \<not> stream_ok f3 then Inl (incomplete_tail r (of_nat n))
          else (let (end_offset, f4) = stream_tellg f3
            in Inr (f4, r\<lparr>scan_last_valid_position := \<lparr>pos_stream_id = s, pos_epoch = e, pos_sequence = q\<rparr>,
                         scan_last_valid_offset := of_int end_offset\<rparr>)))"
proof -
  obtain f1 where f1: "at (n + 56) f1" "drop (n + 56) content = payload @ rest"
    and step: "scan_record content h i q r = (let header = make_header s e pb t payload q;
           (bytes, f2) = (if payload \<noteq> [] then stream_read content f1 (length payload) else ([], f1))
       in if payload \<noteq> [] \<and> i_gcount f2 \<noteq> length payload then Inl (incomplete_tail r (of_nat n))
          else if calculate_crc32 bytes \<noteq> rh_payload_crc header then Inl (corrupted_record r (of_nat n))
          else
            (let padding = padding_after header;
                 f3 = (if padding \<noteq> 0 then stream_ignore content f2 (sint padding) else f2)
             in if padding \<noteq> 0 \<and> \<not> stream_ok f3 then Inl (incomplete_tail r (of_nat n))
                else (let (end_offset, f4) = stream_tellg f3
                  in Inr (f4, r\<lparr>scan_last_valid_position := \<lparr>pos_stream_id = s, pos_epoch = e, pos_sequence = q\<rparr>,
                               scan_last_valid_offset := of_int end_offset\<rparr>))))"
    by (rule scan_record_header [OF i c fits h])
  obtain f2 where r2: "(if payload \<noteq> [] then stream_read content f1 (length payload) else ([], f1)) = (payload, f2)"
    and f2: "at (n + 56 + length payload) f2" "payload \<noteq> [] \<longrightarrow> i_gcount f2 = length payload"
  proof (cases "payload = []")
    case True
    then show ?thesis using f1 by (intro that) auto
  next
    case False
    obtain f2 where "stream_read content f1 (length payload) = (payload, f2)"
      "at (n + 56 + length payload) f2" "i_gcount f2 = length payload"
      by (rule stream_read_at [OF f1]) auto
    then show ?thesis using False by (intro that) auto
  qed
  have d2: "drop (n + 56 + length payload) content = rest" using drop_advance [OF f1(2)] .
  have c3: "(payload \<noteq> [] \<and> i_gcount f2 \<noteq> length payload) = False" using f2(2) by blast
  show ?thesis
    by (rule that [OF f2(1) d2])
      (simp only: step r2 Let_def prod.case c3 make_header_fields padding_after_facts [OF fits] if_False simp_thms)
qed

lemma scan_record_ok:
  assumes i: "at n i" and c: "drop n content = record_bytes s e pb t payload q @ rest"
    and fits: "payload_fits payload" and h: "sh_stream_id h = s" "sh_epoch h = e"
  obtains i' where "scan_record content h i q r = Inr (i',
      r\<lparr>scan_last_valid_position := \<lparr>pos_stream_id = s, pos_epoch = e, pos_sequence = q\<rparr>,
        scan_last_valid_offset := of_nat (n + length (record_bytes s e pb t payload q))\<rparr>)"
    "at (n + length (record_bytes s e pb t payload q)) i'"
proof -
  let ?pad = "unat (record_padding payload)" and ?stop = "n + length (record_bytes s e pb t payload q)"
  have "drop n content =
      encode_record_header (make_header s e pb t payload q) @ payload @ replicate ?pad 0 @ rest"
    using c by (simp add: record_bytes_def)
  from scan_record_payload [OF i this fits h, of r] obtain f2 where
    f2: "at (n + 56 + length payload) f2" "drop (n + 56 + length payload) content = replicate ?pad 0 @ rest"
    and step: "scan_record content h i q r =
      (let f3 = (if ?pad \<noteq> 0 then stream_ignore content f2 (int ?pad) else f2)
       in if ?pad \<noteq> 0 \<and> \<not> stream_ok f3 then Inl (incomplete_tail r (of_nat n))
          else (let (end_offset, f4) = stream_tellg f3
            in Inr (f4, r\<lparr>scan_last_valid_position := \<lparr>pos_stream_id = s, pos_epoch = e, pos_sequence = q\<rparr>,
                         scan_last_valid_offset := of_int end_offset\<rparr>)))"
    unfolding Let_def by blast
  let ?f3 = "if ?pad \<noteq> 0 then stream_ignore content f2 (int ?pad) else f2"
  have f3: "at ?stop ?f3"
    using f2(1) stream_ignore_at [OF f2, of ?pad] by (simp add: length_record_bytes add.assoc)
  then have "stream_ok ?f3" "stream_tellg ?f3 = (int ?stop, ?f3)"
    using stream_tellg_good by (auto simp: at_def stream_ok_def stream_good_def)
  then have "scan_record content h i q r = Inr (?f3,
      r\<lparr>scan_last_valid_position := \<lparr>pos_stream_id = s, pos_epoch = e, pos_sequence = q\<rparr>,
        scan_last_valid_offset := of_nat ?stop\<rparr>)"
    unfolding step Let_def by (simp only: prod.case simp_thms if_False of_int_of_nat_eq)
  then show ?thesis by (rule that) (rule f3)
qed

text \<open>The result after a log whose last record ends at an offset.\<close>

definition scanned :: "u64 \<Rightarrow> u64 \<Rightarrow> u64 \<Rightarrow> log_record list \<Rightarrow> nat \<Rightarrow> WalSegmentScanResult \<Rightarrow> WalSegmentScanResult" where
  "scanned s e q rs offset r =
     (if rs = [] then r
      else r\<lparr>scan_last_valid_position :=
               \<lparr>pos_stream_id = s, pos_epoch = e, pos_sequence = q + of_nat (length rs) - 1\<rparr>,
             scan_last_valid_offset := of_nat offset\<rparr>)"

lemma scan_loop_records:
  assumes "at n i" "drop n content = log_bytes s e q rs @ rest"
    and "list_all record_fits rs" "sh_stream_id h = s" "sh_epoch h = e"
  obtains i' where "scan_loop content h i q r =
      scan_loop content h i' (q + of_nat (length rs))
        (scanned s e q rs (n + length (log_bytes s e q rs)) r)"
    "at (n + length (log_bytes s e q rs)) i'"
proof -
  have "\<exists>i'. scan_loop content h i q r =
      scan_loop content h i' (q + of_nat (length rs))
        (scanned s e q rs (n + length (log_bytes s e q rs)) r) \<and>
    at (n + length (log_bytes s e q rs)) i'"
    using assms
  proof (induction rs arbitrary: n i q r)
    case Nil
    then show ?case by (auto simp: scanned_def)
  next
    case (Cons x rs)
    obtain pb t payload where x: "x = (pb, t, payload)" by (cases x)
    let ?rb = "record_bytes s e pb t payload q"
    let ?r = "r\<lparr>scan_last_valid_position := \<lparr>pos_stream_id = s, pos_epoch = e, pos_sequence = q\<rparr>,
        scan_last_valid_offset := of_nat (n + length ?rb)\<rparr>"
    have c: "drop n content = ?rb @ log_bytes s e (q + 1) rs @ rest"
      using Cons.prems(2) x by simp
    have "payload_fits payload" using Cons.prems(3) x by (simp add: record_fits_def)
    then obtain i1 where 1: "scan_record content h i q r = Inr (i1, ?r)" and i1: "at (n + length ?rb) i1"
      using scan_record_ok [OF Cons.prems(1) c _ Cons.prems(4,5), of r] by blast
    have "drop (n + length ?rb) content = log_bytes s e (q + 1) rs @ rest"
      using drop_advance [OF c] .
    from Cons.IH [OF i1 this _ Cons.prems(4,5), of ?r] Cons.prems(3)
    obtain i' where 2: "scan_loop content h i1 (q + 1) ?r =
        scan_loop content h i' (q + 1 + of_nat (length rs))
          (scanned s e (q + 1) rs (n + length ?rb + length (log_bytes s e (q + 1) rs)) ?r)"
      and i': "at (n + length ?rb + length (log_bytes s e (q + 1) rs)) i'" by auto
    have "scan_loop content h i q r = scan_loop content h i1 (q + 1) ?r"
      by (subst scan_loop.simps) (simp add: 1)
    moreover have "scanned s e (q + 1) rs (n + length ?rb + length (log_bytes s e (q + 1) rs)) ?r =
        scanned s e q (x # rs) (n + length (log_bytes s e q (x # rs))) r"
      by (simp add: scanned_def x algebra_simps)
    ultimately show ?case
      using 2 i' by (intro exI [of _ i']) (simp add: x add.assoc)
  qed
  then show ?thesis using that by blast
qed

text \<open>The end of the file right behind a record ends the scan.\<close>

lemma scan_loop_end:
  assumes "at n i" "drop n content = []"
  shows "scan_loop content h i q r = r\<lparr>scan_last_valid_offset := of_nat n\<rparr>"
proof -
  have "stream_read content i sizeof_record_header =
      ([], \<lparr>i_pos = n, i_eof = True, i_fail = True, i_gcount = 0\<rparr>)"
    using stream_read_end_at [OF assms, of sizeof_record_header] by (simp add: sizeof_record_header_def)
  moreover have "stream_tellg i = (int n, i)"
    using assms(1) stream_tellg_good by (simp add: at_def)
  ultimately show ?thesis
    by (subst scan_loop.simps) (simp add: scan_record_def)
qed

text \<open>A record that is cut off before its padding is reported with the offset where it starts.\<close>

text \<open>A part of some bytes that holds a beginning of them whole.\<close>

lemma length_encoded_header: "length (encode_record_header h) = 56"
  by (simp add: record_header_codec.length_encode sizeof_record_header_def)

lemma torn_behind:
  assumes "prefix tail (xs @ ys)" "length xs \<le> length tail"
  obtains z where "tail = xs @ z" "prefix z ys"
  using assms by (metis prefix_append prefix_length_prefix same_prefix_prefix prefix_def)

lemma scan_loop_torn:
  assumes i: "at n i" and tail: "drop n content = tail" "tail \<noteq> []"
    and torn: "prefix tail (record_bytes s e pb t payload q)" "length tail < 56 + length payload"
    and fits: "payload_fits payload" and h: "sh_stream_id h = s" "sh_epoch h = e"
  shows "scan_loop content h i q r = incomplete_tail r (of_nat n)"
proof (cases "length tail < 56")
  case True
  then have "stream_read content i sizeof_record_header =
      (tail, \<lparr>i_pos = n + length tail, i_eof = True, i_fail = True, i_gcount = length tail\<rparr>)"
    using stream_read_end_at [OF i tail(1)] by (simp add: sizeof_record_header_def)
  moreover have "stream_tellg i = (int n, i)" using i stream_tellg_good by (simp add: at_def)
  ultimately show ?thesis
    using tail(2) True by (subst scan_loop.simps) (simp add: scan_record_def sizeof_record_header_def)
next
  case False
  let ?eh = "encode_record_header (make_header s e pb t payload q)"
  have "prefix tail (?eh @ payload @ replicate (unat (record_padding payload)) 0)"
    using torn(1) by (simp add: record_bytes_def)
  then obtain p where p: "tail = ?eh @ p"
    by (rule torn_behind) (use False in \<open>simp add: length_encoded_header\<close>)
  then have less: "length p < length payload" using torn(2) by (simp add: length_encoded_header)
  obtain f1 where f1: "at (n + 56) f1" "drop (n + 56) content = p"
    and step: "scan_record content h i q r = (let header = make_header s e pb t payload q;
           (bytes, f2) = (if payload \<noteq> [] then stream_read content f1 (length payload) else ([], f1))
       in if payload \<noteq> [] \<and> i_gcount f2 \<noteq> length payload then Inl (incomplete_tail r (of_nat n))
          else if calculate_crc32 bytes \<noteq> rh_payload_crc header then Inl (corrupted_record r (of_nat n))
          else
            (let padding = padding_after header;
                 f3 = (if padding \<noteq> 0 then stream_ignore content f2 (sint padding) else f2)
             in if padding \<noteq> 0 \<and> \<not> stream_ok f3 then Inl (incomplete_tail r (of_nat n))
                else (let (end_offset, f4) = stream_tellg f3
                  in Inr (f4, r\<lparr>scan_last_valid_position := \<lparr>pos_stream_id = s, pos_epoch = e, pos_sequence = q\<rparr>,
                               scan_last_valid_offset := of_int end_offset\<rparr>))))"
    by (rule scan_record_header [OF i _ fits h]) (use tail(1) p in simp)
  have "scan_record content h i q r = Inl (incomplete_tail r (of_nat n))"
    unfolding step using stream_read_end_at [OF f1 less] less by (auto simp: Let_def)
  then show ?thesis by (subst scan_loop.simps) simp
qed

section \<open>What a scan of a segment reports\<close>

definition log_position :: "u64 \<Rightarrow> u64 \<Rightarrow> u64 \<Rightarrow> log_record list \<Rightarrow> WalPosition" where
  "log_position s e first rs =
     (if rs = [] then no_position
      else \<lparr>pos_stream_id = s, pos_epoch = e, pos_sequence = first + of_nat (length rs) - 1\<rparr>)"

lemma scanned_start:
  "scanned s e first rs offset (empty_scan_result\<lparr>scan_ok := True, scan_last_valid_offset := of_nat n\<rparr>) =
     \<lparr>scan_ok = True, scan_error = NoError, scan_last_valid_position = log_position s e first rs,
      scan_last_valid_offset = of_nat (if rs = [] then n else offset),
      scan_has_incomplete_trailing_record = False\<rparr>"
  by (simp add: scanned_def log_position_def empty_scan_result_def)

lemma scan_segment_start:
  assumes "s \<noteq> 0" "e \<noteq> 0" "first \<noteq> 0" "list_all record_fits rs"
  obtains i where
    "scan_segment (Some (segment_bytes s e first rs @ tail)) =
       scan_loop (segment_bytes s e first rs @ tail) (make_segment_header s e first) i
         (first + of_nat (length rs))
         (scanned s e first rs (length (segment_bytes s e first rs))
            (empty_scan_result\<lparr>scan_ok := True, scan_last_valid_offset := of_nat sizeof_segment_header\<rparr>))"
    "at (length (segment_bytes s e first rs)) i"
proof -
  let ?h = "make_segment_header s e first"
  let ?c = "segment_bytes s e first rs @ tail"
  let ?r = "empty_scan_result\<lparr>scan_ok := True, scan_last_valid_offset := of_nat sizeof_segment_header\<rparr>"
  have leh: "length (encode_segment_header ?h) = 40"
    by (simp add: segment_header_codec.length_encode sizeof_segment_header_def)
  have start: "at 0 (ifstream_open (Some ?c))"
    by (simp add: at_def ifstream_open_def)
  obtain f where r: "stream_read ?c (ifstream_open (Some ?c)) sizeof_segment_header = (encode_segment_header ?h, f)"
    and f: "at 40 f" "i_gcount f = 40"
    by (rule stream_read_at [OF start, of ?c "encode_segment_header ?h" "log_bytes s e first rs @ tail" 40])
      (simp_all add: segment_bytes_def leh sizeof_segment_header_def)
  have d: "drop 40 ?c = log_bytes s e first rs @ tail"
    by (simp add: segment_bytes_def leh)
  have scan: "scan_segment (Some ?c) = scan_loop ?c ?h f first ?r"
    using assms(1-3) make_segment_header_crc [of s e first] make_segment_header_valid [of s e first] f
    by (simp add: scan_segment_def r Let_def segment_header_codec.decode_encode)
      (simp add: sizeof_segment_header_def)
  obtain i where "scan_loop ?c ?h f first ?r =
      scan_loop ?c ?h i (first + of_nat (length rs))
        (scanned s e first rs (40 + length (log_bytes s e first rs)) ?r)"
    "at (40 + length (log_bytes s e first rs)) i"
    by (rule scan_loop_records [OF f(1) d assms(4), of ?h ?r]) simp_all
  moreover have "length (segment_bytes s e first rs) = 40 + length (log_bytes s e first rs)"
    by (simp add: segment_bytes_def leh)
  ultimately show ?thesis
    using scan by (intro that [of i]) simp_all
qed

lemma length_segment_bytes_Nil: "length (segment_bytes s e first []) = sizeof_segment_header"
  by (simp add: segment_bytes_def segment_header_codec.length_encode)

lemma scan_complete_segment:
  assumes "s \<noteq> 0" "e \<noteq> 0" "first \<noteq> 0" "list_all record_fits rs"
  shows "scan_segment (Some (segment_bytes s e first rs)) =
    \<lparr>scan_ok = True, scan_error = NoError, scan_last_valid_position = log_position s e first rs,
     scan_last_valid_offset = of_nat (length (segment_bytes s e first rs)),
     scan_has_incomplete_trailing_record = False\<rparr>"
proof -
  obtain i where "scan_segment (Some (segment_bytes s e first rs @ [])) =
       scan_loop (segment_bytes s e first rs @ []) (make_segment_header s e first) i
         (first + of_nat (length rs))
         (scanned s e first rs (length (segment_bytes s e first rs))
            (empty_scan_result\<lparr>scan_ok := True, scan_last_valid_offset := of_nat sizeof_segment_header\<rparr>))"
    "at (length (segment_bytes s e first rs)) i"
    by (rule scan_segment_start [OF assms])
  then show ?thesis
    using scan_loop_end [of "length (segment_bytes s e first rs)" i "segment_bytes s e first rs"]
    by (simp add: scanned_start)
qed

lemma scan_torn_segment:
  assumes "s \<noteq> 0" "e \<noteq> 0" "first \<noteq> 0" "list_all record_fits rs"
    and "tail \<noteq> []" "prefix tail (record_bytes s e pb t payload (first + of_nat (length rs)))"
    and "length tail < 56 + length payload" "payload_fits payload"
  shows "scan_segment (Some (segment_bytes s e first rs @ tail)) =
    \<lparr>scan_ok = False, scan_error = IncompleteTrailingRecord,
     scan_last_valid_position = log_position s e first rs,
     scan_last_valid_offset = of_nat (length (segment_bytes s e first rs)),
     scan_has_incomplete_trailing_record = True\<rparr>"
proof -
  obtain i where i: "scan_segment (Some (segment_bytes s e first rs @ tail)) =
       scan_loop (segment_bytes s e first rs @ tail) (make_segment_header s e first) i
         (first + of_nat (length rs))
         (scanned s e first rs (length (segment_bytes s e first rs))
            (empty_scan_result\<lparr>scan_ok := True, scan_last_valid_offset := of_nat sizeof_segment_header\<rparr>))"
    "at (length (segment_bytes s e first rs)) i"
    by (rule scan_segment_start [OF assms(1-4)])
  show ?thesis
    unfolding i(1)
    by (subst scan_loop_torn [OF i(2) _ assms(5-8)])
      (simp_all add: scanned_start incomplete_tail_def)
qed

section \<open>A record cut off inside its padding\<close>

text \<open>
  \<open>ignore\<close> at the end of the file sets only \<open>eofbit\<close>, so the test for a failed stream behind it does
  not see a record whose padding is cut off: the record counts as valid, \<open>tellg\<close> then fails, and
  the scan reports success with the offset -1 cast to 64 unsigned bits.
\<close>

lemma scan_loop_torn_padding:
  assumes i: "at n i" and tail: "drop n content = tail"
    and torn: "prefix tail (record_bytes s e pb t payload q)" "56 + length payload \<le> length tail"
      "length tail < length (record_bytes s e pb t payload q)"
    and fits: "payload_fits payload" and h: "sh_stream_id h = s" "sh_epoch h = e"
  shows "scan_loop content h i q r =
    r\<lparr>scan_last_valid_position := \<lparr>pos_stream_id = s, pos_epoch = e, pos_sequence = q\<rparr>,
      scan_last_valid_offset := - 1\<rparr>"
proof -
  let ?pad = "unat (record_padding payload)"
    and ?eh = "encode_record_header (make_header s e pb t payload q)"
  have "prefix tail ((?eh @ payload) @ replicate ?pad 0)" using torn(1) by (simp add: record_bytes_def)
  then obtain z where z: "tail = (?eh @ payload) @ z"
    by (rule torn_behind) (use torn(2) in \<open>simp add: length_encoded_header\<close>)
  then have short: "length z < ?pad" using torn(3) by (simp add: length_record_bytes length_encoded_header)
  have "drop n content = ?eh @ payload @ z" using tail z by simp
  from scan_record_payload [OF i this fits h, of r] obtain f2 where
    f2: "at (n + 56 + length payload) f2" "drop (n + 56 + length payload) content = z"
    and step: "scan_record content h i q r =
      (let f3 = (if ?pad \<noteq> 0 then stream_ignore content f2 (int ?pad) else f2)
       in if ?pad \<noteq> 0 \<and> \<not> stream_ok f3 then Inl (incomplete_tail r (of_nat n))
          else (let (end_offset, f4) = stream_tellg f3
            in Inr (f4, r\<lparr>scan_last_valid_position := \<lparr>pos_stream_id = s, pos_epoch = e, pos_sequence = q\<rparr>,
                         scan_last_valid_offset := of_int end_offset\<rparr>)))"
    unfolding Let_def by blast
  obtain g where f3: "stream_ignore content f2 (int ?pad) =
      \<lparr>i_pos = n + 56 + length payload + length z, i_eof = True, i_fail = False, i_gcount = g\<rparr>"
    using f2 short by (auto simp: stream_ignore_def at_def Let_def)
  let ?f4 = "\<lparr>i_pos = n + 56 + length payload + length z, i_eof = True, i_fail = True, i_gcount = g\<rparr>"
  let ?r = "r\<lparr>scan_last_valid_position := \<lparr>pos_stream_id = s, pos_epoch = e, pos_sequence = q\<rparr>,
      scan_last_valid_offset := - 1\<rparr>"
  have nz: "?pad \<noteq> 0" using short by linarith
  then have "scan_record content h i q r = Inr (?f4, ?r)"
    unfolding step by (simp add: f3 Let_def stream_ok_def stream_tellg_def del: of_nat_unat)
  moreover have "scan_record content h ?f4 (q + 1) ?r = Inl ?r"
    by (simp add: scan_record_def stream_tellg_def stream_read_def Let_def)
  ultimately show ?thesis
    by (subst scan_loop.simps, simp) (subst scan_loop.simps, simp)
qed

lemma scan_torn_padding_segment:
  assumes "s \<noteq> 0" "e \<noteq> 0" "first \<noteq> 0" "list_all record_fits rs"
    and "prefix tail (record_bytes s e pb t payload (first + of_nat (length rs)))"
    and "56 + length payload \<le> length tail"
      "length tail < length (record_bytes s e pb t payload (first + of_nat (length rs)))"
    and "payload_fits payload"
  shows "scan_segment (Some (segment_bytes s e first rs @ tail)) =
    \<lparr>scan_ok = True, scan_error = NoError,
     scan_last_valid_position = \<lparr>pos_stream_id = s, pos_epoch = e, pos_sequence = first + of_nat (length rs)\<rparr>,
     scan_last_valid_offset = - 1, scan_has_incomplete_trailing_record = False\<rparr>"
proof -
  obtain i where i: "scan_segment (Some (segment_bytes s e first rs @ tail)) =
       scan_loop (segment_bytes s e first rs @ tail) (make_segment_header s e first) i
         (first + of_nat (length rs))
         (scanned s e first rs (length (segment_bytes s e first rs))
            (empty_scan_result\<lparr>scan_ok := True, scan_last_valid_offset := of_nat sizeof_segment_header\<rparr>))"
    "at (length (segment_bytes s e first rs)) i"
    by (rule scan_segment_start [OF assms(1-4)])
  show ?thesis
    unfolding i(1)
    by (subst scan_loop_torn_padding [OF i(2) _ assms(5-8)]) (simp_all add: scanned_start)
qed

end
