(* ===== verification/WalReader.thy ===== *)
theory WalReader
  imports WalScanner
begin

text \<open>
  \<open>WalSegmentReader\<close>: opening a segment and reading its records one by one. The bytes of the file
  are an argument of every operation, so that a reader at the end of the log can go on when more
  has been written.
\<close>

section \<open>The reader\<close>

record WalRecordView =
  view_header :: WalRecordHeader
  view_payload :: bytes

record WalSegmentReader =
  rd_file :: ifstream
  rd_segment_header :: WalSegmentHeader
  rd_last_position :: WalPosition
  rd_open_result :: WalReadResult
  rd_payload_buffer :: bytes

definition read_failed :: "WalError \<Rightarrow> WalPosition \<Rightarrow> WalReadResult" where
  "read_failed error position =
     \<lparr>read_status = WalReadFailed, read_error = error, read_position = position\<rparr>"

definition record_read :: "WalPosition \<Rightarrow> WalReadResult" where
  "record_read position =
     \<lparr>read_status = WalRecordRead, read_error = NoError, read_position = position\<rparr>"

definition read_segment_header :: "bytes \<Rightarrow> WalSegmentReader \<Rightarrow> WalReadResult \<times> WalSegmentReader" where
  "read_segment_header content r =
     (let (header_bytes, f) = stream_read content (rd_file r) sizeof_segment_header;
          r1 = r\<lparr>rd_file := f\<rparr>
      in if \<not> stream_ok f then (read_failed CannotReadFile (rd_last_position r), r1)
         else
           (let r2 = r1\<lparr>rd_segment_header := decode_segment_header header_bytes\<rparr> in
            if \<not> segment_header_valid (rd_segment_header r2)
            then (read_failed InvalidSegmentHeader (rd_last_position r), r2)
            else if sh_header_crc (rd_segment_header r2)
                    \<noteq> calculate_segment_header_crc (rd_segment_header r2)
            then (read_failed HeaderChecksumMismatch (rd_last_position r), r2)
            else (record_read (rd_last_position r), r2)))"

text \<open>The constructor.\<close>

definition new_segment_reader :: "bytes option \<Rightarrow> WalSegmentReader" where
  "new_segment_reader file =
     (let r = \<lparr>rd_file = ifstream_open file, rd_segment_header = default_segment_header,
               rd_last_position = no_position,
               rd_open_result = read_failed CannotReadFile no_position, rd_payload_buffer = []\<rparr>
      in case file of
           None \<Rightarrow> r\<lparr>rd_open_result := read_failed CannotOpenFile no_position\<rparr>
         | Some content \<Rightarrow>
             (case read_segment_header content r of (result, r') \<Rightarrow> r'\<lparr>rd_open_result := result\<rparr>))"

definition read_record_header ::
  "bytes \<Rightarrow> WalSegmentReader \<Rightarrow> WalReadResult \<times> WalRecordHeader \<times> WalSegmentReader" where
  "read_record_header content r =
     (let (header_bytes, f) = stream_read content (rd_file r) sizeof_record_header;
          header = decode_record_header header_bytes;
          r1 = r\<lparr>rd_file := f\<rparr>;
          position = rd_last_position r
      in if i_gcount f = 0 \<and> i_eof f
         then (\<lparr>read_status = WalReadEnd, read_error = WalEndOfLog, read_position = position\<rparr>,
               header, r1\<lparr>rd_file := stream_clear f\<rparr>)
         else if i_gcount f \<noteq> sizeof_record_header
         then (read_failed IncompleteTrailingRecord position, header, r1)
         else if \<not> record_header_valid header
         then (read_failed InvalidRecordHeader position, header, r1)
         else if rh_header_crc header \<noteq> calculate_record_header_crc header
         then (read_failed HeaderChecksumMismatch position, header, r1)
         else if rh_stream_id header \<noteq> sh_stream_id (rd_segment_header r)
                 \<or> rh_epoch header \<noteq> sh_epoch (rd_segment_header r)
         then (read_failed InvalidRecordHeader position, header, r1)
         else
           (let expected_sequence =
                  (if position_is_valid position then pos_sequence position + 1
                   else sh_first_sequence (rd_segment_header r))
            in if rh_sequence header \<noteq> expected_sequence
               then (read_failed UnexpectedSequence position, header, r1)
               else (record_read \<lparr>pos_stream_id = rh_stream_id header, pos_epoch = rh_epoch header,
                                  pos_sequence = rh_sequence header\<rparr>, header, r1)))"

definition read_payload ::
  "bytes \<Rightarrow> WalSegmentReader \<Rightarrow> WalRecordHeader \<Rightarrow> WalReadResult \<times> WalSegmentReader" where
  "read_payload content r header =
     (let (got, f) = (if rh_payload_length header \<noteq> 0
                      then stream_read content (rd_file r) (unat (rh_payload_length header))
                      else ([], rd_file r));
          missing = replicate (unat (rh_payload_length header) - length got) 0;
          r1 = r\<lparr>rd_file := f, rd_payload_buffer := got @ missing\<rparr>
      in if rh_payload_length header \<noteq> 0 \<and> i_gcount f \<noteq> unat (rh_payload_length header)
         then (read_failed IncompleteTrailingRecord (rd_last_position r), r1)
         else if calculate_crc32 (rd_payload_buffer r1) \<noteq> rh_payload_crc header
         then (read_failed PayloadChecksumMismatch (rd_last_position r), r1)
         else (record_read \<lparr>pos_stream_id = rh_stream_id header, pos_epoch = rh_epoch header,
                            pos_sequence = rh_sequence header\<rparr>, r1))"

text \<open>\<open>read_next\<close>: the view is filled only when a record was read.\<close>

definition segment_read_next ::
  "bytes \<Rightarrow> WalSegmentReader \<Rightarrow> WalReadResult \<times> WalRecordView option \<times> WalSegmentReader" where
  "segment_read_next content r =
     (if read_status (rd_open_result r) \<noteq> WalRecordRead then (rd_open_result r, None, r)
      else if \<not> stream_ok (rd_file r) then (read_failed CannotReadFile (rd_last_position r), None, r)
      else (case read_record_header content r of (header_result, header, r1) \<Rightarrow>
        if read_status header_result \<noteq> WalRecordRead then (header_result, None, r1)
        else (case read_payload content r1 header of (payload_result, r2) \<Rightarrow>
          if read_status payload_result \<noteq> WalRecordRead then (payload_result, None, r2)
          else
            (let padding = padding_after header;
                 r3 = (if padding \<noteq> 0
                       then r2\<lparr>rd_file := stream_ignore content (rd_file r2) (sint padding)\<rparr>
                       else r2)
             in if padding \<noteq> 0 \<and> \<not> stream_ok (rd_file r3)
                then (read_failed CannotReadFile (rd_last_position r3), None, r3)
                else
                  (let r4 = r3\<lparr>rd_last_position :=
                              \<lparr>pos_stream_id = rh_stream_id header, pos_epoch = rh_epoch header,
                               pos_sequence = rh_sequence header\<rparr>\<rparr>
                   in (record_read (rd_last_position r4),
                       Some \<lparr>view_header = header, view_payload = rd_payload_buffer r4\<rparr>, r4))))))"

definition segment_reader_last_position :: "WalSegmentReader \<Rightarrow> WalPosition" where
  "segment_reader_last_position r = rd_last_position r"

section \<open>Reading a log\<close>

text \<open>A reader that stands behind \<open>k\<close> records of a segment.\<close>

definition stands_behind ::
  "bytes \<Rightarrow> u64 \<Rightarrow> u64 \<Rightarrow> u64 \<Rightarrow> WalPosition \<Rightarrow> bytes \<Rightarrow> WalSegmentReader \<Rightarrow> bool" where
  "stands_behind content s e next position rest r \<longleftrightarrow>
     read_status (rd_open_result r) = WalRecordRead \<and>
     (\<exists>n. at n (rd_file r) \<and> drop n content = rest) \<and>
     sh_stream_id (rd_segment_header r) = s \<and> sh_epoch (rd_segment_header r) = e \<and>
     rd_last_position r = position \<and>
     (if position_is_valid (rd_last_position r) then pos_sequence (rd_last_position r) + 1
      else sh_first_sequence (rd_segment_header r)) = next"

lemma read_record_header_ok:
  assumes r: "stands_behind content s e q position (record_bytes s e pb t payload q @ rest) r"
    and fits: "payload_fits payload"
  obtains f n where "read_record_header content r =
      (record_read \<lparr>pos_stream_id = s, pos_epoch = e, pos_sequence = q\<rparr>,
       make_header s e pb t payload q, r\<lparr>rd_file := f\<rparr>)"
    "at n f" "drop n content = payload @ replicate (unat (record_padding payload)) 0 @ rest"
proof -
  let ?h = "make_header s e pb t payload q"
  let ?rest = "payload @ replicate (unat (record_padding payload)) 0 @ rest"
  obtain n where i: "at n (rd_file r)" and "drop n content = record_bytes s e pb t payload q @ rest"
    using r unfolding stands_behind_def by blast
  then have d: "drop n content = encode_record_header ?h @ ?rest"
    by (simp add: record_bytes_def)
  have leh: "length (encode_record_header ?h) = 56"
    by (simp add: record_header_codec.length_encode sizeof_record_header_def)
  obtain f where "stream_read content (rd_file r) 56 = (encode_record_header ?h, f)"
    and f: "at (n + 56) f" "i_gcount f = 56" "\<not> i_eof f"
    by (rule stream_read_at [OF i d leh])
  then have r1: "stream_read content (rd_file r) sizeof_record_header = (encode_record_header ?h, f)"
    by (simp add: sizeof_record_header_def)
  have d1: "drop (n + 56) content = ?rest" using drop_advance [OF d] leh by simp
  have exp: "(if position_is_valid (rd_last_position r) then pos_sequence (rd_last_position r) + 1
      else sh_first_sequence (rd_segment_header r)) = q"
    and h: "sh_stream_id (rd_segment_header r) = s" "sh_epoch (rd_segment_header r) = e"
    using r unfolding stands_behind_def by blast+
  have c1: "(i_gcount f = 0 \<and> i_eof f) = False" "(i_gcount f \<noteq> sizeof_record_header) = False"
    using f by (simp_all add: sizeof_record_header_def)
  have c2: "(rh_header_crc ?h \<noteq> calculate_record_header_crc ?h) = False"
    using make_header_crc [of s e pb t payload q] by simp
  have "read_record_header content r =
      (record_read \<lparr>pos_stream_id = s, pos_epoch = e, pos_sequence = q\<rparr>, ?h, r\<lparr>rd_file := f\<rparr>)"
    by (simp only: read_record_header_def r1 Let_def prod.case record_header_codec.decode_encode
        c1 c2 exp h make_header_valid [OF fits] make_header_fields simp_thms if_False if_True)
  then show ?thesis using f(1) d1 by (rule that)
qed

lemma read_payload_ok:
  assumes "at n (rd_file r)" "drop n content = payload @ rest" "payload_fits payload"
  obtains f where "read_payload content r (make_header s e pb t payload q) =
      (record_read \<lparr>pos_stream_id = s, pos_epoch = e, pos_sequence = q\<rparr>,
       r\<lparr>rd_file := f, rd_payload_buffer := payload\<rparr>)"
    "at (n + length payload) f"
proof -
  let ?h = "make_header s e pb t payload q"
  have len: "unat (rh_payload_length ?h) = length payload"
    using record_lengths(1) [OF assms(3)] by simp
  obtain f where r2: "(if rh_payload_length ?h \<noteq> 0
      then stream_read content (rd_file r) (unat (rh_payload_length ?h)) else ([], rd_file r)) = (payload, f)"
    and f: "at (n + length payload) f"
    and g: "rh_payload_length ?h \<noteq> 0 \<longrightarrow> i_gcount f = unat (rh_payload_length ?h)"
  proof (cases "payload = []")
    case True
    then show ?thesis using assms(1) by (intro that) auto
  next
    case False
    then have nz: "rh_payload_length ?h \<noteq> 0" using len by (metis length_0_conv unat_0)
    obtain f where "stream_read content (rd_file r) (length payload) = (payload, f)"
      "at (n + length payload) f" "i_gcount f = length payload"
      by (rule stream_read_at [OF assms(1,2)]) auto
    then show ?thesis using nz len by (intro that) auto
  qed
  have c: "(rh_payload_length ?h \<noteq> 0 \<and> i_gcount f \<noteq> unat (rh_payload_length ?h)) = False"
    using g by blast
  have "read_payload content r ?h =
      (record_read \<lparr>pos_stream_id = s, pos_epoch = e, pos_sequence = q\<rparr>,
       r\<lparr>rd_file := f, rd_payload_buffer := payload\<rparr>)"
    by (simp only: read_payload_def r2 Let_def prod.case c if_False) (simp add: len del: make_header_fields(5))
  then show ?thesis using f by (rule that)
qed

lemma record_read_status [simp]:
  "read_status (record_read p) = WalRecordRead" "read_status (read_failed e p) = WalReadFailed"
  "read_position (record_read p) = p"
  by (simp_all add: record_read_def read_failed_def)

lemma segment_read_next_ok:
  assumes r: "stands_behind content s e q position (record_bytes s e pb t payload q @ rest) r"
    and fits: "payload_fits payload" and nz: "s \<noteq> 0" "e \<noteq> 0" "q \<noteq> 0"
  obtains r' where "segment_read_next content r =
      (record_read \<lparr>pos_stream_id = s, pos_epoch = e, pos_sequence = q\<rparr>,
       Some \<lparr>view_header = make_header s e pb t payload q, view_payload = payload\<rparr>, r')"
    "stands_behind content s e (q + 1) \<lparr>pos_stream_id = s, pos_epoch = e, pos_sequence = q\<rparr> rest r'"
proof -
  let ?h = "make_header s e pb t payload q"
  let ?p = "\<lparr>pos_stream_id = s, pos_epoch = e, pos_sequence = q\<rparr>"
  let ?pad = "unat (record_padding payload)"
  obtain f n where h: "read_record_header content r = (record_read ?p, ?h, r\<lparr>rd_file := f\<rparr>)"
    and f: "at n f" and d: "drop n content = payload @ replicate ?pad 0 @ rest"
    by (rule read_record_header_ok [OF r fits])
  obtain f2 where pl: "read_payload content (r\<lparr>rd_file := f\<rparr>) ?h =
      (record_read ?p, r\<lparr>rd_file := f2, rd_payload_buffer := payload\<rparr>)"
    and f2: "at (n + length payload) f2"
    using read_payload_ok [of n "r\<lparr>rd_file := f\<rparr>" content payload _ s e pb t q] f d fits by auto
  have d2: "drop (n + length payload) content = replicate ?pad 0 @ rest" using drop_advance [OF d] .
  let ?f3 = "if padding_after ?h \<noteq> 0 then stream_ignore content f2 (sint (padding_after ?h)) else f2"
  have f3: "at (n + length payload + ?pad) ?f3"
    using f2 stream_ignore_at [OF f2 d2, of ?pad] padding_after_facts [OF fits, of s e pb t q]
    by (cases "?pad = 0") simp_all
  have d3: "drop (n + length payload + ?pad) content = rest"
    using drop_advance [OF d2] by simp
  have opn: "(read_status (rd_open_result r) \<noteq> WalRecordRead) = False" "stream_ok (rd_file r) = True"
    using r unfolding stands_behind_def at_def by (auto simp: stream_ok_def stream_good_def)
  let ?r' = "r\<lparr>rd_file := ?f3, rd_payload_buffer := payload, rd_last_position := ?p\<rparr>"
  have ok3: "stream_ok ?f3" using f3 by (simp add: at_def stream_ok_def stream_good_def)
  have "segment_read_next content r =
      (record_read ?p, Some \<lparr>view_header = ?h, view_payload = payload\<rparr>, ?r')"
  proof (cases "padding_after ?h = 0")
    case True
    then show ?thesis
      by (simp only: segment_read_next_def opn h pl prod.case record_read_status Let_def simp_thms
          if_False if_True) simp
  next
    case False
    then show ?thesis using ok3
      by (simp only: segment_read_next_def opn h pl prod.case record_read_status Let_def simp_thms
          if_False if_True) simp
  qed
  moreover have "stands_behind content s e (q + 1) ?p rest ?r'"
    using r f3 d3 nz unfolding stands_behind_def by (auto simp: position_is_valid_def)
  ultimately show ?thesis by (rule that)
qed

text \<open>At the end of the log the reader says so, and can be asked again.\<close>

lemma segment_read_next_end:
  assumes r: "stands_behind content s e q position [] r"
  shows "fst (segment_read_next content r) =
      \<lparr>read_status = WalReadEnd, read_error = WalEndOfLog, read_position = position\<rparr>"
    and "stands_behind content s e q position [] (snd (snd (segment_read_next content r)))"
proof -
  obtain n where i: "at n (rd_file r)" and d: "drop n content = []"
    using r unfolding stands_behind_def by blast
  let ?f = "\<lparr>i_pos = n, i_eof = True, i_fail = True, i_gcount = 0\<rparr>"
  have rd: "stream_read content (rd_file r) sizeof_record_header = ([], ?f)"
    using stream_read_end_at [OF i d, of sizeof_record_header] by (simp add: sizeof_record_header_def)
  have opn: "read_status (rd_open_result r) = WalRecordRead" "stream_ok (rd_file r)"
    "rd_last_position r = position"
    using r unfolding stands_behind_def at_def by (auto simp: stream_ok_def stream_good_def)
  have eq: "segment_read_next content r =
      (\<lparr>read_status = WalReadEnd, read_error = WalEndOfLog, read_position = position\<rparr>, None,
       r\<lparr>rd_file := stream_clear ?f\<rparr>)"
    using opn by (simp add: segment_read_next_def read_record_header_def rd Let_def)
  show "fst (segment_read_next content r) =
      \<lparr>read_status = WalReadEnd, read_error = WalEndOfLog, read_position = position\<rparr>"
    by (simp add: eq)
  have "at n (stream_clear ?f)" by (simp add: at_def stream_clear_def stream_good_def)
  then show "stands_behind content s e q position [] (snd (snd (segment_read_next content r)))"
    using r d by (auto simp: eq stands_behind_def)
qed

lemma new_segment_reader_rest:
  assumes "s \<noteq> 0" "e \<noteq> 0" "first \<noteq> 0"
  shows "stands_behind (segment_bytes s e first rs @ rest) s e first no_position (log_bytes s e first rs @ rest)
    (new_segment_reader (Some (segment_bytes s e first rs @ rest)))"
proof -
  let ?h = "make_segment_header s e first"
  let ?c = "segment_bytes s e first rs @ rest"
  have leh: "length (encode_segment_header ?h) = 40"
    by (simp add: segment_header_codec.length_encode sizeof_segment_header_def)
  have start: "at 0 (ifstream_open (Some ?c))"
    by (simp add: at_def ifstream_open_def)
  obtain f where "stream_read ?c (ifstream_open (Some ?c)) 40 = (encode_segment_header ?h, f)"
    and f: "at 40 f"
    by (rule stream_read_at [OF start, of ?c "encode_segment_header ?h" "log_bytes s e first rs @ rest" 40])
      (simp_all add: segment_bytes_def leh)
  then have r: "stream_read ?c (ifstream_open (Some ?c)) sizeof_segment_header = (encode_segment_header ?h, f)"
    by (simp add: sizeof_segment_header_def)
  have d: "drop 40 ?c = log_bytes s e first rs @ rest" by (simp add: segment_bytes_def leh)
  have ok: "stream_ok f" using f by (simp add: at_def stream_ok_def stream_good_def)
  show ?thesis
    using assms ok f d make_segment_header_crc [of s e first] make_segment_header_valid [of s e first]
    by (auto simp: new_segment_reader_def read_segment_header_def r Let_def stands_behind_def
        segment_header_codec.decode_encode no_position_def position_is_valid_def)
qed

lemma new_segment_reader_log:
  assumes "s \<noteq> 0" "e \<noteq> 0" "first \<noteq> 0"
  shows "stands_behind (segment_bytes s e first rs) s e first no_position (log_bytes s e first rs)
    (new_segment_reader (Some (segment_bytes s e first rs)))"
  using new_segment_reader_rest [OF assms, of rs "[]"] by simp

end
