(* ===== verification/WalWriter.thy ===== *)
theory WalWriter
  imports WalReader
begin

text \<open>
  \<open>WalSegmentWriter\<close> and \<open>WalFile\<close>: opening or creating a segment, appending records, committing
  them, and the queue of committed positions. The file system and the writer are the state; a
  constructor that throws is \<open>None\<close>. The argument \<open>outcomes\<close> decides which operations the device
  lets through.
\<close>

section \<open>WalFile\<close>

definition ensure_parent_directory_exists :: "file_system \<Rightarrow> path \<Rightarrow> file_system option" where
  "ensure_parent_directory_exists fs file_path =
     (let parent = butlast file_path
      in if parent \<noteq> [] then create_directories fs parent else Some fs)"

definition wal_file_exists :: "file_system \<Rightarrow> path \<Rightarrow> bool" where
  "wal_file_exists fs file_path \<longleftrightarrow> fs file_path \<noteq> None"

text \<open>\<open>file_size\<close> of a directory throws.\<close>

definition wal_file_size :: "file_system \<Rightarrow> path \<Rightarrow> nat option" where
  "wal_file_size fs file_path =
     (if \<not> wal_file_exists fs file_path then Some 0
      else map_option length (file_bytes fs file_path))"

text \<open>\<open>resize_file\<close> cuts the file or fills it up with zero bytes.\<close>

definition wal_file_truncate :: "file_system \<Rightarrow> path \<Rightarrow> nat \<Rightarrow> file_system option" where
  "wal_file_truncate fs file_path new_size =
     (case file_bytes fs file_path of
        None \<Rightarrow> None
      | Some bs \<Rightarrow> Some (fs(file_path \<mapsto> RegularFile (take new_size bs @ replicate (new_size - length bs) 0))))"

section \<open>The writer\<close>

record WalSegmentWriter =
  w_file_path :: path
  w_file :: ofstream
  w_stream_id :: u64
  w_epoch :: u64
  w_next_sequence :: u64
  w_last_position :: WalPosition
  w_last_committed_position :: WalPosition
  w_writer_error :: WalError
  w_pending_positions :: "WalPosition list"
  w_committed_positions :: "WalPosition list"

definition fail_writer :: "WalError \<Rightarrow> WalSegmentWriter \<Rightarrow> WalSegmentWriter" where
  "fail_writer error w = (if w_writer_error w = NoError then w\<lparr>w_writer_error := error\<rparr> else w)"

text \<open>\<open>read_existing_segment_header\<close>, on the bytes of the file.\<close>

definition read_existing_segment_header :: "bytes option \<Rightarrow> WalError \<times> WalSegmentHeader" where
  "read_existing_segment_header file =
     (case file of
        None \<Rightarrow> (CannotOpenFile, default_segment_header)
      | Some content \<Rightarrow>
          (let (header_bytes, f) = stream_read content (ifstream_open file) sizeof_segment_header
           in if i_gcount f \<noteq> sizeof_segment_header then (InvalidSegmentHeader, default_segment_header)
              else
                (let header = decode_segment_header header_bytes in
                 if \<not> segment_header_valid header then (InvalidSegmentHeader, header)
                 else if sh_header_crc header \<noteq> calculate_segment_header_crc header
                 then (HeaderChecksumMismatch, header)
                 else (NoError, header))))"

definition prepare_existing_segment ::
  "file_system \<Rightarrow> u64 \<Rightarrow> WalSegmentWriter \<Rightarrow> (WalError \<times> WalSegmentWriter \<times> file_system) option" where
  "prepare_existing_segment fs first_sequence w =
     (case read_existing_segment_header (file_bytes fs (w_file_path w)) of (header_error, segment_header) \<Rightarrow>
        if header_error \<noteq> NoError then Some (header_error, w, fs)
        else if sh_stream_id segment_header \<noteq> w_stream_id w
                \<or> sh_epoch segment_header \<noteq> w_epoch w
                \<or> sh_first_sequence segment_header \<noteq> first_sequence
        then Some (InvalidSegmentHeader, w, fs)
        else
          (let scan_result = scan_segment (file_bytes fs (w_file_path w)) in
           if \<not> scan_ok scan_result \<and> scan_error scan_result \<noteq> IncompleteTrailingRecord
           then Some (scan_error scan_result, w, fs)
           else
             (case (if scan_error scan_result = IncompleteTrailingRecord
                    then wal_file_truncate fs (w_file_path w) (unat (scan_last_valid_offset scan_result))
                    else Some fs) of
                None \<Rightarrow> None
              | Some fs' \<Rightarrow>
                  (let w1 = w\<lparr>w_last_position := scan_last_valid_position scan_result\<rparr>;
                       w2 = w1\<lparr>w_last_committed_position := w_last_position w1\<rparr>;
                       w3 = w2\<lparr>w_next_sequence :=
                              (if position_is_valid (w_last_position w2)
                               then pos_sequence (w_last_position w2) + 1
                               else sh_first_sequence segment_header)\<rparr>
                   in Some (NoError, w3, fs')))))"

definition write_segment_header :: "WalSegmentWriter \<Rightarrow> WalSegmentWriter" where
  "write_segment_header w =
     w\<lparr>w_file := stream_write
         (encode_segment_header (make_segment_header (w_stream_id w) (w_epoch w) (w_next_sequence w)))
         (w_file w)\<rparr>"

text \<open>The constructor.\<close>

definition new_segment_writer ::
  "file_system \<Rightarrow> device_outcome list \<Rightarrow> path \<Rightarrow> u64 \<Rightarrow> u64 \<Rightarrow> u64 \<Rightarrow>
   (WalSegmentWriter \<times> file_system) option" where
  "new_segment_writer fs outcomes file_path stream_id epoch first_sequence =
     (let w = \<lparr>w_file_path = file_path, w_file = closed_ofstream outcomes, w_stream_id = stream_id,
               w_epoch = epoch, w_next_sequence = first_sequence, w_last_position = no_position,
               w_last_committed_position = no_position, w_writer_error = NoError,
               w_pending_positions = [], w_committed_positions = []\<rparr>
      in case ensure_parent_directory_exists fs file_path of
           None \<Rightarrow> None
         | Some fs1 \<Rightarrow>
             if is_directory fs1 file_path then Some (fail_writer CannotWriteFile w, fs1)
             else
               (let should_write_header =
                      (\<not> wal_file_exists fs1 file_path \<or> wal_file_size fs1 file_path = Some 0)
                in case (if \<not> should_write_header then prepare_existing_segment fs1 first_sequence w
                         else Some (NoError, w, fs1)) of
                     None \<Rightarrow> None
                   | Some (error, w1, fs2) \<Rightarrow>
                       (let w2 = w1\<lparr>w_writer_error := error\<rparr> in
                        if error \<noteq> NoError then Some (w2, fs2)
                        else
                          (let (file, fs3) = ofstream_open fs2 file_path (w_file w2);
                               w3 = w2\<lparr>w_file := file\<rparr>;
                               w4 = (if should_write_header
                                     then (let w5 = write_segment_header w3
                                           in if o_fail (w_file w5) then fail_writer CannotWriteFile w5
                                              else w5)
                                     else w3)
                           in Some (w4, fs3)))))"

text \<open>The destructor flushes, and the member \<open>file_\<close> is closed after it.\<close>

definition close_segment_writer :: "file_system \<Rightarrow> WalSegmentWriter \<Rightarrow> file_system" where
  "close_segment_writer fs w =
     (case (if o_open (w_file w) then stream_flush fs (w_file_path w) (w_file w) else (w_file w, fs)) of
        (file, fs') \<Rightarrow> stream_close fs' (w_file_path w) file)"

text \<open>\<open>write_record\<close>; the payload and the padding are only written when there are any.\<close>

definition write_record :: "u32 \<Rightarrow> u32 \<Rightarrow> bytes \<Rightarrow> WalSegmentWriter \<Rightarrow> WalAppendResult \<times> WalSegmentWriter" where
  "write_record padding_bytes record_type payload w =
     (let header = make_header (w_stream_id w) (w_epoch w) padding_bytes record_type payload (w_next_sequence w);
          f1 = stream_write (encode_record_header header) (w_file w);
          f2 = (if payload \<noteq> [] then stream_write payload f1 else f1);
          padding = record_padding payload;
          f3 = (if padding \<noteq> 0 then stream_write (replicate (unat padding) 0) f2 else f2);
          w1 = w\<lparr>w_file := f3\<rparr>
      in if o_fail f3
         then (\<lparr>append_status = AppendFailed, append_error = CannotWriteFile,
                append_position = w_last_position w\<rparr>, fail_writer CannotWriteFile w1)
         else
           (let position = \<lparr>pos_stream_id = w_stream_id w, pos_epoch = w_epoch w,
                            pos_sequence = w_next_sequence w\<rparr>;
                w2 = w1\<lparr>w_next_sequence := w_next_sequence w + 1, w_last_position := position,
                        w_pending_positions := w_pending_positions w @ [position]\<rparr>
            in (\<lparr>append_status = Appended, append_error = NoError, append_position = position\<rparr>, w2)))"

definition segment_append :: "u32 \<Rightarrow> u32 \<Rightarrow> bytes \<Rightarrow> WalSegmentWriter \<Rightarrow> WalAppendResult \<times> WalSegmentWriter" where
  "segment_append padding_bytes record_type payload w =
     (if w_writer_error w \<noteq> NoError
      then (\<lparr>append_status = AppendFailed, append_error = w_writer_error w,
             append_position = w_last_position w\<rparr>, w)
      else if o_fail (w_file w)
      then (\<lparr>append_status = AppendFailed, append_error = CannotWriteFile,
             append_position = w_last_position w\<rparr>, fail_writer CannotWriteFile w)
      else write_record padding_bytes record_type payload w)"

text \<open>The loop of \<open>commit\<close> moves the pending positions to the queue in order.\<close>

fun publish_positions :: "WalPosition list \<Rightarrow> WalSegmentWriter \<Rightarrow> WalSegmentWriter" where
  "publish_positions [] w = w"
| "publish_positions (position # rest) w =
     publish_positions rest
       (w\<lparr>w_last_committed_position := position,
          w_committed_positions := w_committed_positions w @ [position]\<rparr>)"

definition segment_commit ::
  "file_system \<Rightarrow> WalSegmentWriter \<Rightarrow> WalCommitResult \<times> WalSegmentWriter \<times> file_system" where
  "segment_commit fs w =
     (if w_writer_error w \<noteq> NoError
      then (\<lparr>commit_status = CommitFailed, commit_error = w_writer_error w,
             committed_up_to = w_last_position w\<rparr>, w, fs)
      else
        (let (file, fs') = stream_flush fs (w_file_path w) (w_file w);
             w1 = w\<lparr>w_file := file\<rparr>
         in if o_fail file
            then (\<lparr>commit_status = CommitFailed, commit_error = CannotFlushFile,
                   committed_up_to = w_last_position w\<rparr>, fail_writer CannotFlushFile w1, fs')
            else
              (let w2 = (publish_positions (w_pending_positions w1) w1)\<lparr>w_pending_positions := []\<rparr>
               in (\<lparr>commit_status = Committed, commit_error = NoError,
                    committed_up_to = w_last_committed_position w2\<rparr>, w2, fs'))))"

definition segment_last_position :: "WalSegmentWriter \<Rightarrow> WalPosition" where
  "segment_last_position w = w_last_position w"

definition segment_last_committed_position :: "WalSegmentWriter \<Rightarrow> WalPosition" where
  "segment_last_committed_position w = w_last_committed_position w"

definition has_committed_position :: "WalSegmentWriter \<Rightarrow> bool" where
  "has_committed_position w \<longleftrightarrow> w_committed_positions w \<noteq> []"

definition pending_count :: "WalSegmentWriter \<Rightarrow> nat" where
  "pending_count w = length (w_pending_positions w)"

definition committed_queue_size :: "WalSegmentWriter \<Rightarrow> nat" where
  "committed_queue_size w = length (w_committed_positions w)"

definition pop_committed_position :: "WalSegmentWriter \<Rightarrow> WalPosition option \<times> WalSegmentWriter" where
  "pop_committed_position w =
     (case w_committed_positions w of
        [] \<Rightarrow> (None, w)
      | position # rest \<Rightarrow> (Some position, w\<lparr>w_committed_positions := rest\<rparr>))"

end
