(* ===== verification/WalSession.thy ===== *)
theory WalSession
  imports WalWriter
begin

text \<open>
  A session with one segment writer: any sequence of appends, commits and pops, on a device that may
  stop at any write or flush. The session remembers which records the writer accepted and which it
  reported as committed; the invariant relates them to the bytes of the file and to the queues.
\<close>

section \<open>What the streams do\<close>

text \<open>\<open>wrote out bs out'\<close>: some of \<open>bs\<close>, and all of it unless the stream failed, went to the buffer.\<close>

definition wrote :: "ofstream \<Rightarrow> bytes \<Rightarrow> ofstream \<Rightarrow> bool" where
  "wrote out bs out' \<longleftrightarrow>
     o_open out' = o_open out \<and> (o_fail out \<longrightarrow> o_fail out' \<and> o_buffer out' = o_buffer out) \<and>
     (\<exists>part. prefix part bs \<and> o_buffer out' = o_buffer out @ part \<and> (\<not> o_fail out' \<longrightarrow> part = bs))"

lemma wrote_nothing: "wrote out [] out"
  by (simp add: wrote_def)

lemma wrote_write: "wrote out bs (stream_write bs out)"
  by (auto simp: wrote_def stream_write_def take_is_prefix split: prod.splits device_outcome.splits)

lemma wrote_append:
  assumes "wrote out bs out'" "wrote out' cs out''"
  shows "wrote out (bs @ cs) out''"
proof -
  obtain p where p: "prefix p bs" "o_buffer out' = o_buffer out @ p" "\<not> o_fail out' \<longrightarrow> p = bs"
    using assms(1) unfolding wrote_def by blast
  obtain r where r: "prefix r cs" "o_buffer out'' = o_buffer out' @ r" "\<not> o_fail out'' \<longrightarrow> r = cs"
    using assms(2) unfolding wrote_def by blast
  have same: "o_open out' = o_open out" "o_open out'' = o_open out'"
    and f: "o_fail out \<Longrightarrow> o_fail out' \<and> o_buffer out' = o_buffer out"
      "o_fail out' \<Longrightarrow> o_fail out'' \<and> o_buffer out'' = o_buffer out'"
    using assms unfolding wrote_def by blast+
  show ?thesis
  proof (cases "o_fail out'")
    case True
    have "prefix p (bs @ cs)" using p(1) by (simp add: prefix_prefix)
    then show ?thesis using same f True p(2) unfolding wrote_def by auto
  next
    case False
    then have "prefix (p @ r) (bs @ cs)" "o_buffer out'' = o_buffer out @ p @ r"
      "\<not> o_fail out'' \<longrightarrow> p @ r = bs @ cs"
      using p r by auto
    then show ?thesis using same f False unfolding wrote_def by blast
  qed
qed

lemma flush_bytes:
  assumes "file_bytes fs p = Some disk"
  obtains disk' where "file_bytes (snd (stream_flush fs p out)) p = Some disk'" "prefix disk disk'"
    "disk' @ o_buffer (fst (stream_flush fs p out)) = disk @ o_buffer out"
    "\<not> o_fail (fst (stream_flush fs p out)) \<Longrightarrow> o_open out \<Longrightarrow>
       disk' = disk @ o_buffer out \<and> o_buffer (fst (stream_flush fs p out)) = []"
proof (cases "o_fail out \<or> \<not> o_open out")
  case True
  then show ?thesis using assms by (intro that [of disk]) (auto simp: stream_flush_def)
next
  case False
  obtain outcome rest where n: "next_outcome (o_outcomes out) = (outcome, rest)"
    by (cases "next_outcome (o_outcomes out)")
  show ?thesis
  proof (cases outcome)
    case Accepts
    then show ?thesis using False n assms file_bytes_append_to_file [OF assms]
      by (intro that [of "disk @ o_buffer out"]) (auto simp: stream_flush_def)
  next
    case (Stops k)
    then show ?thesis using False n assms file_bytes_append_to_file [OF assms]
      by (intro that [of "disk @ take k (o_buffer out)"]) (auto simp: stream_flush_def)
  qed
qed

lemma flush_open [simp]: "o_open (fst (stream_flush fs p out)) = o_open out"
  by (simp add: stream_flush_def split: prod.splits device_outcome.splits)

lemma flush_fail: "\<not> o_fail (fst (stream_flush fs p out)) \<Longrightarrow> \<not> o_fail out"
  by (auto simp: stream_flush_def split: if_splits)

lemma close_bytes:
  assumes "file_bytes fs p = Some disk"
  obtains disk' where "file_bytes (stream_close fs p out) p = Some disk'" "prefix disk disk'"
    "prefix disk' (disk @ o_buffer out)"
proof (cases "o_open out")
  case False
  then show ?thesis using assms by (intro that [of disk]) (auto simp: stream_close_def)
next
  case True
  obtain outcome rest where n: "next_outcome (o_outcomes out) = (outcome, rest)"
    by (cases "next_outcome (o_outcomes out)")
  show ?thesis
  proof (cases outcome)
    case Accepts
    then show ?thesis using True n file_bytes_append_to_file [OF assms]
      by (intro that [of "disk @ o_buffer out"]) (auto simp: stream_close_def)
  next
    case (Stops k)
    then show ?thesis using True n file_bytes_append_to_file [OF assms]
      by (intro that [of "disk @ take k (o_buffer out)"]) (auto simp: stream_close_def take_is_prefix)
  qed
qed

section \<open>Sessions\<close>

datatype writer_op = Append u32 u32 bytes | Commit | Pop

record wal_session =
  ses_files :: file_system
  ses_writer :: WalSegmentWriter
  ses_accepted :: "log_record list"
  ses_committed :: "log_record list"
  ses_popped :: "WalPosition list"

text \<open>The records behind the writer count as accepted and committed when the session starts.\<close>

definition start_session :: "log_record list \<Rightarrow> file_system \<Rightarrow> WalSegmentWriter \<Rightarrow> wal_session" where
  "start_session rs fs w =
     \<lparr>ses_files = fs, ses_writer = w, ses_accepted = rs, ses_committed = rs, ses_popped = []\<rparr>"

fun session_step :: "writer_op \<Rightarrow> wal_session \<Rightarrow> wal_session" where
  "session_step (Append pb t payload) x =
     (case segment_append pb t payload (ses_writer x) of (result, w) \<Rightarrow>
        x\<lparr>ses_writer := w,
          ses_accepted := (if append_status result = Appended then ses_accepted x @ [(pb, t, payload)]
                           else ses_accepted x)\<rparr>)"
| "session_step Commit x =
     (case segment_commit (ses_files x) (ses_writer x) of (result, w, fs) \<Rightarrow>
        x\<lparr>ses_files := fs, ses_writer := w,
          ses_committed := (if commit_status result = Committed then ses_accepted x
                            else ses_committed x)\<rparr>)"
| "session_step Pop x =
     (case pop_committed_position (ses_writer x) of
        (None, w) \<Rightarrow> x\<lparr>ses_writer := w\<rparr>
      | (Some position, w) \<Rightarrow> x\<lparr>ses_writer := w, ses_popped := ses_popped x @ [position]\<rparr>)"

definition run_session :: "writer_op list \<Rightarrow> wal_session \<Rightarrow> wal_session" where
  "run_session ops x = fold session_step ops x"

text \<open>\<open>good\<close> is what is known of the appended records.\<close>

fun op_good :: "(log_record \<Rightarrow> bool) \<Rightarrow> writer_op \<Rightarrow> bool" where
  "op_good good (Append pb t payload) = good (pb, t, payload)"
| "op_good good Commit = True"
| "op_good good Pop = True"

definition positions :: "u64 \<Rightarrow> u64 \<Rightarrow> u64 \<Rightarrow> nat \<Rightarrow> WalPosition list" where
  "positions s e q n =
     map (\<lambda>i. \<lparr>pos_stream_id = s, pos_epoch = e, pos_sequence = q + of_nat i\<rparr>) [0..<n]"

lemma positions_0 [simp]: "positions s e q 0 = []"
  by (simp add: positions_def)

lemma positions_Suc:
  "positions s e q (Suc n) =
     positions s e q n @ [\<lparr>pos_stream_id = s, pos_epoch = e, pos_sequence = q + of_nat n\<rparr>]"
  by (simp add: positions_def)

lemma positions_add: "positions s e q (m + n) = positions s e q m @ positions s e (q + of_nat m) n"
  by (induction n) (simp_all add: positions_Suc add.assoc)

lemma last_positions:
  "last (positions s e q (Suc n)) = \<lparr>pos_stream_id = s, pos_epoch = e, pos_sequence = q + of_nat n\<rparr>"
  by (simp add: positions_Suc)

lemma segment_bytes_snoc:
  "segment_bytes s e first (rs @ [(pb, t, payload)]) =
     segment_bytes s e first rs @ record_bytes s e pb t payload (first + of_nat (length rs))"
  by (simp add: segment_bytes_def log_bytes_append)

lemma segment_bytes_append:
  "segment_bytes s e first (rs @ rs') =
     segment_bytes s e first rs @ log_bytes s e (first + of_nat (length rs)) rs'"
  by (simp add: segment_bytes_def log_bytes_append)

lemma prefix_segment_bytes: "prefix rs rs' \<Longrightarrow> prefix (segment_bytes s e first rs) (segment_bytes s e first rs')"
  by (auto simp: prefix_def segment_bytes_append)

section \<open>The invariant of a session\<close>

text \<open>
  \<open>base\<close> records were in the segment when the writer was opened. The bytes on the device and in the
  buffer are a prefix of a log that goes on with the accepted records; while the writer works they
  are exactly these records, and what was committed is on the device.
\<close>

definition on_disk :: "(log_record \<Rightarrow> bool) \<Rightarrow> path \<Rightarrow> u64 \<Rightarrow> u64 \<Rightarrow> u64 \<Rightarrow> wal_session \<Rightarrow> bool" where
  "on_disk good p s e first x \<longleftrightarrow>
     (\<exists>disk more. file_bytes (ses_files x) p = Some disk \<and>
        list_all good (ses_accepted x @ more) \<and>
        prefix (disk @ o_buffer (w_file (ses_writer x))) (segment_bytes s e first (ses_accepted x @ more)) \<and>
        (ses_committed x \<noteq> [] \<longrightarrow> prefix (segment_bytes s e first (ses_committed x)) disk) \<and>
        (w_writer_error (ses_writer x) = NoError \<and> \<not> o_fail (w_file (ses_writer x)) \<longrightarrow>
           o_open (w_file (ses_writer x)) \<and>
           disk @ o_buffer (w_file (ses_writer x)) = segment_bytes s e first (ses_accepted x)))"

definition counters_ok :: "nat \<Rightarrow> path \<Rightarrow> u64 \<Rightarrow> u64 \<Rightarrow> u64 \<Rightarrow> wal_session \<Rightarrow> bool" where
  "counters_ok base p s e first x \<longleftrightarrow>
     (let w = ses_writer x in
      w_file_path w = p \<and> w_stream_id w = s \<and> w_epoch w = e \<and>
      w_next_sequence w = first + of_nat (length (ses_accepted x)) \<and>
      w_last_position w = log_position s e first (ses_accepted x) \<and>
      w_last_committed_position w = log_position s e first (ses_committed x) \<and>
      prefix (ses_committed x) (ses_accepted x) \<and> base \<le> length (ses_committed x) \<and>
      ses_popped x @ w_committed_positions w =
        positions s e (first + of_nat base) (length (ses_committed x) - base) \<and>
      w_pending_positions w =
        positions s e (first + of_nat (length (ses_committed x)))
          (length (ses_accepted x) - length (ses_committed x)))"

definition session_ok :: "(log_record \<Rightarrow> bool) \<Rightarrow> nat \<Rightarrow> path \<Rightarrow> u64 \<Rightarrow> u64 \<Rightarrow> u64 \<Rightarrow> wal_session \<Rightarrow> bool" where
  "session_ok good base p s e first x \<longleftrightarrow> counters_ok base p s e first x \<and> on_disk good p s e first x"

lemma log_position_snoc:
  "log_position s e first (rs @ [r]) =
     \<lparr>pos_stream_id = s, pos_epoch = e, pos_sequence = first + of_nat (length rs)\<rparr>"
  by (simp add: log_position_def)

lemma fail_writer_simps [simp]:
  "w_file (fail_writer error w) = w_file w" "w_file_path (fail_writer error w) = w_file_path w"
  "w_stream_id (fail_writer error w) = w_stream_id w" "w_epoch (fail_writer error w) = w_epoch w"
  "w_next_sequence (fail_writer error w) = w_next_sequence w"
  "w_last_position (fail_writer error w) = w_last_position w"
  "w_last_committed_position (fail_writer error w) = w_last_committed_position w"
  "w_pending_positions (fail_writer error w) = w_pending_positions w"
  "w_committed_positions (fail_writer error w) = w_committed_positions w"
  by (simp_all add: fail_writer_def)

lemma fail_writer_error: "error \<noteq> NoError \<Longrightarrow> w_writer_error (fail_writer error w) \<noteq> NoError"
  by (simp add: fail_writer_def)

lemma publish_positions_eq:
  "publish_positions ps w =
     w\<lparr>w_last_committed_position := (if ps = [] then w_last_committed_position w else last ps),
       w_committed_positions := w_committed_positions w @ ps\<rparr>"
  by (induction ps w rule: publish_positions.induct) simp_all

text \<open>The three writes of a record.\<close>

lemma write_record_cases:
  obtains out where
    "wrote (w_file w) (record_bytes (w_stream_id w) (w_epoch w) pb t payload (w_next_sequence w)) out"
    "o_fail out \<Longrightarrow> write_record pb t payload w =
       (\<lparr>append_status = AppendFailed, append_error = CannotWriteFile, append_position = w_last_position w\<rparr>,
        fail_writer CannotWriteFile (w\<lparr>w_file := out\<rparr>))"
    "\<not> o_fail out \<Longrightarrow> write_record pb t payload w =
       (let position = \<lparr>pos_stream_id = w_stream_id w, pos_epoch = w_epoch w,
                        pos_sequence = w_next_sequence w\<rparr>
        in (\<lparr>append_status = Appended, append_error = NoError, append_position = position\<rparr>,
            w\<lparr>w_file := out, w_next_sequence := w_next_sequence w + 1, w_last_position := position,
              w_pending_positions := w_pending_positions w @ [position]\<rparr>))"
proof -
  let ?h = "encode_record_header (make_header (w_stream_id w) (w_epoch w) pb t payload (w_next_sequence w))"
  let ?f1 = "stream_write ?h (w_file w)"
  let ?f2 = "if payload \<noteq> [] then stream_write payload ?f1 else ?f1"
  let ?z = "replicate (unat (record_padding payload)) 0"
  let ?f3 = "if record_padding payload \<noteq> 0 then stream_write ?z ?f2 else ?f2"
  have 2: "wrote ?f1 payload ?f2" using wrote_write wrote_nothing by simp
  have 3: "wrote ?f2 ?z ?f3"
  proof (cases "record_padding payload = 0")
    case True
    then show ?thesis using wrote_nothing by simp
  next
    case False
    then show ?thesis using wrote_write by presburger
  qed
  have "wrote (w_file w) (?h @ payload @ ?z) ?f3"
    using wrote_append [OF wrote_write [of "w_file w" ?h] wrote_append [OF 2 3]] .
  then have "wrote (w_file w)
      (record_bytes (w_stream_id w) (w_epoch w) pb t payload (w_next_sequence w)) ?f3"
    by (simp only: record_bytes_def)
  then show ?thesis
  proof (rule that)
    show "o_fail ?f3 \<Longrightarrow> write_record pb t payload w =
       (\<lparr>append_status = AppendFailed, append_error = CannotWriteFile, append_position = w_last_position w\<rparr>,
        fail_writer CannotWriteFile (w\<lparr>w_file := ?f3\<rparr>))"
      by (simp only: write_record_def Let_def if_True simp_thms)
    show "\<not> o_fail ?f3 \<Longrightarrow> write_record pb t payload w =
       (let position = \<lparr>pos_stream_id = w_stream_id w, pos_epoch = w_epoch w,
                        pos_sequence = w_next_sequence w\<rparr>
        in (\<lparr>append_status = Appended, append_error = NoError, append_position = position\<rparr>,
            w\<lparr>w_file := ?f3, w_next_sequence := w_next_sequence w + 1, w_last_position := position,
              w_pending_positions := w_pending_positions w @ [position]\<rparr>))"
      by (simp only: write_record_def Let_def if_False simp_thms)
  qed
qed

lemma append_position_facts:
  assumes "prefix c rs" "base \<le> length c"
  shows "positions s e (first + of_nat (length c)) (length (rs @ [r]) - length c) =
      positions s e (first + of_nat (length c)) (length rs - length c)
        @ [\<lparr>pos_stream_id = s, pos_epoch = e, pos_sequence = first + of_nat (length rs)\<rparr>]"
    and "prefix c (rs @ [r])"
proof -
  have le: "length c \<le> length rs" using assms(1) by (rule prefix_length_le)
  then have "length (rs @ [r]) - length c = Suc (length rs - length c)" by simp
  then show "positions s e (first + of_nat (length c)) (length (rs @ [r]) - length c) =
      positions s e (first + of_nat (length c)) (length rs - length c)
        @ [\<lparr>pos_stream_id = s, pos_epoch = e, pos_sequence = first + of_nat (length rs)\<rparr>]"
    using le by (simp add: positions_Suc)
  show "prefix c (rs @ [r])" using assms(1) by (rule prefix_prefix)
qed

text \<open>A failed append leaves the accepted records and every counter.\<close>

lemma session_ok_fail:
  assumes ok: "session_ok good base p s e first x"
    and w: "w' = (ses_writer x)\<lparr>w_file := out, w_writer_error := error\<rparr>" "error \<noteq> NoError \<or> o_fail out"
    and out: "prefix part (record_bytes s e pb t payload (first + of_nat (length (ses_accepted x))))"
      "o_buffer out = o_buffer (w_file (ses_writer x)) @ part" "good (pb, t, payload)"
    and part: "part \<noteq> [] \<Longrightarrow>
      w_writer_error (ses_writer x) = NoError \<and> \<not> o_fail (w_file (ses_writer x))"
  shows "session_ok good base p s e first (x\<lparr>ses_writer := w'\<rparr>)"
proof -
  obtain disk more where d: "file_bytes (ses_files x) p = Some disk"
    "list_all good (ses_accepted x @ more)"
    "prefix (disk @ o_buffer (w_file (ses_writer x))) (segment_bytes s e first (ses_accepted x @ more))"
    "ses_committed x \<noteq> [] \<longrightarrow> prefix (segment_bytes s e first (ses_committed x)) disk"
    "w_writer_error (ses_writer x) = NoError \<and> \<not> o_fail (w_file (ses_writer x)) \<longrightarrow>
       disk @ o_buffer (w_file (ses_writer x)) = segment_bytes s e first (ses_accepted x)"
    using ok unfolding session_ok_def on_disk_def by blast
  have "\<exists>more'. list_all good (ses_accepted x @ more') \<and>
      prefix (disk @ o_buffer out) (segment_bytes s e first (ses_accepted x @ more'))"
  proof (cases "part = []")
    case True
    then show ?thesis using d out(2) by auto
  next
    case False
    then have "disk @ o_buffer out = segment_bytes s e first (ses_accepted x) @ part"
      using part d(5) out(2) by (metis append.assoc)
    then have "prefix (disk @ o_buffer out) (segment_bytes s e first (ses_accepted x @ [(pb, t, payload)]))"
      using out(1) by (simp add: segment_bytes_snoc)
    moreover have "list_all good (ses_accepted x @ [(pb, t, payload)])"
      using d(2) out(3) by simp
    ultimately show ?thesis by blast
  qed
  then have "on_disk good p s e first (x\<lparr>ses_writer := w'\<rparr>)"
    using d(1,4) w unfolding on_disk_def by auto
  moreover have "counters_ok base p s e first (x\<lparr>ses_writer := w'\<rparr>)"
    using ok w(1) by (simp add: session_ok_def counters_ok_def Let_def)
  ultimately show ?thesis by (simp add: session_ok_def)
qed

lemma session_ok_appended:
  assumes ok: "session_ok good base p s e first x"
    and healthy: "w_writer_error (ses_writer x) = NoError" "\<not> o_fail (w_file (ses_writer x))"
    and fits: "good (pb, t, payload)"
    and out: "o_buffer out = o_buffer (w_file (ses_writer x))
        @ record_bytes s e pb t payload (first + of_nat (length (ses_accepted x)))" "o_open out"
    and position: "position = \<lparr>pos_stream_id = s, pos_epoch = e,
        pos_sequence = first + of_nat (length (ses_accepted x))\<rparr>"
    and w: "w' = (ses_writer x)\<lparr>w_file := out, w_next_sequence := w_next_sequence (ses_writer x) + 1,
        w_last_position := position,
        w_pending_positions := w_pending_positions (ses_writer x) @ [position]\<rparr>"
  shows "session_ok good base p s e first
    (x\<lparr>ses_writer := w', ses_accepted := ses_accepted x @ [(pb, t, payload)]\<rparr>)"
proof -
  obtain disk where d: "file_bytes (ses_files x) p = Some disk"
    "list_all good (ses_accepted x)"
    "ses_committed x \<noteq> [] \<longrightarrow> prefix (segment_bytes s e first (ses_committed x)) disk"
    "disk @ o_buffer (w_file (ses_writer x)) = segment_bytes s e first (ses_accepted x)"
    using ok healthy unfolding session_ok_def on_disk_def by auto
  have "disk @ o_buffer out = segment_bytes s e first (ses_accepted x @ [(pb, t, payload)])"
    using d(4) out by (metis append.assoc segment_bytes_snoc)
  moreover have "list_all good (ses_accepted x @ [(pb, t, payload)])"
    using d(2) fits by simp
  ultimately have "on_disk good p s e first
      (x\<lparr>ses_writer := w', ses_accepted := ses_accepted x @ [(pb, t, payload)]\<rparr>)"
    using d(1,3) w out(2) unfolding on_disk_def by (intro exI [of _ disk] exI [of _ "[]"]) auto
  moreover have "counters_ok base p s e first
      (x\<lparr>ses_writer := w', ses_accepted := ses_accepted x @ [(pb, t, payload)]\<rparr>)"
  proof -
    have c: "counters_ok base p s e first x" using ok by (simp add: session_ok_def)
    then have "prefix (ses_committed x) (ses_accepted x)" "base \<le> length (ses_committed x)"
      by (simp_all add: counters_ok_def Let_def)
    note f = append_position_facts [OF this]
    show ?thesis
      using c f(2) f(1) [of s e first "(pb, t, payload)"]
      by (simp add: counters_ok_def Let_def w position log_position_snoc add.assoc del: length_append)
       (simp add: add.assoc)
  qed
  ultimately show ?thesis by (simp add: session_ok_def)
qed

lemma fail_writer_eq: "w_writer_error w = NoError \<Longrightarrow> fail_writer error w = w\<lparr>w_writer_error := error\<rparr>"
  by (simp add: fail_writer_def)

lemma session_ok_append:
  assumes ok: "session_ok good base p s e first x" and fits: "good (pb, t, payload)"
  shows "session_ok good base p s e first (session_step (Append pb t payload) x)"
proof -
  let ?w = "ses_writer x" and ?q = "first + of_nat (length (ses_accepted x))"
  have c: "w_stream_id ?w = s" "w_epoch ?w = e" "w_next_sequence ?w = ?q"
    using ok by (simp_all add: session_ok_def counters_ok_def Let_def)
  consider "w_writer_error ?w \<noteq> NoError" | "w_writer_error ?w = NoError" "o_fail (w_file ?w)"
    | "w_writer_error ?w = NoError" "\<not> o_fail (w_file ?w)" by blast
  then show ?thesis
  proof cases
    case 1
    then show ?thesis using ok by (simp add: segment_append_def)
  next
    case 2
    have "session_ok good base p s e first (x\<lparr>ses_writer := ?w\<lparr>w_file := w_file ?w, w_writer_error := CannotWriteFile\<rparr>\<rparr>)"
      by (rule session_ok_fail [OF ok refl _ _ _ fits, of _ _ "[]"]) simp_all
    then show ?thesis using 2 by (simp add: segment_append_def fail_writer_eq)
  next
    case 3
    obtain out where o: "wrote (w_file ?w) (record_bytes s e pb t payload ?q) out"
      and bad: "o_fail out \<Longrightarrow> write_record pb t payload ?w =
         (\<lparr>append_status = AppendFailed, append_error = CannotWriteFile, append_position = w_last_position ?w\<rparr>,
          fail_writer CannotWriteFile (?w\<lparr>w_file := out\<rparr>))"
      and good: "\<not> o_fail out \<Longrightarrow> write_record pb t payload ?w =
         (let position = \<lparr>pos_stream_id = s, pos_epoch = e, pos_sequence = ?q\<rparr>
          in (\<lparr>append_status = Appended, append_error = NoError, append_position = position\<rparr>,
              ?w\<lparr>w_file := out, w_next_sequence := w_next_sequence ?w + 1, w_last_position := position,
                w_pending_positions := w_pending_positions ?w @ [position]\<rparr>))"
      using write_record_cases [of ?w pb t payload] unfolding c by metis
    obtain part where part: "prefix part (record_bytes s e pb t payload ?q)"
      "o_buffer out = o_buffer (w_file ?w) @ part"
      "\<not> o_fail out \<longrightarrow> part = record_bytes s e pb t payload ?q"
      and open_out: "o_open out = o_open (w_file ?w)"
      using o unfolding wrote_def by blast
    have seg: "segment_append pb t payload ?w = write_record pb t payload ?w"
      using 3 by (simp add: segment_append_def)
    show ?thesis
    proof (cases "o_fail out")
      case True
      have "session_ok good base p s e first (x\<lparr>ses_writer := ?w\<lparr>w_file := out, w_writer_error := CannotWriteFile\<rparr>\<rparr>)"
        by (rule session_ok_fail [OF ok refl _ part(1,2) fits]) (use 3 in simp_all)
      then show ?thesis using bad [OF True] 3(1) by (simp add: seg fail_writer_eq)
    next
      case False
      have "o_open (w_file ?w)"
        using ok 3 unfolding session_ok_def on_disk_def by blast
      then show ?thesis
        using session_ok_appended [OF ok 3 fits _ _ refl refl, of out] part(2,3) open_out
          good [OF False] False
        by (simp add: seg Let_def)
    qed
  qed
qed

lemma session_ok_flush:
  assumes ok: "session_ok good base p s e first x"
    and flush: "stream_flush (ses_files x) p (w_file (ses_writer x)) = (out, fs)"
  obtains disk more where "file_bytes fs p = Some disk"
    "list_all good (ses_accepted x @ more)"
    "prefix (disk @ o_buffer out) (segment_bytes s e first (ses_accepted x @ more))"
    "ses_committed x \<noteq> [] \<longrightarrow> prefix (segment_bytes s e first (ses_committed x)) disk"
    "w_writer_error (ses_writer x) = NoError \<Longrightarrow> \<not> o_fail out \<Longrightarrow>
       o_open out \<and> disk = segment_bytes s e first (ses_accepted x) \<and> o_buffer out = []"
proof -
  let ?w = "ses_writer x"
  obtain disk more where d: "file_bytes (ses_files x) p = Some disk"
    "list_all good (ses_accepted x @ more)"
    "prefix (disk @ o_buffer (w_file ?w)) (segment_bytes s e first (ses_accepted x @ more))"
    "ses_committed x \<noteq> [] \<longrightarrow> prefix (segment_bytes s e first (ses_committed x)) disk"
    "w_writer_error ?w = NoError \<and> \<not> o_fail (w_file ?w) \<longrightarrow>
       o_open (w_file ?w) \<and> disk @ o_buffer (w_file ?w) = segment_bytes s e first (ses_accepted x)"
    using ok unfolding session_ok_def on_disk_def by blast
  obtain disk' where d': "file_bytes fs p = Some disk'" "prefix disk disk'"
    "disk' @ o_buffer out = disk @ o_buffer (w_file ?w)"
    "\<not> o_fail out \<Longrightarrow> o_open (w_file ?w) \<Longrightarrow> disk' = disk @ o_buffer (w_file ?w) \<and> o_buffer out = []"
    using flush_bytes [OF d(1), of "w_file ?w"] unfolding flush fst_conv snd_conv by metis
  show ?thesis
  proof (rule that [OF d'(1) d(2)])
    show "prefix (disk' @ o_buffer out) (segment_bytes s e first (ses_accepted x @ more))"
      using d(3) d'(3) by simp
    show "ses_committed x \<noteq> [] \<longrightarrow> prefix (segment_bytes s e first (ses_committed x)) disk'"
      using d(4) d'(2) prefix_order.trans by blast
    assume "w_writer_error ?w = NoError" "\<not> o_fail out"
    moreover have "\<not> o_fail (w_file ?w)"
      using \<open>\<not> o_fail out\<close> flush_fail [of "ses_files x" p "w_file ?w"] by (simp add: flush)
    moreover have "o_open out = o_open (w_file ?w)"
      using flush_open [of "ses_files x" p "w_file ?w"] by (simp add: flush)
    ultimately show "o_open out \<and> disk' = segment_bytes s e first (ses_accepted x) \<and> o_buffer out = []"
      using d(5) d'(4) by simp
  qed
qed

lemma positions_commit:
  assumes "prefix c rs" "base \<le> length c"
  shows "positions s e (first + of_nat base) (length c - base)
      @ positions s e (first + of_nat (length c)) (length rs - length c) =
    positions s e (first + of_nat base) (length rs - base)"
proof -
  have "length c \<le> length rs" using assms(1) by (rule prefix_length_le)
  then have "length rs - base = (length c - base) + (length rs - length c)"
    and "first + of_nat (length c) = first + of_nat base + of_nat (length c - base)"
    using assms(2) by (simp_all flip: of_nat_add add: add.assoc)
  then show ?thesis by (simp add: positions_add add.assoc)
qed

lemma last_pending:
  assumes "prefix c rs"
  shows "(if positions s e (first + of_nat (length c)) (length rs - length c) = []
          then log_position s e first c
          else last (positions s e (first + of_nat (length c)) (length rs - length c)))
    = log_position s e first rs"
proof -
  obtain d where d: "rs = c @ d" using assms by (auto simp: prefix_def)
  show ?thesis
  proof (cases d rule: rev_cases)
    case Nil
    then show ?thesis by (simp add: d)
  next
    case (snoc d' r)
    then have "length rs - length c = Suc (length d')" by (simp add: d)
    then show ?thesis
      using snoc by (simp add: d positions_Suc log_position_def algebra_simps)
  qed
qed

lemma counters_ok_commit:
  assumes c: "counters_ok base p s e first x"
  defines "ps \<equiv> w_pending_positions (ses_writer x)"
  shows "counters_ok base p s e first
    (x\<lparr>ses_files := fs, ses_writer := (ses_writer x)
       \<lparr>w_file := out,
        w_last_committed_position := (if ps = [] then w_last_committed_position (ses_writer x) else last ps),
        w_pending_positions := [], w_committed_positions := w_committed_positions (ses_writer x) @ ps\<rparr>,
       ses_committed := ses_accepted x\<rparr>)"
proof -
  have pre: "prefix (ses_committed x) (ses_accepted x)" "base \<le> length (ses_committed x)"
    and ps: "ps = positions s e (first + of_nat (length (ses_committed x)))
      (length (ses_accepted x) - length (ses_committed x))"
    and queue: "ses_popped x @ w_committed_positions (ses_writer x) =
      positions s e (first + of_nat base) (length (ses_committed x) - base)"
    and last: "w_last_committed_position (ses_writer x) = log_position s e first (ses_committed x)"
    using c by (simp_all add: counters_ok_def Let_def ps_def)
  have "base \<le> length (ses_accepted x)"
    using prefix_length_le [OF pre(1)] pre(2) by simp
  moreover have "ses_popped x @ w_committed_positions (ses_writer x) @ ps =
      positions s e (first + of_nat base) (length (ses_accepted x) - base)"
    using queue positions_commit [OF pre, of s e first] unfolding ps by (metis append.assoc)
  moreover have "(if ps = [] then w_last_committed_position (ses_writer x) else last ps) =
      log_position s e first (ses_accepted x)"
    unfolding last ps by (rule last_pending [OF pre(1)])
  ultimately show ?thesis using c by (simp add: counters_ok_def Let_def)
qed

lemma session_ok_commit:
  assumes ok: "session_ok good base p s e first x"
  shows "session_ok good base p s e first (session_step Commit x)"
proof (cases "w_writer_error (ses_writer x) = NoError")
  case False
  then show ?thesis using ok by (simp add: segment_commit_def)
next
  case True
  let ?w = "ses_writer x"
  obtain out fs where flush: "stream_flush (ses_files x) p (w_file ?w) = (out, fs)"
    by (cases "stream_flush (ses_files x) p (w_file ?w)")
  have c: "counters_ok base p s e first x" and path: "w_file_path ?w = p"
    using ok by (simp_all add: session_ok_def counters_ok_def Let_def)
  obtain disk more where d: "file_bytes fs p = Some disk"
    "list_all good (ses_accepted x @ more)"
    "prefix (disk @ o_buffer out) (segment_bytes s e first (ses_accepted x @ more))"
    "ses_committed x \<noteq> [] \<longrightarrow> prefix (segment_bytes s e first (ses_committed x)) disk"
    "\<not> o_fail out \<Longrightarrow>
       o_open out \<and> disk = segment_bytes s e first (ses_accepted x) \<and> o_buffer out = []"
    using session_ok_flush [OF ok flush] True by blast
  show ?thesis
  proof (cases "o_fail out")
    case fail: True
    have step: "session_step Commit x =
        x\<lparr>ses_files := fs, ses_writer := ?w\<lparr>w_file := out, w_writer_error := CannotFlushFile\<rparr>\<rparr>"
      using True fail by (simp add: segment_commit_def path flush fail_writer_eq)
    have "on_disk good p s e first (session_step Commit x)"
      using d(1-4) unfolding step on_disk_def
      by (intro exI [of _ disk] exI [of _ more]) simp
    moreover have "counters_ok base p s e first (session_step Commit x)"
      using c unfolding step by (simp add: counters_ok_def Let_def)
    ultimately show ?thesis by (simp add: session_ok_def)
  next
    case False
    let ?ps = "w_pending_positions ?w"
    let ?w' = "?w\<lparr>w_file := out,
        w_last_committed_position := (if ?ps = [] then w_last_committed_position ?w else last ?ps),
        w_pending_positions := [], w_committed_positions := w_committed_positions ?w @ ?ps\<rparr>"
    have step: "session_step Commit x =
        x\<lparr>ses_files := fs, ses_writer := ?w', ses_committed := ses_accepted x\<rparr>"
      using True False by (simp add: segment_commit_def path flush publish_positions_eq)
    have "on_disk good p s e first (session_step Commit x)"
      using d(1,2) d(5) [OF False] unfolding step on_disk_def
      by (intro exI [of _ disk] exI [of _ "[]"]) simp
    moreover have "counters_ok base p s e first (session_step Commit x)"
      unfolding step by (rule counters_ok_commit [OF c])
    ultimately show ?thesis by (simp add: session_ok_def)
  qed
qed

lemma session_ok_pop:
  assumes "session_ok good base p s e first x"
  shows "session_ok good base p s e first (session_step Pop x)"
  using assms
  by (auto simp: pop_committed_position_def session_ok_def counters_ok_def on_disk_def Let_def
      split: list.splits)

lemma session_ok_run:
  assumes "session_ok good base p s e first x" "list_all (op_good good) ops"
  shows "session_ok good base p s e first (run_session ops x)"
  using assms
proof (induction ops arbitrary: x)
  case Nil
  then show ?case by (simp add: run_session_def)
next
  case (Cons op ops)
  have "session_ok good base p s e first (session_step op x)"
    using Cons.prems session_ok_append session_ok_commit session_ok_pop by (cases op) auto
  then show ?case using Cons by (simp add: run_session_def)
qed

text \<open>A writer in error does nothing more.\<close>

lemma failed_writer_step:
  assumes "w_writer_error (ses_writer x) \<noteq> NoError" "op \<noteq> Pop"
  shows "session_step op x = x"
  using assms by (cases op) (simp_all add: segment_append_def segment_commit_def)

lemma failed_writer_run:
  assumes "w_writer_error (ses_writer x) \<noteq> NoError"
  shows "ses_committed (run_session ops x) = ses_committed x \<and> ses_accepted (run_session ops x) = ses_accepted x
    \<and> ses_files (run_session ops x) = ses_files x
    \<and> w_writer_error (ses_writer (run_session ops x)) = w_writer_error (ses_writer x)"
  using assms
proof (induction ops arbitrary: x)
  case Nil
  then show ?case by (simp add: run_session_def)
next
  case (Cons op ops)
  let ?y = "session_step op x"
  have y: "ses_committed ?y = ses_committed x \<and> ses_accepted ?y = ses_accepted x \<and>
      ses_files ?y = ses_files x \<and> w_writer_error (ses_writer ?y) = w_writer_error (ses_writer x)"
  proof (cases "op = Pop")
    case True
    then show ?thesis by (simp add: pop_committed_position_def split: list.splits)
  next
    case False
    then show ?thesis using failed_writer_step [OF Cons.prems] by simp
  qed
  then have "w_writer_error (ses_writer ?y) \<noteq> NoError" using Cons.prems by simp
  from Cons.IH [OF this] y show ?case by (simp add: run_session_def)
qed

text \<open>Closing the writer adds at most what the buffer holds.\<close>

lemma close_writer_bytes:
  assumes "file_bytes fs p = Some disk" "w_file_path w = p"
  obtains disk' where "file_bytes (close_segment_writer fs w) p = Some disk'" "prefix disk disk'"
    "prefix disk' (disk @ o_buffer (w_file w))"
proof (cases "o_open (w_file w)")
  case False
  then show ?thesis using assms that [of disk] by (simp add: close_segment_writer_def stream_close_def)
next
  case True
  let ?f = "stream_flush fs p (w_file w)"
  obtain d1 where d1: "file_bytes (snd ?f) p = Some d1" "prefix disk d1"
    "d1 @ o_buffer (fst ?f) = disk @ o_buffer (w_file w)"
    by (rule flush_bytes [OF assms(1), of "w_file w"]) blast
  obtain d2 where d2: "file_bytes (stream_close (snd ?f) p (fst ?f)) p = Some d2" "prefix d1 d2"
    "prefix d2 (d1 @ o_buffer (fst ?f))"
    by (rule close_bytes [OF d1(1), of "fst ?f"]) blast
  have "close_segment_writer fs w = stream_close (snd ?f) p (fst ?f)"
    using True assms(2) by (simp add: close_segment_writer_def split_beta)
  then show ?thesis
    using that [of d2] d1 d2 prefix_order.trans by metis
qed

section \<open>Opening a segment\<close>

lemma create_directories_from_other:
  assumes "create_directories_from fs pre cs = Some fs'" "length (pre @ cs) < length p"
  shows "fs' p = fs p"
  using assms
proof (induction fs pre cs rule: create_directories_from.induct)
  case (2 fs pre c cs)
  have ne: "p \<noteq> pre @ [c]" using 2(4) by auto
  show ?case using 2 ne by (auto simp: fun_upd_def split: option.splits fs_node.splits)
qed simp

lemma ensure_parent_other:
  assumes "ensure_parent_directory_exists fs p = Some fs'"
  shows "fs' p = fs p"
proof (cases "butlast p = []")
  case True
  then show ?thesis using assms by (simp add: ensure_parent_directory_exists_def)
next
  case False
  then have "length (butlast p) < length p" by (cases p) auto
  then show ?thesis
    using assms False create_directories_from_other [of fs "[]" "butlast p" fs' p]
    by (simp add: ensure_parent_directory_exists_def create_directories_def)
qed

lemma prefix_segment_header: "prefix (encode_segment_header (make_segment_header s e first)) (segment_bytes s e first rs)"
  by (simp add: segment_bytes_def)

text \<open>
  A writer on a path that does not exist, or on an empty file, has written the segment header to its
  buffer, or it is in error with a part of it there.
\<close>

lemma fresh_writer:
  assumes new: "new_segment_writer fs outcomes p s e first = Some (w, fs1)"
    and missing: "fs p = None \<or> fs p = Some (RegularFile [])"
  obtains out where "w = \<lparr>w_file_path = p, w_file = out, w_stream_id = s,
      w_epoch = e, w_next_sequence = first, w_last_position = no_position,
      w_last_committed_position = no_position,
      w_writer_error = (if o_fail out then CannotWriteFile else NoError),
      w_pending_positions = [], w_committed_positions = []\<rparr>"
    "prefix (o_buffer out) (encode_segment_header (make_segment_header s e first))"
    "fs1 p = (if o_open out then Some (RegularFile []) else fs p)"
    "\<not> o_fail out \<Longrightarrow> o_open out \<and> o_buffer out = encode_segment_header (make_segment_header s e first)"
proof -
  obtain fs0 where dirs: "ensure_parent_directory_exists fs p = Some fs0"
    using new by (auto simp: new_segment_writer_def Let_def split: option.splits)
  have same: "fs0 p = fs p" by (rule ensure_parent_other [OF dirs])
  have fresh: "\<not> is_directory fs0 p" "wal_file_exists fs0 p \<longrightarrow> wal_file_size fs0 p = Some 0"
    using missing by (auto simp: same is_directory_def wal_file_exists_def wal_file_size_def file_bytes_def)
  let ?w0 = "\<lparr>w_file_path = p, w_file = closed_ofstream outcomes, w_stream_id = s,
      w_epoch = e, w_next_sequence = first, w_last_position = no_position,
      w_last_committed_position = no_position, w_writer_error = NoError,
      w_pending_positions = [], w_committed_positions = []\<rparr>"
  let ?header = "encode_segment_header (make_segment_header s e first)"
  obtain out0 fs3 where opn: "ofstream_open fs0 p (closed_ofstream outcomes) = (out0, fs3)"
    by (cases "ofstream_open fs0 p (closed_ofstream outcomes)")
  let ?out = "stream_write ?header out0"
  have eq: "(if o_fail ?out then fail_writer CannotWriteFile (?w0\<lparr>w_file := ?out\<rparr>) else ?w0\<lparr>w_file := ?out\<rparr>, fs3)
      = (w, fs1)"
    using new fresh unfolding new_segment_writer_def Let_def dirs
    by (auto simp: opn write_segment_header_def cong: if_cong)
  have "w = ?w0\<lparr>w_file := ?out, w_writer_error := (if o_fail ?out then CannotWriteFile else NoError)\<rparr>"
    and f: "fs1 = fs3"
    using eq by (auto simp: fail_writer_def split: if_splits)
  moreover have "fs3 p = (if o_open out0 then Some (RegularFile []) else fs p) \<and> o_buffer out0 = []"
    using opn missing same unfolding ofstream_open_def closed_ofstream_def
    by (auto split: prod.splits device_outcome.splits option.splits fs_node.splits)
  moreover have "o_open ?out = o_open out0" "\<exists>part. prefix part ?header \<and>
      o_buffer ?out = o_buffer out0 @ part \<and> (\<not> o_fail ?out \<longrightarrow> part = ?header)"
    using wrote_write [of out0 ?header] unfolding wrote_def by blast+
  moreover have "\<not> o_fail ?out \<Longrightarrow> o_open out0" by (auto simp: stream_write_def split: if_splits)
  ultimately show ?thesis by (intro that [of ?out]) auto
qed

text \<open>When it is not in error, it starts a session on an empty log.\<close>

lemma fresh_writer_session:
  assumes "new_segment_writer fs outcomes p s e first = Some (w, fs1)"
    and "fs p = None \<or> fs p = Some (RegularFile [])" and fine: "w_writer_error w = NoError"
  shows "session_ok good 0 p s e first (start_session [] fs1 w)"
proof -
  obtain out where w: "w = \<lparr>w_file_path = p, w_file = out, w_stream_id = s,
      w_epoch = e, w_next_sequence = first, w_last_position = no_position,
      w_last_committed_position = no_position,
      w_writer_error = (if o_fail out then CannotWriteFile else NoError),
      w_pending_positions = [], w_committed_positions = []\<rparr>"
    and f: "fs1 p = (if o_open out then Some (RegularFile []) else fs p)"
    and b: "\<not> o_fail out \<Longrightarrow> o_open out \<and> o_buffer out = encode_segment_header (make_segment_header s e first)"
    by (rule fresh_writer [OF assms(1,2)]) (rule that, assumption+)
  have "\<not> o_fail out" using w fine by (auto split: if_splits)
  then have "o_open out" "o_buffer out = segment_bytes s e first []" "file_bytes fs1 p = Some []"
    using b f by (simp_all add: segment_bytes_def file_bytes_def)
  then have "on_disk good p s e first (start_session [] fs1 w)"
    unfolding on_disk_def
    by (intro exI [of _ "[]"]) (simp add: start_session_def w)
  then show ?thesis
    by (simp add: session_ok_def counters_ok_def start_session_def w log_position_def)
qed

lemma new_writer_session:
  assumes "new_segment_writer fs outcomes p s e first = Some (w, fs1)" "fs p = None"
    and "w_writer_error w = NoError"
  shows "session_ok good 0 p s e first (start_session [] fs1 w)"
  using fresh_writer_session [OF assms(1) _ assms(3)] assms(2) by blast

text \<open>
  A complete segment is opened behind its last record, and one that is torn before the padding of its
  last record is cut back to the complete ones. The writer is not in error, even when the device
  refused to open the file: then its first append fails.
\<close>

lemma read_existing_log:
  assumes "s \<noteq> 0" "e \<noteq> 0" "first \<noteq> 0"
  shows "read_existing_segment_header (Some (segment_bytes s e first rs @ tail)) =
    (NoError, make_segment_header s e first)"
proof -
  let ?h = "make_segment_header s e first"
  let ?c = "segment_bytes s e first rs @ tail"
  have leh: "length (encode_segment_header ?h) = 40"
    by (simp add: segment_header_codec.length_encode sizeof_segment_header_def)
  have start: "at 0 (ifstream_open (Some ?c))" by (simp add: at_def ifstream_open_def)
  obtain f where "stream_read ?c (ifstream_open (Some ?c)) 40 = (encode_segment_header ?h, f)"
    and f: "i_gcount f = 40"
    by (rule stream_read_at [OF start, of ?c "encode_segment_header ?h" "log_bytes s e first rs @ tail" 40])
      (simp_all add: segment_bytes_def leh)
  then have r: "stream_read ?c (ifstream_open (Some ?c)) sizeof_segment_header = (encode_segment_header ?h, f)"
    by (simp add: sizeof_segment_header_def)
  have g: "(i_gcount f \<noteq> sizeof_segment_header) = False" using f by (simp add: sizeof_segment_header_def)
  show ?thesis
    using assms make_segment_header_crc [of s e first] make_segment_header_valid [of s e first]
    by (simp add: read_existing_segment_header_def r Let_def segment_header_codec.decode_encode g)
qed

lemma next_sequence_log:
  assumes "s \<noteq> 0" "e \<noteq> 0" "rs \<noteq> [] \<Longrightarrow> first + of_nat (length rs) - 1 \<noteq> 0"
  shows "(if position_is_valid (log_position s e first rs)
      then pos_sequence (log_position s e first rs) + 1 else first) = first + of_nat (length rs)"
  using assms by (auto simp: log_position_def position_is_valid_def no_position_def)

lemma first_no_wrap:
  assumes "(first :: u64) \<noteq> 0" "unat first + length rs \<le> 2 ^ 64" "rs \<noteq> []"
  shows "first + of_nat (length rs) - 1 \<noteq> 0"
proof -
  obtain n where n: "length rs = Suc n" using assms(3) by (cases rs) auto
  have "first + of_nat (length rs) - 1 = first + of_nat n" using n by simp
  moreover have "unat (first + of_nat n) = unat first + n"
  proof -
    have "unat first + n < 2 ^ 64" using assms(2) n by simp
    then show ?thesis
      by (simp add: unat_word_ariths(1) unat_of_nat)
  qed
  ultimately show ?thesis using assms(1) by (metis add_is_0 unat_eq_zero)
qed

lemma prepare_existing_log:
  assumes nz: "s \<noteq> 0" "e \<noteq> 0" "first \<noteq> 0" and fits: "list_all record_fits rs"
    and range: "unat first + length rs \<le> 2 ^ 64" "length (segment_bytes s e first rs) < 2 ^ 64"
    and there: "file_bytes fs p = Some (segment_bytes s e first rs @ tail)"
    and tail: "tail = [] \<or> (prefix tail (record_bytes s e pb t payload (first + of_nat (length rs)))
      \<and> length tail < 56 + length payload \<and> payload_fits payload)"
    and w: "w_file_path w = p" "w_stream_id w = s" "w_epoch w = e"
  shows "prepare_existing_segment fs first w = Some (NoError,
      w\<lparr>w_next_sequence := first + of_nat (length rs), w_last_position := log_position s e first rs,
        w_last_committed_position := log_position s e first rs\<rparr>,
      if tail = [] then fs else fs(p \<mapsto> RegularFile (segment_bytes s e first rs)))"
proof -
  let ?c = "segment_bytes s e first rs"
  have nxt: "(if position_is_valid (log_position s e first rs)
      then pos_sequence (log_position s e first rs) + 1 else first) = first + of_nat (length rs)"
    using next_sequence_log [OF nz(1,2)] first_no_wrap [OF nz(3) range(1)] by blast
  have un: "unat (of_nat (length ?c) :: u64) = length ?c" using range(2) by (simp add: unat_of_nat)
  have scan: "scan_segment (Some (?c @ tail)) =
      \<lparr>scan_ok = (tail = []), scan_error = (if tail = [] then NoError else IncompleteTrailingRecord),
       scan_last_valid_position = log_position s e first rs,
       scan_last_valid_offset = of_nat (length ?c),
       scan_has_incomplete_trailing_record = (tail \<noteq> [])\<rparr>"
    using scan_complete_segment [OF nz fits] scan_torn_segment [OF nz fits, of tail pb t payload] tail
    by auto
  have cut: "wal_file_truncate fs p (length ?c) = Some (fs(p \<mapsto> RegularFile ?c))"
    by (simp add: wal_file_truncate_def there)
  show ?thesis
    by (simp add: prepare_existing_segment_def w there read_existing_log [OF nz] scan un cut nxt Let_def cong: if_cong)
qed

lemma reopened_writer_session:
  assumes nz: "s \<noteq> 0" "e \<noteq> 0" "first \<noteq> 0" and fits: "list_all record_fits rs" "list_all good rs"
    and range: "unat first + length rs \<le> 2 ^ 64" "length (segment_bytes s e first rs) < 2 ^ 64"
    and there: "fs p = Some (RegularFile (segment_bytes s e first rs @ tail))"
    and dirs: "ensure_parent_directory_exists fs p = Some fs0"
    and tail: "tail = [] \<or> (prefix tail (record_bytes s e pb t payload (first + of_nat (length rs)))
      \<and> length tail < 56 + length payload \<and> payload_fits payload)"
  shows "\<exists>w fs1. new_segment_writer fs outcomes p s e first = Some (w, fs1) \<and> w_writer_error w = NoError \<and>
    file_bytes fs1 p = Some (segment_bytes s e first rs) \<and> o_buffer (w_file w) = [] \<and>
    session_ok good (length rs) p s e first (start_session rs fs1 w) \<and>
    (outcomes = [] \<longrightarrow> o_open (w_file w) \<and> \<not> o_fail (w_file w) \<and> o_outcomes (w_file w) = [])"
proof -
  let ?c = "segment_bytes s e first rs"
  have f0: "fs0 p = Some (RegularFile (?c @ tail))" using ensure_parent_other [OF dirs] there by simp
  then have fb: "file_bytes fs0 p = Some (?c @ tail)" by (simp add: file_bytes_def)
  have "?c \<noteq> []" using length_segment_bytes_Nil [of s e first]
    by (auto simp: segment_bytes_def sizeof_segment_header_def)
  then have size: "wal_file_size fs0 p \<noteq> Some 0" "wal_file_exists fs0 p" "\<not> is_directory fs0 p"
    using f0 by (simp_all add: wal_file_size_def wal_file_exists_def fb is_directory_def)
  let ?w0 = "\<lparr>w_file_path = p, w_file = closed_ofstream outcomes, w_stream_id = s,
      w_epoch = e, w_next_sequence = first, w_last_position = no_position,
      w_last_committed_position = no_position, w_writer_error = NoError,
      w_pending_positions = [], w_committed_positions = []\<rparr>"
  let ?w1 = "?w0\<lparr>w_next_sequence := first + of_nat (length rs),
      w_last_position := log_position s e first rs, w_last_committed_position := log_position s e first rs\<rparr>"
  let ?fs2 = "if tail = [] then fs0 else fs0(p \<mapsto> RegularFile ?c)"
  have prep: "prepare_existing_segment fs0 first ?w0 = Some (NoError, ?w1, ?fs2)"
    using prepare_existing_log [OF nz fits(1) range fb tail, of ?w0] by simp
  have f2: "?fs2 p = Some (RegularFile ?c)" using f0 by auto
  obtain out where opn: "ofstream_open ?fs2 p (closed_ofstream outcomes) = (out, ?fs2)"
    and out: "o_buffer out = []" "\<not> o_fail out \<Longrightarrow> o_open out"
      "outcomes = [] \<Longrightarrow> \<not> o_fail out \<and> o_outcomes out = []"
  proof -
    obtain outcome rest where n: "next_outcome outcomes = (outcome, rest)" by (cases "next_outcome outcomes")
    then have "outcomes = [] \<Longrightarrow> outcome = Accepts \<and> rest = []" by (simp add: next_outcome_def)
    then show ?thesis
      using that unfolding ofstream_open_def f2 by (cases outcome) (auto simp: closed_ofstream_def n)
  qed
  let ?w = "?w1\<lparr>w_file := out\<rparr>"
  have "new_segment_writer fs outcomes p s e first = Some (?w, ?fs2)"
    unfolding new_segment_writer_def Let_def dirs option.case
    by (simp only: prep size simp_thms if_False if_True option.case prod.case)
      (simp add: opn del: fun_upd_apply cong: if_cong)
  moreover have "file_bytes ?fs2 p = Some ?c" using f2 unfolding file_bytes_def by simp
  moreover have "session_ok good (length rs) p s e first (start_session rs ?fs2 ?w)"
    unfolding session_ok_def
  proof
    show "counters_ok (length rs) p s e first (start_session rs ?fs2 ?w)"
      by (simp add: counters_ok_def start_session_def)
    show "on_disk good p s e first (start_session rs ?fs2 ?w)"
      using \<open>file_bytes ?fs2 p = Some ?c\<close> fits unfolding on_disk_def
      by (intro exI [of _ ?c] exI [of _ "[]"]) (simp add: start_session_def out)
  qed
  ultimately show ?thesis using out by (intro exI [of _ ?w] exI [of _ ?fs2]) simp
qed

section \<open>A device that accepts everything\<close>

definition accepting :: "WalSegmentWriter \<Rightarrow> bool" where
  "accepting w \<longleftrightarrow>
     w_writer_error w = NoError \<and> o_open (w_file w) \<and> \<not> o_fail (w_file w) \<and> o_outcomes (w_file w) = []"

lemma stream_write_accepting:
  "o_open out \<Longrightarrow> \<not> o_fail out \<Longrightarrow> o_outcomes out = [] \<Longrightarrow>
   stream_write bs out = out\<lparr>o_buffer := o_buffer out @ bs\<rparr>"
  by (simp add: stream_write_def next_outcome_def)

lemma stream_flush_accepting:
  "o_open out \<Longrightarrow> \<not> o_fail out \<Longrightarrow> o_outcomes out = [] \<Longrightarrow>
   stream_flush fs p out = (out\<lparr>o_buffer := []\<rparr>, append_to_file fs p (o_buffer out))"
  by (simp add: stream_flush_def next_outcome_def)

lemma append_accepting:
  assumes "accepting w"
  shows "append_status (fst (segment_append pb t payload w)) = Appended"
    "accepting (snd (segment_append pb t payload w))"
proof -
  let ?h = "encode_record_header (make_header (w_stream_id w) (w_epoch w) pb t payload (w_next_sequence w))"
  let ?f2 = "if payload \<noteq> [] then stream_write payload (stream_write ?h (w_file w))
    else stream_write ?h (w_file w)"
  let ?f3 = "if record_padding payload \<noteq> 0
    then stream_write (replicate (unat (record_padding payload)) 0) ?f2 else ?f2"
  have 2: "o_open ?f2" "\<not> o_fail ?f2" "o_outcomes ?f2 = []"
    using assms by (simp_all add: accepting_def stream_write_accepting)
  have 3: "o_open ?f3 \<and> \<not> o_fail ?f3 \<and> o_outcomes ?f3 = []"
  proof (cases "record_padding payload = 0")
    case True
    then show ?thesis using 2 by simp
  next
    case False
    then show ?thesis using stream_write_accepting [OF 2] 2 by simp
  qed
  have eq: "segment_append pb t payload w = write_record pb t payload w"
    using assms by (simp add: segment_append_def accepting_def)
  have f: "o_fail ?f3 = False" using 3 by blast
  have "append_status (fst (write_record pb t payload w)) = Appended \<and>
      accepting (snd (write_record pb t payload w))"
    unfolding write_record_def Let_def f if_False fst_conv snd_conv
    using assms 3 by (simp add: accepting_def)
  then show "append_status (fst (segment_append pb t payload w)) = Appended"
    "accepting (snd (segment_append pb t payload w))"
    unfolding eq by blast+
qed

lemma commit_accepting:
  assumes "accepting w"
  shows "commit_status (fst (segment_commit fs w)) = Committed"
    "accepting (fst (snd (segment_commit fs w)))"
  using assms
  by (simp_all add: segment_commit_def accepting_def stream_flush_accepting publish_positions_eq Let_def)

fun append_op :: "log_record \<Rightarrow> writer_op" where
  "append_op (pb, t, payload) = Append pb t payload"

lemma run_appends_accepting:
  assumes "accepting (ses_writer x)"
  shows "accepting (ses_writer (run_session (map append_op rs) x)) \<and>
    ses_accepted (run_session (map append_op rs) x) = ses_accepted x @ rs \<and>
    ses_committed (run_session (map append_op rs) x) = ses_committed x \<and>
    ses_popped (run_session (map append_op rs) x) = ses_popped x \<and>
    ses_files (run_session (map append_op rs) x) = ses_files x"
  using assms
proof (induction rs arbitrary: x)
  case Nil
  then show ?case by (simp add: run_session_def)
next
  case (Cons r rs)
  obtain pb t payload where r: "r = (pb, t, payload)" by (cases r)
  let ?y = "session_step (append_op r) x"
  have "accepting (ses_writer ?y)" and y: "ses_accepted ?y = ses_accepted x @ [r]"
    "ses_committed ?y = ses_committed x" "ses_files ?y = ses_files x" "ses_popped ?y = ses_popped x"
    using append_accepting [OF Cons.prems, of pb t payload]
    by (auto simp: r split_beta)
  from Cons.IH [OF this(1)] y show ?case by (simp add: run_session_def)
qed

lemma run_session_append: "run_session (xs @ ys) x = run_session ys (run_session xs x)"
  by (simp add: run_session_def)

lemma run_commit_accepting:
  assumes "accepting (ses_writer x)"
  shows "accepting (ses_writer (run_session [Commit] x))"
    "ses_accepted (run_session [Commit] x) = ses_accepted x"
    "ses_committed (run_session [Commit] x) = ses_accepted x"
  using commit_accepting [OF assms, of "ses_files x"]
  by (auto simp: run_session_def split_beta)

text \<open>After appends and a commit the file is the log.\<close>

lemma accepted_log_on_disk:
  assumes "session_ok good base p s e first x" "accepting (ses_writer x)"
  obtains disk where "file_bytes (ses_files x) p = Some disk"
    "disk @ o_buffer (w_file (ses_writer x)) = segment_bytes s e first (ses_accepted x)"
    "ses_committed x \<noteq> [] \<Longrightarrow> prefix (segment_bytes s e first (ses_committed x)) disk"
  using assms unfolding session_ok_def on_disk_def accepting_def by blast

lemma close_accepting:
  assumes "session_ok good base p s e first x" "accepting (ses_writer x)"
  shows "file_bytes (close_segment_writer (ses_files x) (ses_writer x)) p =
    Some (segment_bytes s e first (ses_accepted x))"
proof -
  obtain disk where d: "file_bytes (ses_files x) p = Some disk"
    "disk @ o_buffer (w_file (ses_writer x)) = segment_bytes s e first (ses_accepted x)"
    using accepted_log_on_disk [OF assms] by blast
  have p: "w_file_path (ses_writer x) = p"
    using assms(1) by (simp add: session_ok_def counters_ok_def Let_def)
  have "file_bytes (append_to_file (ses_files x) p (o_buffer (w_file (ses_writer x)))) p =
      Some (segment_bytes s e first (ses_accepted x))"
    using file_bytes_append_to_file [OF d(1)] d(2) by simp
  then have "file_bytes (append_to_file (append_to_file (ses_files x) p (o_buffer (w_file (ses_writer x)))) p []) p =
      Some (segment_bytes s e first (ses_accepted x))"
    using file_bytes_append_to_file by fastforce
  then show ?thesis
    using assms(2) by (simp add: close_segment_writer_def p stream_flush_accepting accepting_def
        stream_close_def next_outcome_def)
qed

lemma fresh_writer_accepting:
  assumes missing: "fs p = None \<or> fs p = Some (RegularFile [])"
    and dirs: "ensure_parent_directory_exists fs p = Some fs0"
  shows "\<exists>w. new_segment_writer fs [] p s e first = Some (w, fs0(p \<mapsto> RegularFile [])) \<and> accepting w"
proof -
  have same: "fs0 p = fs p" by (rule ensure_parent_other [OF dirs])
  then have fresh: "\<not> is_directory fs0 p" "wal_file_exists fs0 p \<longrightarrow> wal_file_size fs0 p = Some 0"
    using missing by (auto simp: is_directory_def wal_file_exists_def wal_file_size_def file_bytes_def)
  have "ofstream_open fs0 p \<lparr>o_open = False, o_fail = False, o_buffer = [], o_outcomes = []\<rparr> =
      (\<lparr>o_open = True, o_fail = False, o_buffer = [], o_outcomes = []\<rparr>, fs0(p \<mapsto> RegularFile []))"
    using missing same unfolding ofstream_open_def by (auto simp: next_outcome_def fun_upd_idem)
  then show ?thesis
    using fresh by (auto simp: new_segment_writer_def dirs Let_def closed_ofstream_def accepting_def
        write_segment_header_def stream_write_accepting simp del: fun_upd_apply cong: if_cong)
qed

lemma new_writer_accepting:
  assumes "fs p = None" "ensure_parent_directory_exists fs p = Some fs0"
  shows "\<exists>w fs1. new_segment_writer fs [] p s e first = Some (w, fs1) \<and> accepting w \<and>
    fs1 = fs0(p \<mapsto> RegularFile [])"
  using fresh_writer_accepting [OF disjI1 [OF assms(1)] assms(2)] by blast

end
