(* ===== verification/WalFacade.thy ===== *)
theory WalFacade
  imports WalSession
begin

text \<open>
  The public interface of the WAL: the writer and reader facades of \<open>wal.cpp\<close>, scan and recovery of
  a segment, the commit policies and the typed adapters. The adapters are clients of the raw
  interfaces; the locales state what they rely on.
\<close>

section \<open>Writer and reader\<close>

record WalRecord =
  rec_record_type :: u32
  rec_position :: WalPosition
  rec_payload :: bytes

record WalRecoveryResult =
  recovery_ok :: bool
  recovery_error :: WalError
  recovery_last_valid_position :: WalPosition
  recovery_last_valid_offset :: u64
  recovered_incomplete_tail :: bool

text \<open>
  \<open>WalWriter\<close> and \<open>WalReader\<close> own a segment writer and a segment reader, which their constructors
  make from a configuration.
\<close>

record WalWriterConfig =
  wc_file_path :: path
  wc_stream_id :: u64
  wc_epoch :: u64
  wc_first_sequence :: u64

record WalReaderConfig =
  rc_file_path :: path

definition new_wal_writer ::
  "file_system \<Rightarrow> device_outcome list \<Rightarrow> WalWriterConfig \<Rightarrow> (WalSegmentWriter \<times> file_system) option" where
  "new_wal_writer fs outcomes config =
     new_segment_writer fs outcomes (wc_file_path config) (wc_stream_id config) (wc_epoch config)
       (wc_first_sequence config)"

definition new_wal_reader :: "file_system \<Rightarrow> WalReaderConfig \<Rightarrow> WalSegmentReader" where
  "new_wal_reader fs config = new_segment_reader (file_bytes fs (rc_file_path config))"

definition writer_last_position :: "WalSegmentWriter \<Rightarrow> WalPosition" where
  "writer_last_position w = segment_last_position w"

definition reader_last_position :: "WalSegmentReader \<Rightarrow> WalPosition" where
  "reader_last_position r = segment_reader_last_position r"

definition append_record :: "u32 \<Rightarrow> u32 \<Rightarrow> bytes \<Rightarrow> WalSegmentWriter \<Rightarrow> WalAppendResult \<times> WalSegmentWriter" where
  "append_record padding_bytes record_type payload w = segment_append padding_bytes record_type payload w"

definition wal_commit ::
  "file_system \<Rightarrow> WalSegmentWriter \<Rightarrow> WalCommitResult \<times> WalSegmentWriter \<times> file_system" where
  "wal_commit fs w = segment_commit fs w"

text \<open>The record is assigned only when one was read.\<close>

definition read_next_record ::
  "bytes \<Rightarrow> WalSegmentReader \<Rightarrow> WalReadResult \<times> WalRecord option \<times> WalSegmentReader" where
  "read_next_record content r =
     (case segment_read_next content r of (read_result, record_view, r') \<Rightarrow>
        if read_status read_result \<noteq> WalRecordRead then (read_result, None, r')
        else (read_result,
              map_option (\<lambda>view. \<lparr>rec_record_type = rh_record_type (view_header view),
                                  rec_position = read_position read_result,
                                  rec_payload = view_payload view\<rparr>) record_view,
              r'))"

section \<open>Scan and recovery\<close>

definition scan_wal_segment :: "file_system \<Rightarrow> path \<Rightarrow> WalRecoveryResult" where
  "scan_wal_segment fs file_path =
     (let scan_result = scan_segment (file_bytes fs file_path)
      in \<lparr>recovery_ok = scan_ok scan_result, recovery_error = scan_error scan_result,
          recovery_last_valid_position = scan_last_valid_position scan_result,
          recovery_last_valid_offset = scan_last_valid_offset scan_result,
          recovered_incomplete_tail = False\<rparr>)"

text \<open>\<open>None\<close> is the exception of \<open>truncate\<close>.\<close>

definition recover_wal_segment :: "file_system \<Rightarrow> path \<Rightarrow> (WalRecoveryResult \<times> file_system) option" where
  "recover_wal_segment fs file_path =
     (let scan_result = scan_segment (file_bytes fs file_path)
      in if scan_ok scan_result then
           Some (\<lparr>recovery_ok = True, recovery_error = NoError,
                  recovery_last_valid_position = scan_last_valid_position scan_result,
                  recovery_last_valid_offset = scan_last_valid_offset scan_result,
                  recovered_incomplete_tail = False\<rparr>, fs)
         else if scan_error scan_result = IncompleteTrailingRecord then
           (case wal_file_truncate fs file_path (unat (scan_last_valid_offset scan_result)) of
              None \<Rightarrow> None
            | Some fs' \<Rightarrow>
                Some (\<lparr>recovery_ok = True, recovery_error = NoError,
                       recovery_last_valid_position = scan_last_valid_position scan_result,
                       recovery_last_valid_offset = scan_last_valid_offset scan_result,
                       recovered_incomplete_tail = True\<rparr>, fs'))
         else
           Some (\<lparr>recovery_ok = False, recovery_error = scan_error scan_result,
                  recovery_last_valid_position = scan_last_valid_position scan_result,
                  recovery_last_valid_offset = scan_last_valid_offset scan_result,
                  recovered_incomplete_tail = False\<rparr>, fs))"

section \<open>Logs that were cut off\<close>

text \<open>Every prefix of a log is some of its records and a part of the next one.\<close>

lemma log_prefix:
  assumes "prefix d (log_bytes s e q rs)"
  obtains kept rest tail where "rs = kept @ rest" "d = log_bytes s e q kept @ tail"
    "tail = [] \<or> (\<exists>pb t payload rest'. rest = (pb, t, payload) # rest' \<and>
       strict_prefix tail (record_bytes s e pb t payload (q + of_nat (length kept))))"
proof -
  have "\<exists>kept rest tail. rs = kept @ rest \<and> d = log_bytes s e q kept @ tail \<and>
    (tail = [] \<or> (\<exists>pb t payload rest'. rest = (pb, t, payload) # rest' \<and>
       strict_prefix tail (record_bytes s e pb t payload (q + of_nat (length kept)))))"
    using assms
  proof (induction rs arbitrary: q d)
    case Nil
    then show ?case by simp
  next
    case (Cons r rs)
    obtain pb t payload where r: "r = (pb, t, payload)" by (cases r)
    let ?b = "record_bytes s e pb t payload q"
    have "prefix d (?b @ log_bytes s e (q + 1) rs)" using Cons.prems r by simp
    then consider "prefix d ?b" "d \<noteq> ?b" | d' where "d = ?b @ d'" "prefix d' (log_bytes s e (q + 1) rs)"
      unfolding prefix_append by (cases "d = ?b") auto
    then show ?case
    proof cases
      case 1
      then show ?thesis
        by (intro exI [of _ "[]"] exI [of _ "r # rs"] exI [of _ d]) (auto simp: r strict_prefix_def)
    next
      case 2
      from Cons.IH [OF 2(2)] obtain kept rest tail where k: "rs = kept @ rest"
        "d' = log_bytes s e (q + 1) kept @ tail"
        "tail = [] \<or> (\<exists>pb t payload rest'. rest = (pb, t, payload) # rest' \<and>
           strict_prefix tail (record_bytes s e pb t payload (q + 1 + of_nat (length kept))))"
        by blast
      then show ?thesis
        by (intro exI [of _ "r # kept"] exI [of _ rest] exI [of _ tail])
          (auto simp: r 2(1) add.assoc)
    qed
  qed
  then show ?thesis using that by blast
qed

text \<open>Records whose payload is a multiple of the alignment have no padding.\<close>

definition unpadded :: "log_record \<Rightarrow> bool" where
  "unpadded r \<longleftrightarrow> record_fits r \<and> 8 dvd length (snd (snd r))"

lemma length_unpadded:
  assumes "unpadded (pb, t, payload)"
  shows "length (record_bytes s e pb t payload q) = 56 + length payload" "payload_fits payload"
proof -
  show f: "payload_fits payload" using assms by (simp add: unpadded_def record_fits_def)
  then have "record_padding payload = 0"
    using assms record_padding_zero by (simp add: unpadded_def)
  then show "length (record_bytes s e pb t payload q) = 56 + length payload"
    by (simp add: length_record_bytes)
qed

lemma segment_prefix:
  assumes "prefix disk (segment_bytes s e first rs)" "sizeof_segment_header \<le> length disk"
    and "list_all unpadded rs"
  obtains kept rest tail where "rs = kept @ rest" "disk = segment_bytes s e first kept @ tail"
    "tail = [] \<or> (\<exists>pb t payload rest'. rest = (pb, t, payload) # rest' \<and>
       prefix tail (record_bytes s e pb t payload (first + of_nat (length kept))) \<and>
       length tail < 56 + length payload \<and> payload_fits payload)"
proof -
  let ?h = "encode_segment_header (make_segment_header s e first)"
  have leh: "length ?h = sizeof_segment_header"
    by (simp add: segment_header_codec.length_encode)
  obtain d where d: "disk = ?h @ d" "prefix d (log_bytes s e first rs)"
  proof -
    have "prefix disk (?h @ log_bytes s e first rs)" using assms(1) by (simp add: segment_bytes_def)
    then consider "prefix disk ?h" | d where "disk = ?h @ d" "prefix d (log_bytes s e first rs)"
      unfolding prefix_append by blast
    then show ?thesis
    proof cases
      case 1
      then have "disk = ?h" using assms(2) leh by (metis append_Nil2 append_eq_conv_conj prefixE take_all)
      then show ?thesis by (intro that [of "[]"]) simp_all
    qed (rule that)
  qed
  obtain kept rest tail where k: "rs = kept @ rest" "d = log_bytes s e first kept @ tail"
    "tail = [] \<or> (\<exists>pb t payload rest'. rest = (pb, t, payload) # rest' \<and>
       strict_prefix tail (record_bytes s e pb t payload (first + of_nat (length kept))))"
    by (rule log_prefix [OF d(2)])
  show ?thesis
  proof (rule that [OF k(1)])
    show "disk = segment_bytes s e first kept @ tail" using d(1) k(2) by (simp add: segment_bytes_def)
    show "tail = [] \<or> (\<exists>pb t payload rest'. rest = (pb, t, payload) # rest' \<and>
       prefix tail (record_bytes s e pb t payload (first + of_nat (length kept))) \<and>
       length tail < 56 + length payload \<and> payload_fits payload)"
      using k(3)
    proof (elim disjE exE conjE)
      fix pb t payload rest'
      assume r: "rest = (pb, t, payload) # rest'"
        and p: "strict_prefix tail (record_bytes s e pb t payload (first + of_nat (length kept)))"
      have "unpadded (pb, t, payload)" using assms(3) k(1) r by simp
      then show ?thesis
        using r p length_unpadded [of pb t payload] prefix_length_less [OF p] by auto
    qed simp
  qed
qed

text \<open>Every record is complete at the end of some log: the complete prefixes of a file are nested.\<close>

lemma kept_is_longest:
  assumes disk: "disk = segment_bytes s e first kept @ tail" and rs: "rs = kept @ rest"
    and tail: "tail = [] \<or> (\<exists>pb t payload rest'. rest = (pb, t, payload) # rest' \<and>
       prefix tail (record_bytes s e pb t payload (first + of_nat (length kept))) \<and>
       length tail < 56 + length payload \<and> payload_fits payload)"
    and c: "prefix c rs" "prefix (segment_bytes s e first c) disk"
  shows "prefix c kept"
proof (rule ccontr)
  assume n: "\<not> prefix c kept"
  have "prefix kept rs" using rs by simp
  then have "prefix kept c" using c(1) n prefix_same_cases by blast
  then obtain c' where c': "c = kept @ c'" by (auto simp: prefix_def)
  then have "c' \<noteq> []" using n by auto
  then obtain pb t payload c'' where r: "c' = (pb, t, payload) # c''" by (cases c') auto
  then have rest: "\<exists>rest'. rest = (pb, t, payload) # rest'"
    using c(1) rs c' by (auto simp: prefix_def)
  have "prefix (log_bytes s e (first + of_nat (length kept)) c') tail"
    using c(2) disk by (simp add: c' segment_bytes_append)
  then have "length (record_bytes s e pb t payload (first + of_nat (length kept))) \<le> length tail"
    using r prefix_length_le by fastforce
  then have "56 + length payload \<le> length tail" by (simp add: length_record_bytes)
  then show False using tail rest by auto
qed

text \<open>
  Recovery of a cut off log: the complete records stay, the rest goes.
\<close>

definition cut_off :: "u64 \<Rightarrow> u64 \<Rightarrow> u64 \<Rightarrow> log_record list \<Rightarrow> bytes \<Rightarrow> bool" where
  "cut_off s e first rs disk \<longleftrightarrow>
     s \<noteq> 0 \<and> e \<noteq> 0 \<and> first \<noteq> 0 \<and> list_all unpadded rs \<and>
     prefix disk (segment_bytes s e first rs) \<and> sizeof_segment_header \<le> length disk \<and>
     length disk < 2 ^ 64"

lemma unpadded_fits: "list_all unpadded rs \<Longrightarrow> list_all record_fits rs"
  by (induction rs) (simp_all add: unpadded_def)

lemma recover_cut_off:
  assumes cut: "cut_off s e first rs disk" and disk: "file_bytes fs p = Some disk"
  obtains kept fs' where "prefix kept rs" "prefix (segment_bytes s e first kept) disk"
    "\<forall>c. prefix c rs \<and> prefix (segment_bytes s e first c) disk \<longrightarrow> prefix c kept"
    "recover_wal_segment fs p = Some (
       \<lparr>recovery_ok = True, recovery_error = NoError,
        recovery_last_valid_position = log_position s e first kept,
        recovery_last_valid_offset = of_nat (length (segment_bytes s e first kept)),
        recovered_incomplete_tail = (disk \<noteq> segment_bytes s e first kept)\<rparr>, fs')"
    "file_bytes fs' p = Some (segment_bytes s e first kept)"
proof -
  have nz: "s \<noteq> 0" "e \<noteq> 0" "first \<noteq> 0" and un: "list_all unpadded rs"
    and pre: "prefix disk (segment_bytes s e first rs)" "sizeof_segment_header \<le> length disk"
    and len: "length disk < 2 ^ 64"
    using cut by (simp_all add: cut_off_def)
  obtain kept rest tail where rs: "rs = kept @ rest" and d: "disk = segment_bytes s e first kept @ tail"
    and tail: "tail = [] \<or> (\<exists>pb t payload rest'. rest = (pb, t, payload) # rest' \<and>
       prefix tail (record_bytes s e pb t payload (first + of_nat (length kept))) \<and>
       length tail < 56 + length payload \<and> payload_fits payload)"
    by (rule segment_prefix [OF pre un])
  let ?c = "segment_bytes s e first kept"
  have fits: "list_all record_fits kept" using unpadded_fits [OF un] rs by simp
  have longest: "\<forall>c. prefix c rs \<and> prefix (segment_bytes s e first c) disk \<longrightarrow> prefix c kept"
    using kept_is_longest [OF d rs tail] by blast
  have "length ?c < 2 ^ 64" using len d by simp
  then have unat: "unat (of_nat (length ?c) :: u64) = length ?c" by (simp add: unat_of_nat)
  show ?thesis
  proof (cases "tail = []")
    case True
    then show ?thesis
      using that [of kept fs] longest rs d disk scan_complete_segment [OF nz fits]
      by (simp add: recover_wal_segment_def)
  next
    case False
    then have "scan_segment (Some disk) =
        \<lparr>scan_ok = False, scan_error = IncompleteTrailingRecord,
         scan_last_valid_position = log_position s e first kept,
         scan_last_valid_offset = of_nat (length ?c), scan_has_incomplete_trailing_record = True\<rparr>"
      using tail scan_torn_segment [OF nz fits False] d by auto
    moreover have "wal_file_truncate fs p (length ?c) = Some (fs(p \<mapsto> RegularFile ?c))"
      by (simp add: wal_file_truncate_def disk d)
    ultimately show ?thesis
      using that [of kept "fs(p \<mapsto> RegularFile ?c)"] longest rs d disk False
      by (simp add: recover_wal_segment_def unat)
  qed
qed

section \<open>Reading records\<close>

text \<open>The record a reader delivers for the \<open>i\<close>th entry of a log.\<close>

definition delivered :: "u64 \<Rightarrow> u64 \<Rightarrow> u64 \<Rightarrow> log_record \<Rightarrow> WalRecord" where
  "delivered s e q r =
     \<lparr>rec_record_type = fst (snd r),
      rec_position = \<lparr>pos_stream_id = s, pos_epoch = e, pos_sequence = q\<rparr>, rec_payload = snd (snd r)\<rparr>"

fun deliveries :: "u64 \<Rightarrow> u64 \<Rightarrow> u64 \<Rightarrow> log_record list \<Rightarrow> WalRecord list" where
  "deliveries s e q [] = []"
| "deliveries s e q (r # rs) = delivered s e q r # deliveries s e (q + 1) rs"

text \<open>A reader in front of the records \<open>rs\<close>, none of which has the sequence number 0.\<close>

definition reads_log ::
  "bytes \<Rightarrow> u64 \<Rightarrow> u64 \<Rightarrow> u64 \<Rightarrow> log_record list \<Rightarrow> WalSegmentReader \<Rightarrow> bool" where
  "reads_log content s e q rs r \<longleftrightarrow>
     s \<noteq> 0 \<and> e \<noteq> 0 \<and> list_all record_fits rs \<and> (rs = [] \<or> q \<noteq> 0 \<and> unat q + length rs \<le> 2 ^ 64) \<and>
     (\<exists>position. stands_behind content s e q position (log_bytes s e q rs) r)"

lemma unat_next: "unat (q :: u64) + Suc (Suc n) \<le> 2 ^ 64 \<Longrightarrow> unat (q + 1) = unat q + 1"
  by (simp add: unat_word_ariths(1))

lemma read_next_record_log:
  assumes "reads_log content s e q (x # rs) r"
  shows "\<exists>r'. read_next_record content r =
      (record_read \<lparr>pos_stream_id = s, pos_epoch = e, pos_sequence = q\<rparr>, Some (delivered s e q x), r') \<and>
    reads_log content s e (q + 1) rs r'"
proof -
  obtain pb t payload where x: "x = (pb, t, payload)" by (cases x)
  obtain position where "stands_behind content s e q position (log_bytes s e q (x # rs)) r"
    using assms unfolding reads_log_def by blast
  then have st: "stands_behind content s e q position
      (record_bytes s e pb t payload q @ log_bytes s e (q + 1) rs) r"
    by (simp add: x)
  have fits: "payload_fits payload" and nz: "s \<noteq> 0" "e \<noteq> 0" "q \<noteq> 0"
    and range: "unat q + length (x # rs) \<le> 2 ^ 64" "list_all record_fits rs"
    using assms by (auto simp: reads_log_def x record_fits_def)
  obtain r' where r': "segment_read_next content r =
      (record_read \<lparr>pos_stream_id = s, pos_epoch = e, pos_sequence = q\<rparr>,
       Some \<lparr>view_header = make_header s e pb t payload q, view_payload = payload\<rparr>, r')"
    "stands_behind content s e (q + 1) \<lparr>pos_stream_id = s, pos_epoch = e, pos_sequence = q\<rparr>
       (log_bytes s e (q + 1) rs) r'"
    by (rule segment_read_next_ok [OF st fits nz])
  have "rs = [] \<or> q + 1 \<noteq> 0 \<and> unat (q + 1) + length rs \<le> 2 ^ 64"
  proof (cases rs)
    case (Cons y ys)
    then have "unat (q + 1) = unat q + 1" using range unat_next [of q "length ys"] by simp
    then show ?thesis using range by (metis add.assoc add_is_0 length_Cons one_neq_zero plus_1_eq_Suc unat_0)
  qed simp
  then have "reads_log content s e (q + 1) rs r'"
    using r'(2) nz range unfolding reads_log_def by blast
  then show ?thesis
    by (simp add: read_next_record_def r'(1) delivered_def x)
qed

lemma read_next_record_end:
  assumes "reads_log content s e q [] r"
  obtains position r' where "read_next_record content r =
      (\<lparr>read_status = WalReadEnd, read_error = WalEndOfLog, read_position = position\<rparr>, None, r')"
    "reads_log content s e q [] r'"
proof -
  obtain position where st: "stands_behind content s e q position [] r"
    using assms by (auto simp: reads_log_def)
  obtain r' v where r': "segment_read_next content r =
      (\<lparr>read_status = WalReadEnd, read_error = WalEndOfLog, read_position = position\<rparr>, v, r')"
    "stands_behind content s e q position [] r'"
    using segment_read_next_end [OF st] by (metis prod.collapse)
  show ?thesis
  proof (rule that)
    show "read_next_record content r =
      (\<lparr>read_status = WalReadEnd, read_error = WalEndOfLog, read_position = position\<rparr>, None, r')"
      by (simp add: read_next_record_def r'(1))
    show "reads_log content s e q [] r'"
      using assms r'(2) by (auto simp: reads_log_def)
  qed
qed

lemma new_reader_reads_log:
  assumes "s \<noteq> 0" "e \<noteq> 0" "first \<noteq> 0" "list_all record_fits rs" "unat first + length rs \<le> 2 ^ 64"
  shows "reads_log (segment_bytes s e first rs) s e first rs
    (new_segment_reader (Some (segment_bytes s e first rs)))"
  unfolding reads_log_def using assms new_segment_reader_log [OF assms(1-3)] by blast

text \<open>\<open>n\<close> calls of \<open>read_next_record\<close>, one after the other.\<close>

fun read_records :: "nat \<Rightarrow> bytes \<Rightarrow> WalSegmentReader \<Rightarrow> (WalReadStatus \<times> WalRecord option) list" where
  "read_records 0 content r = []"
| "read_records (Suc n) content r =
     (case read_next_record content r of (result, rec, r') \<Rightarrow>
        (read_status result, rec) # read_records n content r')"

lemma read_records_end:
  assumes "reads_log content s e q [] r"
  shows "read_records n content r = replicate n (WalReadEnd, None)"
  using assms
proof (induction n arbitrary: r)
  case (Suc n)
  obtain position r' where "read_next_record content r =
      (\<lparr>read_status = WalReadEnd, read_error = WalEndOfLog, read_position = position\<rparr>, None, r')"
    "reads_log content s e q [] r'"
    by (rule read_next_record_end [OF Suc.prems])
  then show ?case using Suc.IH by simp
qed simp

lemma read_records_log:
  assumes "reads_log content s e q rs r"
  shows "read_records (length rs + n) content r =
    map (\<lambda>d. (WalRecordRead, Some d)) (deliveries s e q rs) @ replicate n (WalReadEnd, None)"
  using assms
proof (induction rs arbitrary: q r)
  case Nil
  then show ?case using read_records_end by simp
next
  case (Cons x rs)
  obtain r' where "read_next_record content r =
      (record_read \<lparr>pos_stream_id = s, pos_epoch = e, pos_sequence = q\<rparr>, Some (delivered s e q x), r')"
    "reads_log content s e (q + 1) rs r'"
    using read_next_record_log [OF Cons.prems] by blast
  then show ?case using Cons.IH by simp
qed

section \<open>Typed adapters\<close>

text \<open>
  \<open>TypedWalWriter\<close> and \<open>TypedWalReader\<close> over a raw writer or reader; \<open>encode\<close> and \<open>decode\<close> copy the
  bytes of a record. The record is assigned only on success.
\<close>

definition typed_append ::
  "('a \<Rightarrow> bytes) \<Rightarrow> u32 \<Rightarrow> (u32 \<Rightarrow> bytes \<Rightarrow> 'w \<Rightarrow> WalAppendResult \<times> 'w) \<Rightarrow> 'a \<Rightarrow> 'w \<Rightarrow> WalAppendResult \<times> 'w" where
  "typed_append encode record_type raw_append record w = raw_append record_type (encode record) w"

definition typed_read_next ::
  "(bytes \<Rightarrow> 'a) \<Rightarrow> nat \<Rightarrow> u32 \<Rightarrow> ('r \<Rightarrow> WalReadResult \<times> WalRecordView option \<times> 'r) \<Rightarrow>
   'r \<Rightarrow> WalReadResult \<times> 'a option \<times> 'r" where
  "typed_read_next decode record_size record_type raw_read_next r =
     (case raw_read_next r of (result, view, r') \<Rightarrow>
        if read_status result \<noteq> WalRecordRead then (result, None, r')
        else (case view of
            None \<Rightarrow> (result, None, r')
          | Some v \<Rightarrow>
              if rh_record_type (view_header v) \<noteq> record_type
              then (result\<lparr>read_status := WalReadFailed, read_error := RecordTypeMismatch\<rparr>, None, r')
              else if length (view_payload v) \<noteq> record_size
              then (result\<lparr>read_status := WalReadFailed, read_error := PayloadSizeMismatch\<rparr>, None, r')
              else (result, Some (decode (view_payload v)), r')))"

definition typed_commit :: "('w \<Rightarrow> WalCommitResult \<times> 'w) \<Rightarrow> 'w \<Rightarrow> WalCommitResult \<times> 'w" where
  "typed_commit raw_commit w = raw_commit w"

definition typed_writer_last_position :: "('w \<Rightarrow> WalPosition) \<Rightarrow> 'w \<Rightarrow> WalPosition" where
  "typed_writer_last_position raw_last_position w = raw_last_position w"

definition typed_reader_last_position :: "('r \<Rightarrow> WalPosition) \<Rightarrow> 'r \<Rightarrow> WalPosition" where
  "typed_reader_last_position raw_last_position r = raw_last_position r"

text \<open>The commit policies, on a raw writer with its commit and its last position.\<close>

definition flush_policy_commit :: "('w \<Rightarrow> WalCommitResult \<times> 'w) \<Rightarrow> 'w \<Rightarrow> WalCommitResult \<times> 'w" where
  "flush_policy_commit commit w = commit w"

definition no_sync_policy_commit :: "('w \<Rightarrow> WalPosition) \<Rightarrow> 'w \<Rightarrow> WalCommitResult \<times> 'w" where
  "no_sync_policy_commit last_position w =
     (\<lparr>commit_status = Committed, commit_error = NoError, committed_up_to = last_position w\<rparr>, w)"

end
