(* ===== verification/WalTyped.thy ===== *)
theory WalTyped
  imports WalFacade
begin

text \<open>
  The interfaces \<open>RawWalWriter\<close> and \<open>RawWalReader\<close> as locales, what their clients get from them, and
  their interpretations on the segment writer and the segment reader.
\<close>

section \<open>Raw writers\<close>

text \<open>
  What an append and a commit promise: the records a writer has accepted and committed, as pairs of
  a type and a payload.
\<close>

locale raw_wal_writer =
  fixes append :: "u32 \<Rightarrow> bytes \<Rightarrow> 'w \<Rightarrow> WalAppendResult \<times> 'w"
    and commit :: "'w \<Rightarrow> WalCommitResult \<times> 'w"
    and accepted :: "'w \<Rightarrow> (u32 \<times> bytes) list"
    and committed :: "'w \<Rightarrow> (u32 \<times> bytes) list"
  assumes append_accepts: "append t payload w = (result, w') \<Longrightarrow>
      accepted w' = (if append_status result = Appended then accepted w @ [(t, payload)] else accepted w) \<and>
      committed w' = committed w"
    and commit_commits: "commit w = (outcome, w') \<Longrightarrow>
      accepted w' = accepted w \<and>
      committed w' = (if commit_status outcome = Committed then accepted w else committed w)"
begin

lemma typed_append_accepts:
  assumes "typed_append encode t append record w = (result, w')" "append_status result = Appended"
  shows "accepted w' = accepted w @ [(t, encode record)]"
  using append_accepts [of t "encode record" w result w'] assms by (simp add: typed_append_def)

lemma flush_policy_commits:
  assumes "flush_policy_commit commit w = (result, w')" "commit_status result = Committed"
  shows "committed w' = accepted w"
  using commit_commits [of w result w'] assms by (simp add: flush_policy_commit_def)

end

text \<open>A session with a segment writer; \<open>pb\<close> are the padding bytes of the record headers.\<close>

definition session_append :: "u32 \<Rightarrow> u32 \<Rightarrow> bytes \<Rightarrow> wal_session \<Rightarrow> WalAppendResult \<times> wal_session" where
  "session_append pb t payload x =
     (fst (segment_append pb t payload (ses_writer x)), session_step (Append pb t payload) x)"

definition session_commit :: "wal_session \<Rightarrow> WalCommitResult \<times> wal_session" where
  "session_commit x = (fst (segment_commit (ses_files x) (ses_writer x)), session_step Commit x)"

interpretation segment_writer: raw_wal_writer "session_append pb" session_commit
    "\<lambda>x. map snd (ses_accepted x)" "\<lambda>x. map snd (ses_committed x)" for pb
  by unfold_locales (auto simp: session_append_def session_commit_def split_beta)

section \<open>Raw readers\<close>

text \<open>\<open>holds_log r rs\<close>: the records \<open>rs\<close> are in front of the reader \<open>r\<close>, and nothing behind them.\<close>

locale raw_wal_reader =
  fixes read_next :: "'r \<Rightarrow> WalReadResult \<times> WalRecordView option \<times> 'r"
    and holds_log :: "'r \<Rightarrow> (u32 \<times> bytes) list \<Rightarrow> bool"
  assumes read_next_record: "holds_log r ((t, payload) # rs) \<Longrightarrow>
      \<exists>result v r'. read_next r = (result, Some v, r') \<and> read_status result = WalRecordRead \<and>
        rh_record_type (view_header v) = t \<and> view_payload v = payload \<and> holds_log r' rs"
    and read_next_end: "holds_log r [] \<Longrightarrow>
      \<exists>result r'. read_next r = (result, None, r') \<and> read_status result = WalReadEnd \<and> holds_log r' []"
begin

lemma typed_read_ok:
  assumes "codec encode decode record_size" "holds_log r ((t, encode record) # rs)"
  obtains result r' where "typed_read_next decode record_size t read_next r = (result, Some record, r')"
    "read_status result = WalRecordRead" "holds_log r' rs"
proof -
  obtain result v r' where "read_next r = (result, Some v, r')" "read_status result = WalRecordRead"
    "rh_record_type (view_header v) = t" "view_payload v = encode record" "holds_log r' rs"
    using read_next_record [OF assms(2)] by blast
  then show ?thesis
    using codec.length_encode [OF assms(1)] codec.decode_encode [OF assms(1)]
    by (intro that) (auto simp: typed_read_next_def)
qed

lemma typed_read_end:
  assumes "holds_log r []"
  obtains result r' where "typed_read_next decode record_size t read_next r = (result, None, r')"
    "read_status result = WalReadEnd" "holds_log r' []"
  using read_next_end [OF assms] by (auto simp: typed_read_next_def)

text \<open>A record of another type or size is refused, and nothing is delivered.\<close>

lemma typed_read_mismatch:
  assumes "holds_log r ((t', payload) # rs)" "t' \<noteq> t \<or> length payload \<noteq> record_size"
  shows "\<exists>result r'. typed_read_next decode record_size t read_next r = (result, None, r') \<and>
    read_status result = WalReadFailed \<and>
    read_error result = (if t' \<noteq> t then RecordTypeMismatch else PayloadSizeMismatch)"
  using read_next_record [OF assms(1)] assms(2) by (auto simp: typed_read_next_def)

end

text \<open>The segment reader on a segment with the content of a complete log.\<close>

definition reader_holds :: "bytes \<Rightarrow> WalSegmentReader \<Rightarrow> (u32 \<times> bytes) list \<Rightarrow> bool" where
  "reader_holds content r xs \<longleftrightarrow> (\<exists>s e q rs. reads_log content s e q rs r \<and> xs = map snd rs)"

lemma segment_read_next_log:
  assumes "reads_log content s e q (x # rs) r"
  shows "\<exists>v r'. segment_read_next content r =
      (record_read \<lparr>pos_stream_id = s, pos_epoch = e, pos_sequence = q\<rparr>, Some v, r') \<and>
    rh_record_type (view_header v) = fst (snd x) \<and> view_payload v = snd (snd x) \<and>
    reads_log content s e (q + 1) rs r'"
proof -
  obtain r' where r': "read_next_record content r =
      (record_read \<lparr>pos_stream_id = s, pos_epoch = e, pos_sequence = q\<rparr>, Some (delivered s e q x), r')"
    "reads_log content s e (q + 1) rs r'"
    using read_next_record_log [OF assms] by blast
  obtain res v r'' where s: "segment_read_next content r = (res, v, r'')"
    by (cases "segment_read_next content r")
  then show ?thesis
    using r' by (cases v) (auto simp: read_next_record_def delivered_def split: if_splits)
qed

lemma segment_read_next_finished:
  assumes "reads_log content s e q [] r"
  obtains result r' where "segment_read_next content r = (result, None, r')"
    "read_status result = WalReadEnd" "reads_log content s e q [] r'"
proof -
  obtain position where st: "stands_behind content s e q position [] r"
    using assms by (auto simp: reads_log_def)
  obtain res v r' where r': "segment_read_next content r = (res, v, r')"
    by (cases "segment_read_next content r")
  then have res: "read_status res = WalReadEnd" "stands_behind content s e q position [] r'"
    using segment_read_next_end [OF st] by simp_all
  have "v = None"
    using r' res(1) unfolding segment_read_next_def Let_def
    by (auto split: if_splits prod.splits)
  then show ?thesis using that [of res r'] r' res assms by (auto simp: reads_log_def)
qed

interpretation segment_reader: raw_wal_reader "segment_read_next content" "reader_holds content" for content
proof
  fix r t payload rs
  assume "reader_holds content r ((t, payload) # rs)"
  then obtain s e q x rs' where "reads_log content s e q (x # rs') r"
    "snd x = (t, payload)" "rs = map snd rs'"
    by (auto simp: reader_holds_def)
  then show "\<exists>result v r'. segment_read_next content r = (result, Some v, r') \<and>
      read_status result = WalRecordRead \<and> rh_record_type (view_header v) = t \<and>
      view_payload v = payload \<and> reader_holds content r' rs"
    using segment_read_next_log [of content s e q x rs' r] by (fastforce simp: reader_holds_def)
next
  fix r
  assume "reader_holds content r []"
  then obtain s e q where "reads_log content s e q [] r" by (auto simp: reader_holds_def)
  then show "\<exists>result r'. segment_read_next content r = (result, None, r') \<and>
      read_status result = WalReadEnd \<and> reader_holds content r' []"
    using segment_read_next_finished by (metis list.map(1) reader_holds_def)
qed

end
