(* ===== verification/WalCorruption.thy ===== *)
theory WalCorruption
  imports WalTyped
begin

text \<open>
  A record whose payload was changed on the device: the scanner and the reader stop in front of it.
  The header is the one the writer made; the changed payload has another checksum.
\<close>

definition damaged_record :: "u64 \<Rightarrow> u64 \<Rightarrow> u32 \<Rightarrow> u32 \<Rightarrow> bytes \<Rightarrow> bytes \<Rightarrow> u64 \<Rightarrow> bytes" where
  "damaged_record s e pb t payload payload' q =
     encode_record_header (make_header s e pb t payload q) @ payload'
     @ replicate (unat (record_padding payload)) 0"

text \<open>Both stop after reading the header and the changed payload.\<close>

lemma read_damaged:
  assumes i: "at n i" and c: "drop n content = damaged_record s e pb t payload payload' q @ rest"
    and fits: "payload_fits payload" and len: "length payload' = length payload" "payload \<noteq> []"
  obtains f1 f2 where
    "stream_read content i sizeof_record_header = (encode_record_header (make_header s e pb t payload q), f1)"
    "at (n + 56) f1" "i_gcount f1 = 56" "\<not> i_eof f1"
    "rh_payload_length (make_header s e pb t payload q) \<noteq> 0"
    "unat (rh_payload_length (make_header s e pb t payload q)) = length payload"
    "stream_read content f1 (length payload) = (payload', f2)" "i_gcount f2 = length payload"
proof -
  let ?h = "make_header s e pb t payload q"
  let ?tail = "replicate (unat (record_padding payload)) 0 @ rest"
  have c': "drop n content = encode_record_header ?h @ payload' @ ?tail"
    using c by (simp add: damaged_record_def)
  have leh: "length (encode_record_header ?h) = 56"
    by (simp add: record_header_codec.length_encode sizeof_record_header_def)
  obtain f1 where r1: "stream_read content i 56 = (encode_record_header ?h, f1)"
    and f1: "at (n + 56) f1" "i_gcount f1 = 56" "\<not> i_eof f1"
    by (rule stream_read_at [OF i c' leh])
  have d1: "drop (n + 56) content = payload' @ ?tail" using drop_advance [OF c'] leh by simp
  obtain f2 where r2: "stream_read content f1 (length payload) = (payload', f2)" "i_gcount f2 = length payload"
    by (rule stream_read_at [OF f1(1) d1 len(1)])
  have ul: "unat (rh_payload_length ?h) = length payload" using record_lengths(1) [OF fits] by simp
  then have nz: "rh_payload_length ?h \<noteq> 0" using len(2) by (metis length_0_conv unat_0)
  show ?thesis
    by (rule that [OF _ f1 nz ul r2]) (use r1 in \<open>simp add: sizeof_record_header_def\<close>)
qed

lemma scan_loop_damaged:
  assumes i: "at n i" and c: "drop n content = damaged_record s e pb t payload payload' q @ rest"
    and fits: "payload_fits payload" and len: "length payload' = length payload" "payload \<noteq> []"
    and crc: "calculate_crc32 payload' \<noteq> calculate_crc32 payload"
    and h: "sh_stream_id h = s" "sh_epoch h = e"
  shows "scan_loop content h i q r = corrupted_record r (of_nat n)"
proof -
  let ?h = "make_header s e pb t payload q"
  have tell: "stream_tellg i = (int n, i)" using i stream_tellg_good by (simp add: at_def)
  obtain f1 f2 where r1: "stream_read content i sizeof_record_header = (encode_record_header ?h, f1)"
    and f1: "i_gcount f1 = 56" "\<not> i_eof f1"
    and nz: "rh_payload_length ?h \<noteq> 0" and ul: "unat (rh_payload_length ?h) = length payload"
    and r2: "stream_read content f1 (length payload) = (payload', f2)" "i_gcount f2 = length payload"
    by (rule read_damaged [OF i c fits len])
  have c1: "(i_gcount f1 = 0 \<and> i_eof f1) = False" "(i_gcount f1 \<noteq> sizeof_record_header) = False"
    using f1 by (simp_all add: sizeof_record_header_def)
  have c2: "(\<not> record_header_valid ?h \<or> rh_header_crc ?h \<noteq> calculate_record_header_crc ?h
      \<or> rh_stream_id ?h \<noteq> sh_stream_id h \<or> rh_epoch ?h \<noteq> sh_epoch h \<or> rh_sequence ?h \<noteq> q) = False"
    using make_header_valid [OF fits] make_header_crc [of s e pb t payload q] h by simp
  have c3: "(calculate_crc32 payload' \<noteq> rh_payload_crc ?h) = True" using crc by simp
  have "scan_record content h i q r = Inl (corrupted_record r (of_nat n))"
    by (simp only: scan_record_def tell Let_def prod.case r1 record_header_codec.decode_encode
        nz r2 ul c1 c2 c3 if_False if_True simp_thms) simp
  then show ?thesis by (subst scan_loop.simps) simp
qed

lemma scan_damaged_segment:
  assumes nz: "s \<noteq> 0" "e \<noteq> 0" "first \<noteq> 0" "list_all record_fits rs"
    and fits: "payload_fits payload" and len: "length payload' = length payload" "payload \<noteq> []"
    and crc: "calculate_crc32 payload' \<noteq> calculate_crc32 payload"
  shows "scan_segment (Some (segment_bytes s e first rs
      @ damaged_record s e pb t payload payload' (first + of_nat (length rs)) @ rest)) =
    \<lparr>scan_ok = False, scan_error = CorruptedMiddleRecord,
     scan_last_valid_position = log_position s e first rs,
     scan_last_valid_offset = of_nat (length (segment_bytes s e first rs)),
     scan_has_incomplete_trailing_record = False\<rparr>"
proof -
  let ?d = "damaged_record s e pb t payload payload' (first + of_nat (length rs)) @ rest"
  obtain i where i: "scan_segment (Some (segment_bytes s e first rs @ ?d)) =
       scan_loop (segment_bytes s e first rs @ ?d) (make_segment_header s e first) i
         (first + of_nat (length rs))
         (scanned s e first rs (length (segment_bytes s e first rs))
            (empty_scan_result\<lparr>scan_ok := True, scan_last_valid_offset := of_nat sizeof_segment_header\<rparr>))"
    "at (length (segment_bytes s e first rs)) i"
    by (rule scan_segment_start [OF nz])
  show ?thesis
    unfolding i(1)
    by (subst scan_loop_damaged [OF i(2) _ fits len crc, of _ s e])
      (simp_all add: scanned_start corrupted_record_def)
qed

lemma segment_read_next_damaged:
  assumes r: "stands_behind content s e q position (damaged_record s e pb t payload payload' q @ rest) r"
    and fits: "payload_fits payload" and len: "length payload' = length payload" "payload \<noteq> []"
    and crc: "calculate_crc32 payload' \<noteq> calculate_crc32 payload"
  shows "fst (segment_read_next content r) = read_failed PayloadChecksumMismatch position \<and>
    fst (snd (segment_read_next content r)) = None"
proof -
  let ?h = "make_header s e pb t payload q"
  obtain n where i: "at n (rd_file r)"
    and d: "drop n content = damaged_record s e pb t payload payload' q @ rest"
    using r unfolding stands_behind_def by blast
  obtain f1 f2 where r1: "stream_read content (rd_file r) sizeof_record_header = (encode_record_header ?h, f1)"
    and f1: "at (n + 56) f1" "i_gcount f1 = 56" "\<not> i_eof f1"
    and nz: "rh_payload_length ?h \<noteq> 0" and ul: "unat (rh_payload_length ?h) = length payload"
    and r2: "stream_read content f1 (length payload) = (payload', f2)" "i_gcount f2 = length payload"
    by (rule read_damaged [OF i d fits len])
  have exp: "(if position_is_valid (rd_last_position r) then pos_sequence (rd_last_position r) + 1
      else sh_first_sequence (rd_segment_header r)) = q"
    and h: "sh_stream_id (rd_segment_header r) = s" "sh_epoch (rd_segment_header r) = e"
    and opn: "(read_status (rd_open_result r) \<noteq> WalRecordRead) = False"
    and pos: "rd_last_position r = position"
    using r unfolding stands_behind_def by blast+
  have sok: "stream_ok (rd_file r)" using i by (simp add: at_def stream_ok_def stream_good_def)
  have c1: "(i_gcount f1 = 0 \<and> i_eof f1) = False" "(i_gcount f1 \<noteq> sizeof_record_header) = False"
    using f1 by (simp_all add: sizeof_record_header_def)
  have c2: "(rh_header_crc ?h \<noteq> calculate_record_header_crc ?h) = False"
    using make_header_crc [of s e pb t payload q] by simp
  have hdr: "read_record_header content r =
      (record_read \<lparr>pos_stream_id = s, pos_epoch = e, pos_sequence = q\<rparr>, ?h, r\<lparr>rd_file := f1\<rparr>)"
    by (simp only: read_record_header_def r1 Let_def prod.case record_header_codec.decode_encode
        c1 c2 exp h make_header_valid [OF fits] make_header_fields simp_thms if_False if_True)
  have pl: "read_payload content (r\<lparr>rd_file := f1\<rparr>) ?h =
      (read_failed PayloadChecksumMismatch position, r\<lparr>rd_file := f2, rd_payload_buffer := payload'\<rparr>)"
    using crc by (simp add: read_payload_def ul [unfolded make_header_fields] r2 Let_def len pos
        nz [unfolded make_header_fields] record_lengths(1) [OF fits])
  show ?thesis
    using sok by (simp add: segment_read_next_def opn [simplified] hdr pl)
qed

end
