(* ===== verification/WalOrder.thy ===== *)
theory WalOrder
  imports WalSession
begin

text \<open>
  The order of the records in the file of a session: whatever the device did, what is on the device
  and in the buffer is a prefix of the log of the records the session tried to append, in the order
  of the attempts; the accepted ones come first, and at most one more is there in part.
\<close>

section \<open>Records reach the file in order\<close>

fun appended_records :: "writer_op list \<Rightarrow> log_record list" where
  "appended_records [] = []"
| "appended_records (Append pb t payload # ops) = (pb, t, payload) # appended_records ops"
| "appended_records (Commit # ops) = appended_records ops"
| "appended_records (Pop # ops) = appended_records ops"

text \<open>
  Behind the accepted records there is at most a part of the next record that was tried; while the
  writer works it has accepted all of them.
\<close>

definition log_in_order ::
  "path \<Rightarrow> u64 \<Rightarrow> u64 \<Rightarrow> u64 \<Rightarrow> log_record list \<Rightarrow> wal_session \<Rightarrow> bool" where
  "log_in_order p s e first tried x \<longleftrightarrow>
     (\<exists>disk more. file_bytes (ses_files x) p = Some disk \<and>
        prefix (ses_accepted x @ more) tried \<and> length more \<le> 1 \<and>
        prefix (disk @ o_buffer (w_file (ses_writer x))) (segment_bytes s e first (ses_accepted x @ more))) \<and>
     (w_writer_error (ses_writer x) = NoError \<and> \<not> o_fail (w_file (ses_writer x)) \<longrightarrow>
        ses_accepted x = tried)"

lemma session_ok_fields:
  assumes "session_ok good base p s e first x"
  shows "w_file_path (ses_writer x) = p" "w_stream_id (ses_writer x) = s" "w_epoch (ses_writer x) = e"
    "w_next_sequence (ses_writer x) = first + of_nat (length (ses_accepted x))"
    "prefix (ses_committed x) (ses_accepted x)"
  using assms by (simp_all add: session_ok_def counters_ok_def Let_def)

lemma log_in_order_appended:
  assumes ok: "session_ok good base p s e first x" and ord: "log_in_order p s e first tried x"
    and healthy: "w_writer_error (ses_writer x) = NoError" "\<not> o_fail (w_file (ses_writer x))"
  shows "log_in_order p s e first (tried @ [(pb, t, payload)]) (session_step (Append pb t payload) x)"
proof -
  let ?w = "ses_writer x" and ?r = "(pb, t, payload)"
  have acc: "ses_accepted x = tried" using ord healthy by (simp add: log_in_order_def)
  obtain disk where d: "file_bytes (ses_files x) p = Some disk"
    "disk @ o_buffer (w_file ?w) = segment_bytes s e first tried"
    using ok healthy acc unfolding session_ok_def on_disk_def by blast
  have bytes: "prefix (disk @ o_buffer (w_file ?w) @ part) (segment_bytes s e first (tried @ [?r]))"
    if "prefix part (record_bytes s e pb t payload (first + of_nat (length tried)))" for part
  proof -
    have "disk @ o_buffer (w_file ?w) @ part = segment_bytes s e first tried @ part"
      using d(2) by (metis append.assoc)
    then show ?thesis using that by (simp only: segment_bytes_snoc same_prefix_prefix)
  qed
  have seg: "segment_append pb t payload ?w = write_record pb t payload ?w"
    using healthy by (simp add: segment_append_def)
  show ?thesis
  proof (rule write_record_cases [of ?w pb t payload])
    fix out
    assume o: "wrote (w_file ?w) (record_bytes (w_stream_id ?w) (w_epoch ?w) pb t payload (w_next_sequence ?w)) out"
      and bad: "o_fail out \<Longrightarrow> write_record pb t payload ?w =
       (\<lparr>append_status = AppendFailed, append_error = CannotWriteFile, append_position = w_last_position ?w\<rparr>,
        fail_writer CannotWriteFile (?w\<lparr>w_file := out\<rparr>))"
      and good: "\<not> o_fail out \<Longrightarrow> write_record pb t payload ?w =
       (let position = \<lparr>pos_stream_id = w_stream_id ?w, pos_epoch = w_epoch ?w, pos_sequence = w_next_sequence ?w\<rparr>
        in (\<lparr>append_status = Appended, append_error = NoError, append_position = position\<rparr>,
            ?w\<lparr>w_file := out, w_next_sequence := w_next_sequence ?w + 1, w_last_position := position,
              w_pending_positions := w_pending_positions ?w @ [position]\<rparr>))"
    obtain part where part: "prefix part (record_bytes s e pb t payload (first + of_nat (length tried)))"
      "o_buffer out = o_buffer (w_file ?w) @ part"
      using o session_ok_fields(2-4) [OF ok] acc unfolding wrote_def by auto
    show ?thesis
      using d(1) bytes [OF part(1)] part(2) healthy acc bad good unfolding log_in_order_def
      by (intro conjI exI [of _ disk] exI [of _ "if o_fail out then [?r] else []"])
        (cases "o_fail out"; simp add: seg fail_writer_eq Let_def)+
  qed
qed

lemma log_in_order_append:
  assumes ok: "session_ok good base p s e first x" and ord: "log_in_order p s e first tried x"
  shows "log_in_order p s e first (tried @ [(pb, t, payload)]) (session_step (Append pb t payload) x)"
proof (cases "w_writer_error (ses_writer x) = NoError \<and> \<not> o_fail (w_file (ses_writer x))")
  case True
  then show ?thesis using log_in_order_appended [OF ok ord] by blast
next
  case False
  then have "ses_files (session_step (Append pb t payload) x) = ses_files x \<and>
      ses_accepted (session_step (Append pb t payload) x) = ses_accepted x \<and>
      w_file (ses_writer (session_step (Append pb t payload) x)) = w_file (ses_writer x) \<and>
      w_writer_error (ses_writer (session_step (Append pb t payload) x)) \<noteq> NoError"
    by (auto simp: segment_append_def fail_writer_eq)
  then show ?thesis
    using ord unfolding log_in_order_def by (metis prefix_prefix)
qed

lemma log_in_order_commit:
  assumes ok: "session_ok good base p s e first x" and ord: "log_in_order p s e first tried x"
  shows "log_in_order p s e first tried (session_step Commit x)"
proof (cases "w_writer_error (ses_writer x) = NoError")
  case False
  then show ?thesis using ord by (simp add: segment_commit_def)
next
  case True
  let ?w = "ses_writer x"
  obtain disk more where d: "file_bytes (ses_files x) p = Some disk" "prefix (ses_accepted x @ more) tried" "length more \<le> 1"
    "prefix (disk @ o_buffer (w_file ?w)) (segment_bytes s e first (ses_accepted x @ more))"
    using ord unfolding log_in_order_def by blast
  obtain out fs where flush: "stream_flush (ses_files x) p (w_file ?w) = (out, fs)"
    by (cases "stream_flush (ses_files x) p (w_file ?w)")
  obtain disk' where d': "file_bytes fs p = Some disk'" "disk' @ o_buffer out = disk @ o_buffer (w_file ?w)"
    using flush_bytes [OF d(1), of "w_file ?w"] unfolding flush fst_conv snd_conv by metis
  have keep: "\<exists>disk more. file_bytes fs p = Some disk \<and> prefix (ses_accepted x @ more) tried \<and>
      length more \<le> 1 \<and> prefix (disk @ o_buffer out) (segment_bytes s e first (ses_accepted x @ more))"
    using d d' by (intro exI [of _ disk'] exI [of _ more]) simp
  have "\<not> o_fail out \<Longrightarrow> ses_accepted x = tried"
    using flush_fail [of "ses_files x" p "w_file ?w"] ord True by (simp add: flush log_in_order_def)
  then show ?thesis
    using keep True session_ok_fields(1) [OF ok]
    by (auto simp: log_in_order_def segment_commit_def flush fail_writer_eq publish_positions_eq Let_def)
qed

lemma log_in_order_pop:
  "log_in_order p s e first tried x \<Longrightarrow> log_in_order p s e first tried (session_step Pop x)"
  by (auto simp: log_in_order_def pop_committed_position_def split: list.splits)

lemma log_in_order_run:
  assumes "session_ok good base p s e first x" "log_in_order p s e first tried x" "list_all (op_good good) ops"
  shows "log_in_order p s e first (tried @ appended_records ops) (run_session ops x)"
  using assms
proof (induction ops arbitrary: x tried)
  case Nil
  then show ?case by (simp add: run_session_def)
next
  case (Cons op ops)
  have ok: "session_ok good base p s e first (session_step op x)"
    using session_ok_run [OF Cons.prems(1), of "[op]"] Cons.prems(3) by (simp add: run_session_def)
  have run: "run_session (op # ops) x = run_session ops (session_step op x)" by (simp add: run_session_def)
  have "list_all (op_good good) ops" using Cons.prems(3) by simp
  note IH = Cons.IH [OF ok _ this]
  show ?case
  proof (cases op)
    case (Append pb t payload)
    show ?thesis
      unfolding run unfolding Append using IH [unfolded Append, OF log_in_order_append [OF Cons.prems(1,2)]] by simp
  next
    case Commit
    show ?thesis
      unfolding run unfolding Commit using IH [unfolded Commit, OF log_in_order_commit [OF Cons.prems(1,2)]] by simp
  next
    case Pop
    show ?thesis
      unfolding run unfolding Pop using IH [unfolded Pop, OF log_in_order_pop [OF Cons.prems(2)]] by simp
  qed
qed

lemma op_good_appended: "list_all (op_good good) ops \<longleftrightarrow> list_all good (appended_records ops)"
  by (induction ops rule: appended_records.induct) simp_all

text \<open>A session starts in order when the file and the buffer hold the log it starts with.\<close>

lemma log_in_order_start:
  assumes "session_ok good base p s e first (start_session kept fs1 w)"
    and "w_writer_error w = NoError \<and> \<not> o_fail (w_file w) \<or>
      file_bytes fs1 p = Some (segment_bytes s e first kept) \<and> o_buffer (w_file w) = []"
  shows "log_in_order p s e first kept (start_session kept fs1 w)"
proof -
  obtain disk where "file_bytes fs1 p = Some disk" "disk @ o_buffer (w_file w) = segment_bytes s e first kept"
    using assms by (auto simp: session_ok_def on_disk_def start_session_def)
  then show ?thesis
    unfolding log_in_order_def by (intro conjI exI [of _ disk] exI [of _ "[]"]) (auto simp: start_session_def)
qed

lemma log_in_order_fresh:
  assumes new: "new_segment_writer fs outcomes p s e first = Some (w, fs1)"
    and missing: "fs p = None \<or> fs p = Some (RegularFile [])" and fine: "w_writer_error w = NoError"
  shows "log_in_order p s e first [] (start_session [] fs1 w)"
proof (rule log_in_order_start)
  show "session_ok (\<lambda>_. True) 0 p s e first (start_session [] fs1 w)"
    by (rule fresh_writer_session [OF new missing fine])
  have "\<not> o_fail (w_file w)"
    by (rule fresh_writer [OF new missing]) (use fine in \<open>auto split: if_splits\<close>)
  then show "w_writer_error w = NoError \<and> \<not> o_fail (w_file w) \<or>
      file_bytes fs1 p = Some (segment_bytes s e first []) \<and> o_buffer (w_file w) = []"
    using fine by simp
qed

end
