(* ===== verification/WalProperties.thy ===== *)
theory WalProperties
  imports WalCorruption WalOrder
begin

text \<open>
  The properties of the WAL: what a session leaves on the device, what recovery and reopening keep,
  that readers deliver what was written, and the state machine of a writer.
\<close>

text \<open>A sample log, with stream 7 in epoch 1; the payloads need no padding.\<close>

definition sample_payload :: bytes where
  "sample_payload = [1, 2, 3, 4, 5, 6, 7, 8]"

definition sample_log :: "log_record list" where
  "sample_log = [(0, 1, sample_payload), (0, 2, [])]"

lemma length_sample_payload [simp]: "length sample_payload = 8"
  by (simp add: sample_payload_def)

lemma sample_log_unpadded: "list_all unpadded sample_log" "list_all record_fits sample_log"
  by (simp_all add: sample_log_def unpadded_def record_fits_def payload_fits_def)

lemma sample_payload_padding: "record_padding sample_payload = 0" "record_padding [] = 0"
  using record_padding_zero [of sample_payload] record_padding_zero [of "[]"]
  by (simp_all add: payload_fits_def)

lemma sample_log_lengths:
  "length (segment_bytes 7 1 1 sample_log) = 160" "length (segment_bytes 7 1 1 []) = 40"
  by (simp_all add: segment_bytes_def sample_log_def length_record_bytes sample_payload_padding
      segment_header_codec.length_encode sizeof_segment_header_def)

definition sample_session :: "writer_op list" where
  "sample_session = map append_op sample_log @ [Commit]"

lemma sample_session_fits: "list_all (op_good unpadded) sample_session" "list_all (op_good record_fits) sample_session"
  using sample_log_unpadded by (simp_all add: sample_session_def sample_log_def)

lemma run_session_one: "run_session [op] x = session_step op x"
  by (simp add: run_session_def)

lemma sample_session_run:
  assumes "accepting (ses_writer x)"
  shows "ses_accepted (run_session sample_session x) = ses_accepted x @ sample_log"
    "ses_committed (run_session sample_session x) = ses_accepted x @ sample_log"
    "accepting (ses_writer (run_session sample_session x))"
  using run_appends_accepting [OF assms, of sample_log]
    run_commit_accepting [of "run_session (map append_op sample_log) x"]
  by (simp_all add: sample_session_def run_session_append)

lemma sample_writer:
  obtains w fs1 where "new_segment_writer (\<lambda>_. None) [] [''a.wal''] 7 1 1 = Some (w, fs1)" "accepting w"
  using new_writer_accepting [of "\<lambda>_. None" "[''a.wal'']" "\<lambda>_. None" 7 1 1]
  by (auto simp: ensure_parent_directory_exists_def)

text \<open>What a session that committed something leaves in the file, before and after closing.\<close>

lemma session_leaves:
  assumes "new_segment_writer fs outcomes p s e first = Some (w, fs1)" "fs p = None"
    and "list_all (op_good good) ops" "x = run_session ops (start_session [] fs1 w)"
    and "ses_committed x \<noteq> []"
    and "files = ses_files x \<or> files = close_segment_writer (ses_files x) (ses_writer x)"
  shows "\<exists>disk more. file_bytes files p = Some disk \<and>
    prefix (ses_committed x) (ses_accepted x) \<and>
    prefix (segment_bytes s e first (ses_committed x)) disk \<and>
    prefix disk (segment_bytes s e first (ses_accepted x @ more)) \<and>
    prefix (ses_accepted x @ more) (appended_records ops) \<and> length more \<le> 1 \<and>
    list_all good (ses_accepted x @ more)"
proof -
  have fine: "w_writer_error w = NoError"
    using failed_writer_run [of "start_session [] fs1 w" ops] assms(4,5) by (auto simp: start_session_def)
  note start = new_writer_session [OF assms(1,2) fine]
  have ok: "session_ok good 0 p s e first x" using session_ok_run [OF start] assms(3,4) by blast
  have "log_in_order p s e first (appended_records ops) x"
    using log_in_order_run [OF start log_in_order_fresh [OF assms(1) disjI1 [OF assms(2)] fine] assms(3)] assms(4)
    by simp
  then obtain disk more where d: "file_bytes (ses_files x) p = Some disk"
    "prefix (ses_accepted x @ more) (appended_records ops)" "length more \<le> 1"
    "prefix (disk @ o_buffer (w_file (ses_writer x))) (segment_bytes s e first (ses_accepted x @ more))"
    unfolding log_in_order_def by blast
  have good: "list_all good (ses_accepted x @ more)"
    using assms(3) d(2) by (auto simp: op_good_appended prefix_def)
  have com: "prefix (segment_bytes s e first (ses_committed x)) disk"
    using ok d(1) assms(5) unfolding session_ok_def on_disk_def by auto
  obtain disk' where d': "file_bytes (close_segment_writer (ses_files x) (ses_writer x)) p = Some disk'"
    "prefix disk disk'" "prefix disk' (disk @ o_buffer (w_file (ses_writer x)))"
    by (rule close_writer_bytes [OF d(1) session_ok_fields(1) [OF ok]])
  have there: "file_bytes files p = Some disk \<or> file_bytes files p = Some disk'"
    using assms(6) d(1) d'(1) by blast
  have "prefix disk (segment_bytes s e first (ses_accepted x @ more))"
    "prefix disk' (segment_bytes s e first (ses_accepted x @ more))"
    "prefix (segment_bytes s e first (ses_committed x)) disk'"
    using d(4) d'(2,3) com prefix_order.trans by (meson append_prefixD)+
  then show ?thesis using there com d(2,3) good session_ok_fields(5) [OF ok] by blast
qed

text \<open>
  C15: Committed records survive. Take any session of appends, commits and pops with a writer on a new
  file, on a device that may stop in the middle of any write or flush, and look at the file at any
  moment once something was reported as committed, before or after the writer is closed. It starts
  with exactly the bytes of the committed records, in order, and it is a prefix of the log of the
  records the session tried to append, in the order of the attempts: the accepted ones, of which
  the committed ones are the first, and at most one more, whose append failed. So no record is
  lost, reordered or damaged, and nothing else is in the file.
\<close>

theorem committed_records_survive:
  assumes "new_segment_writer fs outcomes p s e first = Some (w, fs1)" "fs p = None"
    and "list_all (op_good record_fits) ops" "x = run_session ops (start_session [] fs1 w)"
    and "ses_committed x \<noteq> []"
    and "files = ses_files x \<or> files = close_segment_writer (ses_files x) (ses_writer x)"
  shows "\<exists>disk more. file_bytes files p = Some disk \<and>
    prefix (ses_committed x) (ses_accepted x) \<and>
    prefix (segment_bytes s e first (ses_committed x)) disk \<and>
    prefix disk (segment_bytes s e first (ses_accepted x @ more)) \<and>
    prefix (ses_accepted x @ more) (appended_records ops) \<and> length more \<le> 1 \<and>
    list_all record_fits (ses_accepted x @ more)"
  by (rule session_leaves [OF assms])

lemma committed_records_survive_witness:
  "\<exists>w fs1 disk. new_segment_writer (\<lambda>_. None) [] [''a.wal''] 7 1 1 = Some (w, fs1) \<and>
     file_bytes (ses_files (run_session sample_session (start_session [] fs1 w))) [''a.wal''] = Some disk \<and>
     prefix (segment_bytes 7 1 1 sample_log) disk"
proof -
  obtain w fs1 where w: "new_segment_writer (\<lambda>_. None) [] [''a.wal''] 7 1 1 = Some (w, fs1)" "accepting w"
    by (rule sample_writer)
  let ?x = "run_session sample_session (start_session [] fs1 w)"
  have c: "ses_committed ?x = sample_log"
    using sample_session_run [of "start_session [] fs1 w"] w(2) by (simp add: start_session_def)
  then have "ses_committed ?x \<noteq> []" by (simp add: sample_log_def)
  from committed_records_survive [OF w(1) refl sample_session_fits(2) refl this disjI1 [OF refl]]
  show ?thesis using w(1) unfolding c by blast
qed

text \<open>
  C13: Recovery keeps exactly the complete records. A segment file whose records need no padding (as
  those of commands and events) and that was cut off anywhere behind its header is recovered:
  the result names the last complete record and the offset behind it, the file is cut to the
  complete records and to nothing less, and scanning it again finds a valid segment.
\<close>

theorem recovery_keeps_complete_records:
  assumes "cut_off s e first rs disk" "file_bytes fs p = Some disk"
  shows "\<exists>kept result fs'. recover_wal_segment fs p = Some (result, fs') \<and> recovery_ok result \<and>
    prefix kept rs \<and> prefix (segment_bytes s e first kept) disk \<and>
    (\<forall>c. prefix c rs \<and> prefix (segment_bytes s e first c) disk \<longrightarrow> prefix c kept) \<and>
    file_bytes fs' p = Some (segment_bytes s e first kept) \<and>
    recovery_last_valid_position result = log_position s e first kept \<and>
    unat (recovery_last_valid_offset result) = length (segment_bytes s e first kept) \<and>
    recovered_incomplete_tail result = (disk \<noteq> segment_bytes s e first kept) \<and>
    scan_wal_segment fs' p = result\<lparr>recovered_incomplete_tail := False\<rparr>"
proof -
  obtain kept fs' where k: "prefix kept rs" "prefix (segment_bytes s e first kept) disk"
    "\<forall>c. prefix c rs \<and> prefix (segment_bytes s e first c) disk \<longrightarrow> prefix c kept"
    "recover_wal_segment fs p = Some (
       \<lparr>recovery_ok = True, recovery_error = NoError,
        recovery_last_valid_position = log_position s e first kept,
        recovery_last_valid_offset = of_nat (length (segment_bytes s e first kept)),
        recovered_incomplete_tail = (disk \<noteq> segment_bytes s e first kept)\<rparr>, fs')"
    "file_bytes fs' p = Some (segment_bytes s e first kept)"
    by (rule recover_cut_off [OF assms])
  have nz: "s \<noteq> 0" "e \<noteq> 0" "first \<noteq> 0" "list_all unpadded rs" "length disk < 2 ^ 64"
    using assms(1) by (simp_all add: cut_off_def)
  have "list_all record_fits kept"
    using unpadded_fits [OF nz(4)] k(1) by (auto simp: prefix_def)
  then have "scan_wal_segment fs' p =
      \<lparr>recovery_ok = True, recovery_error = NoError,
        recovery_last_valid_position = log_position s e first kept,
        recovery_last_valid_offset = of_nat (length (segment_bytes s e first kept)),
        recovered_incomplete_tail = False\<rparr>"
    using scan_complete_segment [OF nz(1-3)] k(5) by (simp add: scan_wal_segment_def)
  moreover have "length (segment_bytes s e first kept) < 2 ^ 64"
    using prefix_length_le [OF k(2)] nz(5) by simp
  ultimately show ?thesis
    using k by (intro exI [of _ kept] exI conjI) (assumption | simp add: unat_of_nat)+
qed

lemma recovery_keeps_complete_records_witness:
  "\<exists>kept result fs'. recover_wal_segment
       ((\<lambda>_. None)([''a.wal''] \<mapsto> RegularFile (take 100 (segment_bytes 7 1 1 sample_log)))) [''a.wal''] =
     Some (result, fs') \<and> recovery_ok result \<and> prefix kept sample_log"
proof -
  have "cut_off 7 1 1 sample_log (take 100 (segment_bytes 7 1 1 sample_log))"
    by (simp add: cut_off_def sample_log_unpadded take_is_prefix sample_log_lengths sizeof_segment_header_def)
  from recovery_keeps_complete_records [OF this file_bytes_update] show ?thesis by blast
qed

text \<open>
  C7: Crash safety end to end. Whatever the device did during a session on a new file, if a commit
  was reported, then recovery of the file that is left behind succeeds, and the recovered segment
  holds every committed record, in order and unchanged; what else it holds are further records of
  the session. The payloads are multiples of eight bytes long, as those of commands and events.
\<close>

theorem committed_records_are_recovered:
  assumes "new_segment_writer fs outcomes p s e first = Some (w, fs1)" "fs p = None"
    and "s \<noteq> 0" "e \<noteq> 0" "first \<noteq> 0"
    and "list_all (op_good unpadded) ops" "x = run_session ops (start_session [] fs1 w)"
    and "ses_committed x \<noteq> []"
    and "files = ses_files x \<or> files = close_segment_writer (ses_files x) (ses_writer x)"
    and "\<And>disk. file_bytes files p = Some disk \<Longrightarrow> length disk < 2 ^ 64"
  shows "\<exists>kept more result files'. recover_wal_segment files p = Some (result, files') \<and>
    recovery_ok result \<and> recovery_last_valid_position result = log_position s e first kept \<and>
    file_bytes files' p = Some (segment_bytes s e first kept) \<and>
    prefix (ses_committed x) kept \<and> prefix kept (ses_accepted x @ more) \<and>
    prefix (ses_accepted x @ more) (appended_records ops)"
proof -
  obtain disk more where d: "file_bytes files p = Some disk"
    "prefix (ses_committed x) (ses_accepted x)"
    "prefix (segment_bytes s e first (ses_committed x)) disk"
    "prefix disk (segment_bytes s e first (ses_accepted x @ more))"
    and tried: "prefix (ses_accepted x @ more) (appended_records ops)"
    and unpadded: "list_all unpadded (ses_accepted x @ more)"
    using session_leaves [OF assms(1,2,6-9)] by blast
  have "sizeof_segment_header \<le> length (segment_bytes s e first (ses_committed x))"
    by (simp add: segment_bytes_def segment_header_codec.length_encode)
  then have "cut_off s e first (ses_accepted x @ more) disk"
    using d(3,4) unpadded assms(3-5,10) d(1) prefix_length_le [OF d(3)] by (simp add: cut_off_def)
  from recover_cut_off [OF this d(1)]
  obtain kept fs' where k: "prefix kept (ses_accepted x @ more)"
    "\<forall>c. prefix c (ses_accepted x @ more) \<and> prefix (segment_bytes s e first c) disk \<longrightarrow> prefix c kept"
    "recover_wal_segment files p = Some (
       \<lparr>recovery_ok = True, recovery_error = NoError,
        recovery_last_valid_position = log_position s e first kept,
        recovery_last_valid_offset = of_nat (length (segment_bytes s e first kept)),
        recovered_incomplete_tail = (disk \<noteq> segment_bytes s e first kept)\<rparr>, fs')"
    "file_bytes fs' p = Some (segment_bytes s e first kept)"
    by blast
  have "prefix (ses_committed x) (ses_accepted x @ more)" using d(2) by (rule prefix_prefix)
  then have "prefix (ses_committed x) kept" using k(2) d(3) by blast
  then show ?thesis using k(1,3,4) tried by auto
qed

lemma committed_records_are_recovered_witness:
  "\<exists>w fs1 kept result files'. new_segment_writer (\<lambda>_. None) [] [''a.wal''] 7 1 1 = Some (w, fs1) \<and>
     recover_wal_segment (ses_files (run_session sample_session (start_session [] fs1 w))) [''a.wal'']
       = Some (result, files') \<and>
     recovery_ok result \<and> file_bytes files' [''a.wal''] = Some (segment_bytes 7 1 1 kept) \<and>
     prefix sample_log kept"
proof -
  obtain w fs1 where w: "new_segment_writer (\<lambda>_. None) [] [''a.wal''] 7 1 1 = Some (w, fs1)" "accepting w"
    by (rule sample_writer)
  let ?x = "run_session sample_session (start_session [] fs1 w)"
  have c: "ses_committed ?x = sample_log" "ses_accepted ?x = sample_log" "accepting (ses_writer ?x)"
    using sample_session_run [of "start_session [] fs1 w"] w(2) by (simp_all add: start_session_def)
  then have ne: "ses_committed ?x \<noteq> []" by (simp add: sample_log_def)
  have "session_ok record_fits 0 [''a.wal''] 7 1 1 ?x"
    using new_writer_session [OF w(1)] session_ok_run sample_session_fits(2) w(2)
    by (auto simp: accepting_def)
  from accepted_log_on_disk [OF this c(3)] obtain disk where
    d: "file_bytes (ses_files ?x) [''a.wal''] = Some disk"
    "disk @ o_buffer (w_file (ses_writer ?x)) = segment_bytes 7 1 1 sample_log"
    unfolding c(2) by blast
  then have "length disk \<le> 160" using sample_log_lengths(1) by (metis le_add1 length_append)
  then have "length disk' < 2 ^ 64" if "file_bytes (ses_files ?x) [''a.wal''] = Some disk'" for disk'
    using that d(1) by simp
  with committed_records_are_recovered [OF w(1) refl _ _ _ sample_session_fits(1) refl ne disjI1 [OF refl]]
  show ?thesis using w(1) unfolding c by fastforce
qed

text \<open>
  C18: Round trip: whatever log was written, a reader opened on the segment delivers exactly its
  records, in order, with their types, payloads and positions, and then the end of the log, as
  often as it is asked.
\<close>

theorem reader_delivers_the_log:
  assumes "s \<noteq> 0" "e \<noteq> 0" "first \<noteq> 0" "list_all record_fits rs" "unat first + length rs \<le> 2 ^ 64"
  shows "read_records (length rs + n) (segment_bytes s e first rs)
      (new_segment_reader (Some (segment_bytes s e first rs))) =
    map (\<lambda>d. (WalRecordRead, Some d)) (deliveries s e first rs) @ replicate n (WalReadEnd, None)"
  by (rule read_records_log [OF new_reader_reads_log [OF assms]])

lemma reader_delivers_the_log_witness:
  "read_records 3 (segment_bytes 7 1 1 sample_log)
      (new_segment_reader (Some (segment_bytes 7 1 1 sample_log))) =
    [(WalRecordRead, Some \<lparr>rec_record_type = 1,
        rec_position = \<lparr>pos_stream_id = 7, pos_epoch = 1, pos_sequence = 1\<rparr>, rec_payload = sample_payload\<rparr>),
     (WalRecordRead, Some \<lparr>rec_record_type = 2,
        rec_position = \<lparr>pos_stream_id = 7, pos_epoch = 1, pos_sequence = 2\<rparr>, rec_payload = []\<rparr>),
     (WalReadEnd, None)]"
proof -
  have three: "length sample_log + 1 = 3" by (simp add: sample_log_def)
  show ?thesis
    using reader_delivers_the_log [of 7 1 1 sample_log 1, unfolded three] sample_log_unpadded(2)
    by (simp add: sample_log_def delivered_def)
qed

text \<open>
  C25: Sequencing and visibility: at every moment of a session with a writer on a new file the next
  sequence number is the first one plus the number of accepted records and the last position is
  that of the last accepted record; the positions popped from the visibility queue and those still
  in it are, in order and without a gap, those of the committed records, and the pending ones
  those of the accepted records behind them.
\<close>

theorem positions_are_published_in_order:
  assumes "new_segment_writer fs outcomes p s e first = Some (w, fs1)" "fs p = None"
    and "w_writer_error w = NoError" "list_all (op_good record_fits) ops"
    and "x = run_session ops (start_session [] fs1 w)"
  shows "w_next_sequence (ses_writer x) = first + of_nat (length (ses_accepted x)) \<and>
    w_last_position (ses_writer x) = log_position s e first (ses_accepted x) \<and>
    w_last_committed_position (ses_writer x) = log_position s e first (ses_committed x) \<and>
    prefix (ses_committed x) (ses_accepted x) \<and>
    ses_popped x @ w_committed_positions (ses_writer x) = positions s e first (length (ses_committed x)) \<and>
    pending_count (ses_writer x) + length (ses_committed x) = length (ses_accepted x) \<and>
    positions s e first (length (ses_committed x)) @ w_pending_positions (ses_writer x) =
      positions s e first (length (ses_accepted x))"
proof -
  have "session_ok record_fits 0 p s e first x"
    using new_writer_session [OF assms(1-3)] session_ok_run assms(4,5) by blast
  then have c: "counters_ok 0 p s e first x" by (simp add: session_ok_def)
  then have pre: "prefix (ses_committed x) (ses_accepted x)" by (simp add: counters_ok_def Let_def)
  have "positions s e first (length (ses_committed x)) @ w_pending_positions (ses_writer x) =
      positions s e first (length (ses_accepted x))"
    using positions_commit [OF pre, of 0 s e first] c by (simp add: counters_ok_def Let_def)
  then show ?thesis
    using c prefix_length_le [OF pre]
    by (simp add: counters_ok_def Let_def pending_count_def positions_def)
qed

lemma positions_are_published_in_order_witness:
  "\<exists>w fs1. new_segment_writer (\<lambda>_. None) [] [''a.wal''] 7 1 1 = Some (w, fs1) \<and>
     w_next_sequence (ses_writer (run_session sample_session (start_session [] fs1 w))) = 3 \<and>
     w_committed_positions (ses_writer (run_session (sample_session @ [Pop]) (start_session [] fs1 w)))
       = [\<lparr>pos_stream_id = 7, pos_epoch = 1, pos_sequence = 2\<rparr>]"
proof -
  obtain w fs1 where w: "new_segment_writer (\<lambda>_. None) [] [''a.wal''] 7 1 1 = Some (w, fs1)" "accepting w"
    by (rule sample_writer)
  let ?y = "start_session [] fs1 w"
  let ?x = "run_session sample_session ?y"
  have c: "ses_committed ?x = sample_log" "ses_accepted ?x = sample_log"
    using sample_session_run [of ?y] w(2) by (simp_all add: start_session_def)
  have e: "w_writer_error w = NoError" using w(2) by (simp add: accepting_def)
  have popped: "ses_popped ?x = []"
    using run_appends_accepting [of ?y sample_log] w(2)
    by (simp add: sample_session_def run_session_append start_session_def)
      (simp add: run_session_def split_beta)
  note p = positions_are_published_in_order [OF w(1) refl e sample_session_fits(2) refl]
  then have "w_next_sequence (ses_writer ?x) = 3" using c by (simp add: sample_log_def)
  moreover have "w_committed_positions (ses_writer ?x) = positions 7 1 1 2"
    using p c popped by (simp add: sample_log_def numeral_2_eq_2)
  then have "w_committed_positions (ses_writer (session_step Pop ?x)) =
      [\<lparr>pos_stream_id = 7, pos_epoch = 1, pos_sequence = 2\<rparr>]"
    by (simp add: pop_committed_position_def positions_def upt_rec)
  then have "w_committed_positions (ses_writer (run_session (sample_session @ [Pop]) ?y)) =
      [\<lparr>pos_stream_id = 7, pos_epoch = 1, pos_sequence = 2\<rparr>]"
    by (simp only: run_session_append run_session_one)
  ultimately show ?thesis using w(1) by blast
qed

text \<open>The error an operation on the writer reports, if it reports a failure.\<close>

fun reported_failure :: "wal_session \<Rightarrow> writer_op \<Rightarrow> WalError option" where
  "reported_failure x (Append pb t payload) =
     (case segment_append pb t payload (ses_writer x) of (result, w) \<Rightarrow>
        if append_status result = Appended then None else Some (append_error result))"
| "reported_failure x Commit =
     (case segment_commit (ses_files x) (ses_writer x) of (result, w, fs) \<Rightarrow>
        if commit_status result = Committed then None else Some (commit_error result))"
| "reported_failure x Pop = None"

lemma reported_failure_keeps:
  assumes "reported_failure x op = Some err"
  shows "err \<noteq> NoError \<and> w_writer_error (ses_writer (session_step op x)) = err \<and>
    ses_accepted (session_step op x) = ses_accepted x \<and> ses_committed (session_step op x) = ses_committed x \<and>
    ses_popped (session_step op x) = ses_popped x \<and>
    w_committed_positions (ses_writer (session_step op x)) = w_committed_positions (ses_writer x)"
proof (cases op)
  case (Append pb t payload)
  let ?w = "ses_writer x"
  show ?thesis
  proof (cases "w_writer_error ?w = NoError \<and> \<not> o_fail (w_file ?w)")
    case False
    then show ?thesis using assms by (auto simp: Append segment_append_def fail_writer_eq)
  next
    case True
    then have seg: "segment_append pb t payload ?w = write_record pb t payload ?w" by (simp add: segment_append_def)
    show ?thesis
    proof (rule write_record_cases [of ?w pb t payload])
      fix out
      assume "o_fail out \<Longrightarrow> write_record pb t payload ?w =
          (\<lparr>append_status = AppendFailed, append_error = CannotWriteFile, append_position = w_last_position ?w\<rparr>,
           fail_writer CannotWriteFile (?w\<lparr>w_file := out\<rparr>))"
        and "\<not> o_fail out \<Longrightarrow> write_record pb t payload ?w =
          (let position = \<lparr>pos_stream_id = w_stream_id ?w, pos_epoch = w_epoch ?w, pos_sequence = w_next_sequence ?w\<rparr>
           in (\<lparr>append_status = Appended, append_error = NoError, append_position = position\<rparr>,
               ?w\<lparr>w_file := out, w_next_sequence := w_next_sequence ?w + 1, w_last_position := position,
                 w_pending_positions := w_pending_positions ?w @ [position]\<rparr>))"
      then show ?thesis
        using assms True by (cases "o_fail out") (auto simp: Append seg fail_writer_eq Let_def)
    qed
  qed
next
  case Commit
  then show ?thesis
    using assms by (auto simp: segment_commit_def fail_writer_eq Let_def split_beta split: if_splits)
qed (use assms in simp)

lemma failed_writer_publishes_nothing:
  assumes "w_writer_error (ses_writer x) \<noteq> NoError"
  shows "ses_popped (run_session ops x) @ w_committed_positions (ses_writer (run_session ops x)) =
    ses_popped x @ w_committed_positions (ses_writer x)"
  using assms
proof (induction ops arbitrary: x)
  case (Cons op ops)
  have "w_writer_error (ses_writer (session_step op x)) \<noteq> NoError"
    using failed_writer_run [OF Cons.prems, of "[op]"] Cons.prems by (simp add: run_session_def)
  moreover have "ses_popped (session_step op x) @ w_committed_positions (ses_writer (session_step op x)) =
      ses_popped x @ w_committed_positions (ses_writer x)"
  proof (cases "op = Pop")
    case True
    then show ?thesis by (simp add: pop_committed_position_def split: list.splits)
  next
    case False
    then show ?thesis using failed_writer_step [OF Cons.prems] by simp
  qed
  ultimately show ?case using Cons.IH [of "session_step op x"] by (simp add: run_session_def)
qed (simp add: run_session_def)

text \<open>
  C36: A failed writer stays failed and harmless. Once an append or a commit has reported a failure,
  every later append and commit reports a failure with the same error; the failed operation itself
  and everything after it accept, commit and publish nothing, and after it the device is not
  touched again.
\<close>

theorem failed_writer_is_permanent:
  assumes "reported_failure x op = Some err" "y = run_session ops (session_step op x)"
  shows "err \<noteq> NoError \<and> reported_failure y (Append pb t payload) = Some err \<and>
    reported_failure y Commit = Some err \<and>
    ses_accepted y = ses_accepted x \<and> ses_committed y = ses_committed x \<and>
    ses_popped y @ w_committed_positions (ses_writer y) = ses_popped x @ w_committed_positions (ses_writer x) \<and>
    ses_files y = ses_files (session_step op x)"
  using reported_failure_keeps [OF assms(1)] failed_writer_run [of "session_step op x" ops]
    failed_writer_publishes_nothing [of "session_step op x" ops]
  by (simp add: assms(2) segment_append_def segment_commit_def)

text \<open>A device that stops when the first commit flushes the header.\<close>

lemma failed_writer_is_permanent_witness:
  "\<exists>w fs1. new_segment_writer (\<lambda>_. None) [Accepts, Accepts, Stops 3] [''a.wal''] 7 1 1 = Some (w, fs1) \<and>
     reported_failure (run_session (Commit # sample_session) (start_session [] fs1 w)) (Append 0 1 []) =
       Some CannotFlushFile"
proof -
  obtain w fs1 where w: "new_segment_writer (\<lambda>_. None) [Accepts, Accepts, Stops 3] [''a.wal''] 7 1 1 = Some (w, fs1)"
    "w_writer_error w = NoError" "o_outcomes (w_file w) = [Stops 3]" "\<not> o_fail (w_file w)" "o_open (w_file w)"
    by (simp add: new_segment_writer_def ensure_parent_directory_exists_def is_directory_def
        wal_file_exists_def ofstream_open_def closed_ofstream_def next_outcome_def write_segment_header_def
        stream_write_def Let_def)
  have "reported_failure (start_session [] fs1 w) Commit = Some CannotFlushFile"
    using w(2-5) by (simp add: start_session_def segment_commit_def stream_flush_def next_outcome_def)
  from failed_writer_is_permanent [where ops = sample_session and pb = 0 and t = 1 and payload = "[]", OF this refl]
  show ?thesis
    using w(1) by (simp add: run_session_def)
qed

text \<open>
  C26: Reopening a segment: a writer opened on a complete segment, or on one whose last record is
  torn before its padding, leaves exactly the complete records in the file and goes on behind
  them: after any further session the accepted records are the old ones followed by the new ones,
  the next sequence number counts them all, and the committed ones are on the device.
\<close>

theorem reopened_writer_continues:
  assumes "s \<noteq> 0" "e \<noteq> 0" "first \<noteq> 0" "list_all record_fits rs"
    and "unat first + length rs \<le> 2 ^ 64" "length (segment_bytes s e first rs) < 2 ^ 64"
    and "fs p = Some (RegularFile (segment_bytes s e first rs @ tail))"
    and "ensure_parent_directory_exists fs p = Some fs0"
    and "tail = [] \<or> (prefix tail (record_bytes s e pb t payload (first + of_nat (length rs)))
      \<and> length tail < 56 + length payload \<and> payload_fits payload)"
    and "list_all (op_good record_fits) ops"
  shows "\<exists>w fs1 x. new_segment_writer fs [] p s e first = Some (w, fs1) \<and> w_writer_error w = NoError \<and>
    file_bytes fs1 p = Some (segment_bytes s e first rs) \<and>
    x = run_session ops (start_session rs fs1 w) \<and>
    prefix (ses_committed x) (ses_accepted x) \<and> length rs \<le> length (ses_committed x) \<and>
    w_next_sequence (ses_writer x) = first + of_nat (length (ses_accepted x)) \<and>
    (ses_committed x \<noteq> [] \<longrightarrow>
       (\<exists>disk. file_bytes (ses_files x) p = Some disk \<and>
          prefix (segment_bytes s e first (ses_committed x)) disk))"
proof -
  obtain w fs1 where w: "new_segment_writer fs [] p s e first = Some (w, fs1)" "w_writer_error w = NoError"
    "file_bytes fs1 p = Some (segment_bytes s e first rs)"
    "session_ok record_fits (length rs) p s e first (start_session rs fs1 w)"
    using reopened_writer_session [OF assms(1-4) assms(4-9)] by blast
  let ?x = "run_session ops (start_session rs fs1 w)"
  have "session_ok record_fits (length rs) p s e first ?x" by (rule session_ok_run [OF w(4) assms(10)])
  then have "counters_ok (length rs) p s e first ?x" "on_disk record_fits p s e first ?x"
    by (simp_all add: session_ok_def)
  then show ?thesis
    using w(1-3) unfolding on_disk_def
    by (intro exI [of _ w] exI [of _ fs1] exI [of _ ?x]) (auto simp: counters_ok_def Let_def)
qed

lemma reopened_writer_continues_witness:
  "\<exists>w fs1. new_segment_writer
       ((\<lambda>_. None)([''a.wal''] \<mapsto> RegularFile (segment_bytes 7 1 1 sample_log @
          take 10 (record_bytes 7 1 0 1 sample_payload 3)))) [] [''a.wal''] 7 1 1 = Some (w, fs1) \<and>
     file_bytes fs1 [''a.wal''] = Some (segment_bytes 7 1 1 sample_log)"
proof -
  have n: "1 + of_nat (length sample_log) = (3 :: u64)" by (simp add: sample_log_def)
  have "unat (1 :: u64) + length sample_log \<le> 2 ^ 64" by (simp add: sample_log_def)
  then show ?thesis
    using reopened_writer_continues [of 7 1 1 sample_log
        "(\<lambda>_. None)([''a.wal''] \<mapsto> RegularFile (segment_bytes 7 1 1 sample_log @
          take 10 (record_bytes 7 1 0 1 sample_payload 3)))" "[''a.wal'']"
        "take 10 (record_bytes 7 1 0 1 sample_payload 3)" _ 0 1 sample_payload "[]"]
    by (auto simp: sample_log_unpadded sample_log_lengths n take_is_prefix payload_fits_def
        min_less_iff_disj ensure_parent_directory_exists_def)
qed

text \<open>
  C27: Corruption is never taken for data: if the payload of a record was changed in one byte, the
  scan stops in front of the record with \<open>CorruptedMiddleRecord\<close> and the positions of the records
  before it, recovery reports the failure and leaves the file as it is, and a reader behind the
  records before it reports a checksum mismatch and delivers nothing.
\<close>

theorem changed_byte_is_detected:
  assumes "s \<noteq> 0" "e \<noteq> 0" "first \<noteq> 0" "list_all record_fits rs"
    and "payload = xs @ b # ys" "b' \<noteq> b" "payload_fits payload"
    and "disk = segment_bytes s e first rs
      @ damaged_record s e pb t payload (xs @ b' # ys) (first + of_nat (length rs)) @ rest"
    and "file_bytes fs p = Some disk"
    and "stands_behind disk s e (first + of_nat (length rs)) position
      (damaged_record s e pb t payload (xs @ b' # ys) (first + of_nat (length rs)) @ rest) r"
  shows "scan_segment (Some disk) =
      \<lparr>scan_ok = False, scan_error = CorruptedMiddleRecord,
       scan_last_valid_position = log_position s e first rs,
       scan_last_valid_offset = of_nat (length (segment_bytes s e first rs)),
       scan_has_incomplete_trailing_record = False\<rparr> \<and>
    map_option (\<lambda>(result, fs'). (recovery_ok result, recovery_error result, fs'))
      (recover_wal_segment fs p) = Some (False, CorruptedMiddleRecord, fs) \<and>
    read_status (fst (read_next_record disk r)) = WalReadFailed \<and>
    read_error (fst (read_next_record disk r)) = PayloadChecksumMismatch \<and>
    fst (snd (read_next_record disk r)) = None"
proof -
  have crc: "calculate_crc32 (xs @ b' # ys) \<noteq> calculate_crc32 payload"
    using crc32_detects_changed_byte assms(5,6) by blast
  have len: "length (xs @ b' # ys) = length payload" "payload \<noteq> []" using assms(5) by simp_all
  have scan: "scan_segment (Some disk) =
      \<lparr>scan_ok = False, scan_error = CorruptedMiddleRecord,
       scan_last_valid_position = log_position s e first rs,
       scan_last_valid_offset = of_nat (length (segment_bytes s e first rs)),
       scan_has_incomplete_trailing_record = False\<rparr>"
    unfolding assms(8) by (rule scan_damaged_segment [OF assms(1-4,7) len crc])
  moreover have "map_option (\<lambda>(result, fs'). (recovery_ok result, recovery_error result, fs'))
      (recover_wal_segment fs p) = Some (False, CorruptedMiddleRecord, fs)"
    by (simp add: recover_wal_segment_def assms(9) scan)
  ultimately show ?thesis
    using segment_read_next_damaged [OF assms(10,7) len crc]
    by (simp add: read_next_record_def split_beta) (simp add: read_failed_def)
qed

text \<open>A reader opened on a segment whose first record is damaged.\<close>

lemma new_segment_reader_start:
  assumes "s \<noteq> 0" "e \<noteq> 0" "first \<noteq> 0"
  shows "stands_behind (segment_bytes s e first [] @ rest) s e first no_position rest
    (new_segment_reader (Some (segment_bytes s e first [] @ rest)))"
  using new_segment_reader_rest [OF assms, of "[]" rest] by simp

lemma changed_byte_is_detected_witness:
  "scan_error (scan_segment (Some (segment_bytes 7 1 1 [] @ damaged_record 7 1 0 1 [5, 6] [5, 7] 1 @ [])))
    = CorruptedMiddleRecord"
proof -
  let ?d = "damaged_record 7 1 0 1 [5, 6] [5, 7] 1 @ []"
  let ?disk = "segment_bytes 7 1 1 [] @ ?d"
  have "stands_behind ?disk 7 1 1 no_position ?d (new_segment_reader (Some ?disk))"
    by (rule new_segment_reader_start) simp_all
  then show ?thesis
    using changed_byte_is_detected [of 7 1 1 "[]" "[5, 6]" "[5]" 6 "[]" 7 ?disk 0 1 "[]"
        "(\<lambda>_. None)([''a.wal''] \<mapsto> RegularFile ?disk)" "[''a.wal'']" no_position]
    by (simp add: payload_fits_def)
qed

text \<open>
  C37: A defect of the scan: a record that is cut off inside its padding counts as valid. The scan
  reports success with the position of the torn record and the last valid offset 2^64 - 1, and
  recovery leaves the torn bytes in the file; so a writer that is opened on it goes on behind a
  record that is not aligned.
\<close>

theorem torn_padding_is_not_noticed:
  assumes "s \<noteq> 0" "e \<noteq> 0" "first \<noteq> 0" "list_all record_fits rs"
    and "prefix tail (record_bytes s e pb t payload (first + of_nat (length rs)))"
    and "56 + length payload \<le> length tail"
      "length tail < length (record_bytes s e pb t payload (first + of_nat (length rs)))"
    and "payload_fits payload"
    and "file_bytes fs p = Some (segment_bytes s e first rs @ tail)"
  shows "scan_wal_segment fs p =
      \<lparr>recovery_ok = True, recovery_error = NoError,
       recovery_last_valid_position =
         \<lparr>pos_stream_id = s, pos_epoch = e, pos_sequence = first + of_nat (length rs)\<rparr>,
       recovery_last_valid_offset = - 1, recovered_incomplete_tail = False\<rparr> \<and>
    recover_wal_segment fs p = Some (scan_wal_segment fs p, fs)"
  using scan_torn_padding_segment [OF assms(1-8)] assms(9)
  by (simp add: scan_wal_segment_def recover_wal_segment_def)

lemma torn_padding_is_not_noticed_witness:
  "recovery_last_valid_offset (scan_wal_segment
     ((\<lambda>_. None)([''a.wal''] \<mapsto> RegularFile (segment_bytes 7 1 1 [] @ take 60 (record_bytes 7 1 0 1 [9] 1))))
     [''a.wal'']) = - 1"
proof -
  have fits: "payload_fits [9]" by (simp add: payload_fits_def)
  have "8 dvd 57 + unat (record_padding [9 :: u8])" "unat (record_padding [9 :: u8]) < 8"
    using record_lengths(4,5) [OF fits] by simp_all
  then have "unat (record_padding [9 :: u8]) = 7" by presburger
  then have "length (record_bytes 7 1 0 1 [9] 1) = 64" by (simp add: length_record_bytes)
  then show ?thesis
    using torn_padding_is_not_noticed [of 7 1 1 "[]" "take 60 (record_bytes 7 1 0 1 [9] 1)" 0 1 "[9]"
        "(\<lambda>_. None)([''a.wal''] \<mapsto> RegularFile (segment_bytes 7 1 1 [] @ take 60 (record_bytes 7 1 0 1 [9] 1)))"
        "[''a.wal'']"] fits
    by (simp add: take_is_prefix)
qed

end
