(* ===== verification/Scenario.thy ===== *)
theory Scenario
  imports Domain Decimal
begin

unbundle bit_operations_syntax

text \<open>
  The scenario loader (\<open>app/scenario_loader.cpp\<close>): text lines to command records. A text file is its
  characters, \<open>None\<close> when it cannot be opened. \<open>getline\<close> and the extraction of tokens with
  \<open>operator>>\<close> are modelled as functions on lists of characters.
\<close>

section \<open>Text streams\<close>

text \<open>\<open>getline\<close> until it fails: a last line without a newline counts when it is not empty.\<close>

definition is_newline :: "char \<Rightarrow> bool" where
  "is_newline c \<longleftrightarrow> of_char c = (10 :: nat)"

function text_lines :: "string \<Rightarrow> string list" where
  "text_lines [] = []"
| "text_lines (c # cs) =
     takeWhile (\<lambda>x. \<not> is_newline x) (c # cs)
     # text_lines (drop 1 (dropWhile (\<lambda>x. \<not> is_newline x) (c # cs)))"
  by pat_completeness auto

termination text_lines
  by (relation "measure length")
    (auto simp: less_Suc_eq_le intro: order_trans [OF _ length_dropWhile_le] diff_le_self)

text \<open>\<open>isspace\<close> in the C locale.\<close>

definition is_space :: "char \<Rightarrow> bool" where
  "is_space c \<longleftrightarrow> of_char c = (32 :: nat) \<or> (9 \<le> (of_char c :: nat) \<and> (of_char c :: nat) \<le> 13)"

text \<open>The tokens that repeated \<open>row >> token\<close> extracts before it fails.\<close>

function tokens :: "string \<Rightarrow> string list" where
  "tokens [] = []"
| "tokens (c # cs) =
     (if is_space c then tokens cs
      else takeWhile (\<lambda>x. \<not> is_space x) (c # cs) # tokens (dropWhile (\<lambda>x. \<not> is_space x) cs))"
  by pat_completeness auto

termination tokens
  by (relation "measure length") (auto simp: less_Suc_eq_le length_dropWhile_le)

section \<open>Fields\<close>

record ScenarioLoadResult =
  load_ok :: bool
  load_error :: string
  load_commands :: "OrderCommandRecordV1 list"

definition uppercase_char :: "char \<Rightarrow> char" where
  "uppercase_char c =
     (if 97 \<le> (of_char c :: nat) \<and> (of_char c :: nat) \<le> 122 then char_of (of_char c - 97 + 65 :: nat) else c)"

definition uppercase :: "string \<Rightarrow> string" where
  "uppercase s = map uppercase_char s"

text \<open>
  \<open>from_chars\<close> on the whole token: digits only, no sign for an unsigned type, a minus sign for a
  signed one; a value out of range is an error.
\<close>

definition parse_u64 :: "string \<Rightarrow> u64 option" where
  "parse_u64 s =
     (if s \<noteq> [] \<and> list_all is_digit s \<and> digits_value s < 2 ^ 64 then Some (of_nat (digits_value s))
      else None)"

definition parse_i64 :: "string \<Rightarrow> i64 option" where
  "parse_i64 s =
     (case s of
        [] \<Rightarrow> None
      | c # cs \<Rightarrow>
          if c = CHR ''-'' then
            (if cs \<noteq> [] \<and> list_all is_digit cs \<and> digits_value cs \<le> 2 ^ 63
             then Some (i64_of_int (- int (digits_value cs))) else None)
          else
            (if list_all is_digit s \<and> digits_value s < 2 ^ 63
             then Some (i64_of_int (int (digits_value s))) else None))"

text \<open>The hash of a token that is no number: FNV-1a.\<close>

definition fnv_step :: "u64 \<Rightarrow> char \<Rightarrow> u64" where
  "fnv_step hash c = (hash XOR of_nat (of_char c)) * 1099511628211"

definition stable_id :: "string \<Rightarrow> u64" where
  "stable_id token =
     (case parse_u64 token of
        Some numeric \<Rightarrow> numeric
      | None \<Rightarrow>
          (let hash = foldl fnv_step 1469598103934665603 token
           in if hash = 0 then 1 else hash))"

definition test_instrument_id :: u32 where
  "test_instrument_id = 77"

definition instrument_id :: "string \<Rightarrow> u32" where
  "instrument_id token = (if token = ''TEST'' then test_instrument_id else ucast (stable_id token))"

definition parse_side :: "string \<Rightarrow> u16 option" where
  "parse_side token =
     (if uppercase token = ''BUY'' then Some (side_code Buy)
      else if uppercase token = ''SELL'' then Some (side_code Sell)
      else None)"

definition parse_tif :: "string \<Rightarrow> u16 option" where
  "parse_tif token = (if uppercase token = ''GTC'' then Some (time_in_force_code Gtc) else None)"

definition line_error :: "nat \<Rightarrow> string \<Rightarrow> string" where
  "line_error line_number message = ''line '' @ show_nat line_number @ '': '' @ message"

definition loaded_scenario :: ScenarioLoadResult where
  "loaded_scenario = \<lparr>load_ok = True, load_error = [], load_commands = []\<rparr>"

definition failed_scenario :: "string \<Rightarrow> ScenarioLoadResult" where
  "failed_scenario error = \<lparr>load_ok = False, load_error = error, load_commands = []\<rparr>"

section \<open>Lines\<close>

text \<open>The four fields at the end of NEW and REPLACE; \<open>None\<close> is an invalid one.\<close>

definition order_fields ::
  "string \<Rightarrow> string \<Rightarrow> string \<Rightarrow> string \<Rightarrow> OrderCommandRecordV1 \<Rightarrow> OrderCommandRecordV1 option" where
  "order_fields side_token price_token quantity_token tif_token command =
     (case parse_side side_token of
        None \<Rightarrow> None
      | Some side \<Rightarrow>
          (case parse_i64 price_token of
             None \<Rightarrow> None
           | Some price \<Rightarrow>
               (case parse_i64 quantity_token of
                  None \<Rightarrow> None
                | Some quantity \<Rightarrow>
                    (case parse_tif tif_token of
                       None \<Rightarrow> None
                     | Some tif \<Rightarrow>
                         Some (command\<lparr>c_side := side, c_price_ticks := price,
                                       c_quantity_lots := quantity, c_time_in_force := tif\<rparr>)))))"

text \<open>The body of the loop for a line that is read: \<open>Inl\<close> is the message of the failure.\<close>

definition parse_command :: "string list \<Rightarrow> string + OrderCommandRecordV1" where
  "parse_command row =
     (case row of
        (op_token # sequence_token # instrument_token # client_token # rest) \<Rightarrow>
          (case parse_u64 sequence_token of
             None \<Rightarrow> Inl ''expected operation, sequence, instrument, and client''
           | Some sequence \<Rightarrow>
               (let op = uppercase op_token;
                    command = empty_command
                      \<lparr>c_source_ingress_epoch := 1, c_time_in_force := time_in_force_code Gtc,
                       c_command_sequence := sequence, c_source_ingress_sequence := sequence,
                       c_instrument_id := instrument_id instrument_token,
                       c_client_id := stable_id client_token\<rparr>
                in if op = ''NEW'' then
                     (case rest of
                        (order_token # side_token # price_token # quantity_token # tif_token # _) \<Rightarrow>
                          (case order_fields side_token price_token quantity_token tif_token
                                  (command\<lparr>c_command_type := command_type_code NewOrder,
                                           c_order_id := stable_id order_token\<rparr>) of
                             None \<Rightarrow> Inl ''invalid NEW field''
                           | Some c \<Rightarrow> Inr c)
                      | _ \<Rightarrow> Inl ''expected NEW seq instrument client order side price quantity tif'')
                   else if op = ''CANCEL'' then
                     (case rest of
                        (order_token # _) \<Rightarrow>
                          Inr (command\<lparr>c_command_type := command_type_code CancelOrder,
                                       c_order_id := stable_id order_token\<rparr>)
                      | [] \<Rightarrow> Inl ''expected CANCEL seq instrument client order'')
                   else if op = ''REPLACE'' then
                     (case rest of
                        (old_order_token # new_order_token # side_token # price_token
                         # quantity_token # tif_token # _) \<Rightarrow>
                          (case order_fields side_token price_token quantity_token tif_token
                                  (command\<lparr>c_command_type := command_type_code ReplaceOrder,
                                           c_order_id := stable_id old_order_token,
                                           c_replacement_order_id := stable_id new_order_token\<rparr>) of
                             None \<Rightarrow> Inl ''invalid REPLACE field''
                           | Some c \<Rightarrow> Inr c)
                      | _ \<Rightarrow> Inl ''expected REPLACE seq instrument client old_order new_order side price quantity tif'')
                   else Inl (''unknown operation: '' @ op)))
      | _ \<Rightarrow> Inl ''expected operation, sequence, instrument, and client'')"

definition skipped_line :: "string \<Rightarrow> bool" where
  "skipped_line line \<longleftrightarrow> line = [] \<or> hd line = CHR ''#''"

fun load_lines :: "nat \<Rightarrow> string list \<Rightarrow> OrderCommandRecordV1 list \<Rightarrow> ScenarioLoadResult" where
  "load_lines line_number [] commands = loaded_scenario\<lparr>load_commands := commands\<rparr>"
| "load_lines line_number (line # lines) commands =
     (if skipped_line line then load_lines (line_number + 1) lines commands
      else
        (case parse_command (tokens line) of
           Inl message \<Rightarrow> failed_scenario (line_error (line_number + 1) message)
         | Inr command \<Rightarrow> load_lines (line_number + 1) lines (commands @ [command])))"

definition load_scenario :: "string \<Rightarrow> string option \<Rightarrow> ScenarioLoadResult" where
  "load_scenario path_text input =
     (case input of
        None \<Rightarrow> failed_scenario (''cannot open scenario file: '' @ path_text)
      | Some text \<Rightarrow> load_lines 0 (text_lines text) [])"

end
