(* ===== verification/ScenarioProperties.thy ===== *)
theory ScenarioProperties
  imports Scenario
begin

text \<open>
  Properties of the scenario loader: which records it produces, and that every such record can be
  written as a line that loads as exactly this record.
\<close>

section \<open>The shape of loaded commands\<close>

definition scenario_shaped :: "OrderCommandRecordV1 \<Rightarrow> bool" where
  "scenario_shaped c \<longleftrightarrow>
     c_source_ingress_epoch c = 1 \<and> c_source_ingress_sequence c = c_command_sequence c \<and>
     c_time_in_force c = time_in_force_code Gtc \<and> c_reserved c = 0 \<and>
     (if c_command_type c = command_type_code CancelOrder
      then c_replacement_order_id c = 0 \<and> c_side c = 0 \<and> c_price_ticks c = 0 \<and> c_quantity_lots c = 0
      else (c_side c = side_code Buy \<or> c_side c = side_code Sell) \<and>
        (c_command_type c = command_type_code NewOrder \<and> c_replacement_order_id c = 0 \<or>
         c_command_type c = command_type_code ReplaceOrder))"

lemma parse_side_cases: "parse_side token = Some side \<Longrightarrow> side = side_code Buy \<or> side = side_code Sell"
  by (auto simp: parse_side_def split: if_splits)

lemma order_fields_Some:
  assumes "order_fields side_token price_token quantity_token tif_token command = Some c"
  obtains side price quantity where "side = side_code Buy \<or> side = side_code Sell"
    "c = command\<lparr>c_side := side, c_price_ticks := price, c_quantity_lots := quantity,
       c_time_in_force := time_in_force_code Gtc\<rparr>"
proof -
  obtain side price quantity tif where s: "parse_side side_token = Some side"
    and t: "parse_tif tif_token = Some tif"
    and c: "c = command\<lparr>c_side := side, c_price_ticks := price, c_quantity_lots := quantity,
       c_time_in_force := tif\<rparr>"
    using assms by (auto simp: order_fields_def split: option.splits)
  have "tif = time_in_force_code Gtc" using t by (auto simp: parse_tif_def split: if_splits)
  then show ?thesis using that parse_side_cases [OF s] c by blast
qed

lemma parse_command_shaped:
  assumes "parse_command row = Inr c"
  shows "scenario_shaped c"
proof -
  obtain a b i k rest where row: "row = a # b # i # k # rest"
    using assms by (auto simp: parse_command_def split: list.splits)
  obtain q where q: "parse_u64 b = Some q"
    using assms by (auto simp: parse_command_def row split: option.splits)
  consider "uppercase a = ''NEW''" | "uppercase a = ''CANCEL''" | "uppercase a = ''REPLACE''"
    using assms by (auto simp: parse_command_def row q Let_def split: if_splits)
  then show ?thesis
  proof cases
    case 1
    then show ?thesis
      using assms unfolding parse_command_def row
      by (auto simp: q Let_def scenario_shaped_def empty_command_def
          split: list.splits option.splits elim!: order_fields_Some)
  next
    case 2
    then show ?thesis
      using assms unfolding parse_command_def row
      by (auto simp: q Let_def scenario_shaped_def empty_command_def zero_i64_def split: list.splits)
  next
    case 3
    then show ?thesis
      using assms unfolding parse_command_def row
      by (auto simp: q Let_def scenario_shaped_def empty_command_def
          split: list.splits option.splits elim!: order_fields_Some)
  qed
qed

lemma load_lines_shaped:
  assumes "list_all scenario_shaped commands"
  shows "(load_ok (load_lines n lines commands) \<longrightarrow>
      list_all scenario_shaped (load_commands (load_lines n lines commands)) \<and>
      load_error (load_lines n lines commands) = []) \<and>
    (\<not> load_ok (load_lines n lines commands) \<longrightarrow>
      load_commands (load_lines n lines commands) = [] \<and> load_error (load_lines n lines commands) \<noteq> [])"
  using assms
proof (induction n lines commands rule: load_lines.induct)
  case (1 n commands)
  then show ?case by (simp add: loaded_scenario_def)
next
  case (2 n line lines commands)
  show ?case
  proof (cases "parse_command (tokens line)")
    case (Inl message)
    then show ?thesis using 2 by (simp add: failed_scenario_def line_error_def)
  next
    case (Inr c)
    then show ?thesis using 2 parse_command_shaped [OF Inr] by simp
  qed
qed

section \<open>Writing scenarios\<close>

lemma digit_not_space: "is_digit c \<Longrightarrow> \<not> is_space c"
  by (auto simp: is_digit_def is_space_def)

lemma parse_u64_show [simp]: "parse_u64 (show_word (w :: u64)) = Some w"
proof -
  have "unat w < 2 ^ 64" using unsigned_less [of w, where ?'a = nat] by simp
  then show ?thesis
    using show_nat_digits by (simp add: parse_u64_def show_word_def list_all_iff)
qed

lemma show_nat_head: "\<exists>c cs. show_nat n = c # cs \<and> is_digit c"
  using show_nat_digits [of n] show_nat_nonempty [of n] by (cases "show_nat n") auto

lemma digit_not_minus: "is_digit c \<Longrightarrow> c \<noteq> CHR ''-''"
  by (auto simp: is_digit_def)

lemma parse_i64_show [simp]: "parse_i64 (show_i64 x) = Some x"
proof (cases "to_int x < 0")
  case True
  then have "nat (- to_int x) \<le> 2 ^ 63" using to_int_bounds [of x] by simp
  then show ?thesis
    using True show_nat_digits [of "nat (- to_int x)"]
    by (simp add: show_i64_def show_int_def parse_i64_def list_all_iff)
next
  case False
  obtain c cs where c: "show_nat (nat (to_int x)) = c # cs" "is_digit c"
    using show_nat_head by blast
  have "nat (to_int x) < 2 ^ 63" using to_int_bounds [of x] by simp
  moreover have "list_all is_digit (c # cs)" "digits_value (c # cs) = nat (to_int x)"
    using show_nat_digits [of "nat (to_int x)"] digits_value_show_nat [of "nat (to_int x)"]
    unfolding c(1) by (auto simp: list_all_iff)
  ultimately show ?thesis
    using False digit_not_minus [OF c(2)]
    by (simp add: show_i64_def show_int_def parse_i64_def c(1))
qed

lemma stable_id_show [simp]: "stable_id (show_word (w :: u64)) = w"
  by (simp add: stable_id_def)

lemma instrument_id_show [simp]: "instrument_id (show_word (w :: u32)) = w"
proof -
  obtain c cs where c: "show_nat (unat w) = c # cs" "is_digit c" using show_nat_head by blast
  then have "show_word w \<noteq> ''TEST''" by (auto simp: show_word_def is_digit_def)
  moreover have "stable_id (show_word w) = ucast w"
  proof -
    have "unat (ucast w :: u64) = unat w" 
      using unsigned_less [of w, where ?'a = nat] by (simp add: unsigned_ucast_eq take_bit_nat_eq_self)
    then have "show_word w = show_word (ucast w :: u64)" by (simp add: show_word_def)
    then show ?thesis using stable_id_show by metis
  qed
  moreover have "(ucast (ucast w :: u64) :: u32) = w"
    by (rule bit_word_eqI) (simp add: bit_simps)
  ultimately show ?thesis by (simp add: instrument_id_def)
qed

text \<open>Joining tokens with spaces, and lines with newlines.\<close>

fun unwords :: "string list \<Rightarrow> string" where
  "unwords [] = []"
| "unwords [t] = t"
| "unwords (t # ts) = t @ CHR '' '' # unwords ts"

definition token :: "string \<Rightarrow> bool" where
  "token t \<longleftrightarrow> t \<noteq> [] \<and> list_all (\<lambda>c. \<not> is_space c) t"

lemma is_space_blank [simp]: "is_space CHR '' ''"
  by (simp add: is_space_def)

lemma tokens_token:
  assumes "token t"
  shows "tokens t = [t]" "tokens (t @ CHR '' '' # rest) = t # tokens rest"
proof -
  obtain c cs where t: "t = c # cs" "\<not> is_space c" "\<forall>x \<in> set cs. \<not> is_space x"
    using assms by (cases t) (auto simp: token_def list_all_iff)
  have all: "takeWhile (\<lambda>x. \<not> is_space x) cs = cs" "dropWhile (\<lambda>x. \<not> is_space x) cs = []"
    using t(3) by (auto simp: takeWhile_eq_all_conv)
  have "tokens t = (c # takeWhile (\<lambda>x. \<not> is_space x) cs) # tokens (dropWhile (\<lambda>x. \<not> is_space x) cs)"
    using t(1,2) by simp
  then show "tokens t = [t]" unfolding all using t(1) by simp
  have "takeWhile (\<lambda>x. \<not> is_space x) (cs @ CHR '' '' # rest) = cs"
    "dropWhile (\<lambda>x. \<not> is_space x) (cs @ CHR '' '' # rest) = CHR '' '' # rest"
    using t(3) by (simp_all add: takeWhile_append2 dropWhile_append2)
  then show "tokens (t @ CHR '' '' # rest) = t # tokens rest" using t by simp
qed

lemma tokens_unwords: "list_all token ts \<Longrightarrow> tokens (unwords ts) = ts"
  by (induction ts rule: unwords.induct) (auto simp: tokens_token)

definition newline :: char where
  "newline = char_of (10 :: nat)"

lemma is_newline_iff: "is_newline c \<longleftrightarrow> c = newline"
  by (auto simp: is_newline_def newline_def) (metis char_of_char)

fun unlines :: "string list \<Rightarrow> string" where
  "unlines [] = []"
| "unlines (l # ls) = l @ newline # unlines ls"

lemma text_lines_line:
  assumes "list_all (\<lambda>c. c \<noteq> newline) l"
  shows "text_lines (l @ newline # rest) = l # text_lines rest"
proof -
  have l: "takeWhile (\<lambda>x. \<not> is_newline x) (l @ newline # rest) = l"
    "dropWhile (\<lambda>x. \<not> is_newline x) (l @ newline # rest) = newline # rest"
    using assms by (auto simp: is_newline_iff list_all_iff takeWhile_append2 dropWhile_append2)
  obtain c cs where "l @ newline # rest = c # cs" by (cases "l @ newline # rest") auto
  then show ?thesis using l by (simp del: takeWhile.simps dropWhile.simps)
qed

lemma text_lines_unlines:
  "list_all (list_all (\<lambda>c. c \<noteq> newline)) ls \<Longrightarrow> text_lines (unlines ls) = ls"
  by (induction ls) (simp_all add: text_lines_line)

text \<open>The tokens and the line of a command.\<close>

definition show_side :: "u16 \<Rightarrow> string" where
  "show_side side = (if side = side_code Buy then ''BUY'' else ''SELL'')"

definition scenario_tokens :: "OrderCommandRecordV1 \<Rightarrow> string list" where
  "scenario_tokens c =
     (let start = [show_word (c_command_sequence c), show_word (c_instrument_id c), show_word (c_client_id c)];
          finish = [show_side (c_side c), show_i64 (c_price_ticks c), show_i64 (c_quantity_lots c), ''GTC'']
      in if c_command_type c = command_type_code NewOrder
         then ''NEW'' # start @ [show_word (c_order_id c)] @ finish
         else if c_command_type c = command_type_code CancelOrder
         then ''CANCEL'' # start @ [show_word (c_order_id c)]
         else ''REPLACE'' # start @ [show_word (c_order_id c), show_word (c_replacement_order_id c)] @ finish)"

definition scenario_line :: "OrderCommandRecordV1 \<Rightarrow> string" where
  "scenario_line c = unwords (scenario_tokens c)"

lemma token_show_word: "token (show_word w)"
  using show_nat_digits digit_not_space by (auto simp: token_def show_word_def list_all_iff)

lemma token_show_i64: "token (show_i64 x)"
  using show_nat_digits digit_not_space
  by (auto simp: token_def show_i64_def show_int_def list_all_iff is_space_def)

lemma token_words: "token ''NEW''" "token ''CANCEL''" "token ''REPLACE''" "token ''GTC''"
  "token (show_side side)"
  by (simp_all add: token_def is_space_def show_side_def)

lemma scenario_tokens_are_tokens: "list_all token (scenario_tokens c)"
  by (simp add: scenario_tokens_def Let_def token_show_word token_show_i64 token_words)

lemma uppercase_words: "uppercase ''NEW'' = ''NEW''" "uppercase ''CANCEL'' = ''CANCEL''"
  "uppercase ''REPLACE'' = ''REPLACE''" "uppercase ''GTC'' = ''GTC''" "uppercase ''BUY'' = ''BUY''"
  "uppercase ''SELL'' = ''SELL''"
  by (simp_all add: uppercase_def uppercase_char_def)

lemma order_fields_show:
  assumes "side = side_code Buy \<or> side = side_code Sell"
  shows "order_fields (show_side side) (show_i64 price) (show_i64 quantity) ''GTC'' command =
    Some (command\<lparr>c_side := side, c_price_ticks := price, c_quantity_lots := quantity,
      c_time_in_force := time_in_force_code Gtc\<rparr>)"
  using assms by (auto simp: order_fields_def parse_side_def show_side_def parse_tif_def uppercase_words)

lemma parse_scenario_tokens:
  assumes "scenario_shaped c"
  shows "parse_command (scenario_tokens c) = Inr c"
proof -
  consider "c_command_type c = command_type_code NewOrder" | "c_command_type c = command_type_code CancelOrder"
    | "c_command_type c = command_type_code ReplaceOrder"
    using assms by (auto simp: scenario_shaped_def split: if_splits)
  then show ?thesis
  proof cases
    case 1
    then show ?thesis using assms
      by (cases c) (simp add: scenario_tokens_def parse_command_def uppercase_words order_fields_show
          scenario_shaped_def empty_command_def Let_def)
  next
    case 2
    then show ?thesis using assms
      by (cases c) (simp add: scenario_tokens_def parse_command_def uppercase_words
          scenario_shaped_def empty_command_def Let_def zero_i64_def)
  next
    case 3
    then show ?thesis using assms
      by (cases c) (simp add: scenario_tokens_def parse_command_def uppercase_words order_fields_show
          scenario_shaped_def empty_command_def Let_def)
  qed
qed

lemma unwords_chars: "set (unwords ts) \<subseteq> insert CHR '' '' (\<Union> (set ` set ts))"
  by (induction ts rule: unwords.induct) auto

lemma token_no_newline: "token t \<Longrightarrow> newline \<notin> set t"
  by (auto simp: token_def list_all_iff is_space_def newline_def)

lemma scenario_line_no_newline: "list_all (\<lambda>x. x \<noteq> newline) (scenario_line c)"
proof -
  have "newline \<notin> set t" if "t \<in> set (scenario_tokens c)" for t
    using scenario_tokens_are_tokens [of c] that token_no_newline by (auto simp: list_all_iff)
  moreover have "newline \<noteq> CHR '' ''"
  proof -
    have "(of_char newline :: nat) \<noteq> of_char CHR '' ''" by (simp add: newline_def)
    then show ?thesis by metis
  qed
  ultimately have "newline \<notin> set (scenario_line c)"
    using unwords_chars [of "scenario_tokens c"] unfolding scenario_line_def by blast
  then show ?thesis by (auto simp: list_all_iff)
qed

lemma scenario_line_read: "\<not> skipped_line (scenario_line c)"
  by (simp add: skipped_line_def scenario_line_def scenario_tokens_def Let_def)

lemma load_scenario_lines:
  assumes "list_all scenario_shaped cs"
  shows "load_lines n (map scenario_line cs) commands = loaded_scenario\<lparr>load_commands := commands @ cs\<rparr>"
  using assms
  by (induction cs arbitrary: n commands)
    (simp_all add: scenario_line_read tokens_unwords [OF scenario_tokens_are_tokens, folded scenario_line_def]
      parse_scenario_tokens)

lemma load_written_scenario:
  assumes "list_all scenario_shaped commands"
  shows "load_scenario path_text (Some (unlines (map scenario_line commands))) =
    \<lparr>load_ok = True, load_error = [], load_commands = commands\<rparr>"
proof -
  have "text_lines (unlines (map scenario_line commands)) = map scenario_line commands"
    using scenario_line_no_newline by (intro text_lines_unlines) (auto simp: list_all_iff)
  then show ?thesis
    using load_scenario_lines [OF assms, of 0 "[]"] by (simp add: load_scenario_def loaded_scenario_def)
qed

section \<open>Properties\<close>

text \<open>
  C29: Scenario round trip: writing any commands of the scenario shape as lines and loading the text
  gives exactly these commands, in order, whatever their ids, prices and quantities are; the
  numbers are read back at full 64-bit range.
\<close>

theorem scenario_round_trip:
  assumes "list_all scenario_shaped commands"
  shows "load_scenario path_text (Some (unlines (map scenario_line commands))) =
    \<lparr>load_ok = True, load_error = [], load_commands = commands\<rparr>"
  by (rule load_written_scenario [OF assms])

definition sample_new_order :: OrderCommandRecordV1 where
  "sample_new_order = empty_command
     \<lparr>c_command_sequence := 1, c_source_ingress_epoch := 1, c_source_ingress_sequence := 1,
      c_order_id := 18446744073709551615, c_client_id := 5, c_price_ticks := i64_of_int (- 9223372036854775808),
      c_quantity_lots := i64_of_int 9223372036854775807, c_instrument_id := 77,
      c_command_type := command_type_code NewOrder, c_side := side_code Sell,
      c_time_in_force := time_in_force_code Gtc\<rparr>"

definition sample_cancel :: OrderCommandRecordV1 where
  "sample_cancel = empty_command
     \<lparr>c_command_sequence := 2, c_source_ingress_epoch := 1, c_source_ingress_sequence := 2,
      c_order_id := 9, c_client_id := 5, c_instrument_id := 77,
      c_command_type := command_type_code CancelOrder, c_time_in_force := time_in_force_code Gtc\<rparr>"

lemma scenario_round_trip_witness:
  "load_scenario ''s.txt'' (Some (unlines (map scenario_line [sample_new_order, sample_cancel]))) =
    \<lparr>load_ok = True, load_error = [], load_commands = [sample_new_order, sample_cancel]\<rparr>"
  by (rule scenario_round_trip)
    (simp add: scenario_shaped_def sample_new_order_def sample_cancel_def empty_command_def zero_i64_def)

text \<open>
  C38: Shape of loaded scenarios: whatever the text is, the loader either reports success without an
  error text, and every command is a new order, a cancel or a replace with a valid side and time
  in force (a cancel without order fields) from ingress epoch 1; or it reports a failure with a
  message and delivers no command at all.
\<close>

theorem loaded_commands_are_shaped:
  "let result = load_scenario path_text input in
     (if load_ok result then list_all scenario_shaped (load_commands result) \<and> load_error result = []
      else load_commands result = [] \<and> load_error result \<noteq> [])"
  using load_lines_shaped [of "[]"]
  by (auto simp: load_scenario_def failed_scenario_def Let_def split: option.splits)

lemma digit_value_zero: "is_digit c \<Longrightarrow> digit_value c = 0 \<longleftrightarrow> c = CHR ''0''"
proof -
  assume "is_digit c"
  then have "digit_value c = 0 \<longleftrightarrow> (of_char c :: nat) = of_char CHR ''0''"
    by (auto simp: digit_value_def is_digit_def)
  then show "digit_value c = 0 \<longleftrightarrow> c = CHR ''0''" by (simp only: of_char_eq_iff)
qed

lemma digits_value_zero: "list_all is_digit cs \<Longrightarrow> digits_value cs = 0 \<longleftrightarrow> list_all (\<lambda>c. c = CHR ''0'') cs"
proof (induction cs rule: rev_induct)
  case Nil
  then show ?case by (simp add: digits_value_def)
next
  case (snoc c cs)
  then show ?case using digit_value_zero [of c] by (simp add: digits_value_snoc)
qed

lemma zeros_are_digits: "list_all (\<lambda>c. c = CHR ''0'') cs \<Longrightarrow> list_all is_digit cs"
  by (induction cs) (simp_all add: is_digit_def)

text \<open>
  Ids of names: a decimal token within 64 bits stands for its number, every other token has an
  id that is not zero, and no token of the scenario text but a zero has the id zero.
\<close>

lemma stable_id_zero_only_for_zero:
  "stable_id tk = 0 \<longleftrightarrow> tk \<noteq> [] \<and> list_all (\<lambda>c. c = CHR ''0'') tk"
proof (cases "parse_u64 tk")
  case None
  then have "stable_id tk \<noteq> 0" by (simp add: stable_id_def Let_def)
  moreover have "parse_u64 tk \<noteq> None" if "tk \<noteq> []" "list_all (\<lambda>c. c = CHR ''0'') tk"
    using that digits_value_zero [of tk] zeros_are_digits [of tk] by (simp add: parse_u64_def)
  ultimately show ?thesis using None by blast
next
  case (Some n)
  then have t: "tk \<noteq> []" "list_all is_digit tk" "digits_value tk < 2 ^ 64" "n = of_nat (digits_value tk)"
    by (auto simp: parse_u64_def split: if_splits)
  have "unat n = digits_value tk" unfolding t(4) using t(3) by (simp add: unat_of_nat)
  then have "n = 0 \<longleftrightarrow> digits_value tk = 0" by (metis unat_eq_zero)
  then show ?thesis using Some t(1) digits_value_zero [OF t(2)] by (simp add: stable_id_def)
qed

end
