(* ===== verification/EventDump.thy ===== *)
theory EventDump
  imports Domain Decimal
begin

text \<open>
  The text the CLI prints for commands and events (\<open>app/event_dump.cpp\<close>), as strings with the final
  newline. A value that is no enumerator gets the name behind the \<open>switch\<close>.
\<close>

definition print_command_type :: "u16 \<Rightarrow> string" where
  "print_command_type value =
     (if value = command_type_code NewOrder then ''NEW''
      else if value = command_type_code CancelOrder then ''CANCEL''
      else if value = command_type_code ReplaceOrder then ''REPLACE''
      else ''UNKNOWN'')"

definition print_event_type :: "u16 \<Rightarrow> string" where
  "print_event_type value =
     (if value = event_type_code OrderAccepted then ''OrderAccepted''
      else if value = event_type_code OrderRejected then ''OrderRejected''
      else if value = event_type_code TradeExecuted then ''TradeExecuted''
      else if value = event_type_code OrderRested then ''OrderRested''
      else if value = event_type_code OrderPartiallyFilled then ''OrderPartiallyFilled''
      else if value = event_type_code OrderFullyFilled then ''OrderFullyFilled''
      else if value = event_type_code OrderCancelled then ''OrderCancelled''
      else ''UnknownEvent'')"

definition print_side :: "u16 \<Rightarrow> string" where
  "print_side value =
     (if value = side_code Buy then ''BUY''
      else if value = side_code Sell then ''SELL''
      else ''NA'')"

definition print_rejection_reason :: "u16 \<Rightarrow> string" where
  "print_rejection_reason value =
     (if value = rejection_reason_code NoRejection then ''None''
      else if value = rejection_reason_code UnsupportedCommand then ''UnsupportedCommand''
      else if value = rejection_reason_code InvalidSide then ''InvalidSide''
      else if value = rejection_reason_code InvalidPrice then ''InvalidPrice''
      else if value = rejection_reason_code InvalidQuantity then ''InvalidQuantity''
      else if value = rejection_reason_code DuplicateOrderId then ''DuplicateOrderId''
      else if value = rejection_reason_code UnsupportedTimeInForce then ''UnsupportedTimeInForce''
      else if value = rejection_reason_code UnknownOrderId then ''UnknownOrderId''
      else if value = rejection_reason_code InstrumentMismatch then ''InstrumentMismatch''
      else if value = rejection_reason_code ReplaceWouldDuplicateOrderId then ''ReplaceWouldDuplicateOrderId''
      else if value = rejection_reason_code InvalidReplacementOrderId then ''InvalidReplacementOrderId''
      else ''UnknownReason'')"

definition endl :: string where
  "endl = [char_of (10 :: nat)]"

definition print_command :: "OrderCommandRecordV1 \<Rightarrow> string" where
  "print_command command =
     ''cmd_seq='' @ show_word (c_command_sequence command)
     @ '' type='' @ print_command_type (c_command_type command)
     @ '' instrument='' @ show_word (c_instrument_id command)
     @ '' client='' @ show_word (c_client_id command)
     @ '' order='' @ show_word (c_order_id command)
     @ (if c_replacement_order_id command \<noteq> 0
        then '' replacement='' @ show_word (c_replacement_order_id command) else [])
     @ (if c_side command \<noteq> 0 then '' side='' @ print_side (c_side command) else [])
     @ (if c_price_ticks command \<noteq> 0 \<or> c_quantity_lots command \<noteq> 0
        then '' price='' @ show_i64 (c_price_ticks command) @ '' qty='' @ show_i64 (c_quantity_lots command)
        else [])
     @ endl"

definition print_event :: "ExecutionEventRecordV1 \<Rightarrow> string" where
  "print_event event =
     ''event_seq='' @ show_word (e_event_sequence event)
     @ '' cmd_seq='' @ show_word (e_command_sequence event)
     @ '' type='' @ print_event_type (e_event_type event)
     @ '' instrument='' @ show_word (e_instrument_id event)
     @ '' order='' @ show_word (e_order_id event)
     @ (if e_contra_order_id event \<noteq> 0 then '' contra='' @ show_word (e_contra_order_id event) else [])
     @ (if e_trade_id event \<noteq> 0 then '' trade='' @ show_word (e_trade_id event) else [])
     @ '' side='' @ print_side (e_side event)
     @ '' price='' @ show_i64 (e_price_ticks event)
     @ '' qty='' @ show_i64 (e_quantity_lots event)
     @ '' remaining='' @ show_i64 (e_remaining_quantity_lots event)
     @ (if e_rejection_reason event \<noteq> 0
        then '' reason='' @ print_rejection_reason (e_rejection_reason event) else [])
     @ endl"

end
