(* ===== verification/Cli.thy ===== *)
theory Cli
  imports Replay ProjectionRefinement WalTyped ScenarioProperties EventDump
begin

text \<open>
  The command line program (\<open>app/main.cpp\<close>): storing records in WAL segments, reading them back for
  the replay runner and the projection, and the five commands. Standard output and standard error
  are strings, the exit code an integer; \<open>None\<close> is an exception that ends the program. The
  conversion of an argument to a path is the argument \<open>path_of\<close>; \<open>outcomes\<close> are what the device
  does, \<open>pads\<close> the padding bytes of the header and of the record of the \<open>n\<close>th append.
\<close>

section \<open>Records in a WAL\<close>

definition order_command_record_type :: u32 where
  "order_command_record_type = record_type_code OrderCommand"

definition execution_event_record_type :: u32 where
  "execution_event_record_type = record_type_code ExecutionEvent"

definition command_stream_id :: u64 where "command_stream_id = 10"
definition event_stream_id :: u64 where "event_stream_id = 20"
definition wal_epoch :: u64 where "wal_epoch = 1"
definition first_sequence_number :: u64 where "first_sequence_number = 1"

definition append_storage_record ::
  "('a \<Rightarrow> bytes) \<Rightarrow> u32 \<Rightarrow> u32 \<Rightarrow> 'a \<Rightarrow> WalSegmentWriter \<Rightarrow> WalAppendResult \<times> WalSegmentWriter" where
  "append_storage_record encode header_padding record_type record w =
     append_record header_padding record_type (encode record) w"

definition read_storage_record ::
  "(bytes \<Rightarrow> 'a) \<Rightarrow> nat \<Rightarrow> u32 \<Rightarrow> bytes \<Rightarrow> WalSegmentReader \<Rightarrow> WalReadResult \<times> 'a option \<times> WalSegmentReader" where
  "read_storage_record decode record_size expected_record_type content r =
     (case read_next_record content r of (read_result, wal_record, r') \<Rightarrow>
        if read_status read_result \<noteq> WalRecordRead then (read_result, None, r')
        else (case wal_record of
            None \<Rightarrow> (read_result, None, r')
          | Some record \<Rightarrow>
              if rec_record_type record \<noteq> expected_record_type
              then (read_result\<lparr>read_status := WalReadFailed, read_error := RecordTypeMismatch\<rparr>, None, r')
              else if length (rec_payload record) \<noteq> record_size
              then (read_result\<lparr>read_status := WalReadFailed, read_error := PayloadSizeMismatch\<rparr>, None, r')
              else (read_result, Some (decode (rec_payload record)), r')))"

text \<open>The status conversion of the two replay readers; the record keeps its value when none is read.\<close>

definition replay_status :: "WalReadStatus \<Rightarrow> ReplayReadStatus" where
  "replay_status status =
     (if status = WalRecordRead then RecordRead
      else if status = WalReadEnd then EndOfLog
      else ReadFailed)"

definition command_replay_read ::
  "bytes \<Rightarrow> WalSegmentReader \<Rightarrow> ReplayReadStatus \<times> OrderCommandRecordV1 \<times> WalSegmentReader" where
  "command_replay_read content r =
     (case read_storage_record decode_command sizeof_command order_command_record_type content r of
        (result, record, r') \<Rightarrow>
          (replay_status (read_status result), (case record of None \<Rightarrow> empty_command | Some c \<Rightarrow> c), r'))"

definition event_replay_read ::
  "bytes \<Rightarrow> WalSegmentReader \<Rightarrow> ReplayReadStatus \<times> ExecutionEventRecordV1 \<times> WalSegmentReader" where
  "event_replay_read content r =
     (case read_storage_record decode_event sizeof_event execution_event_record_type content r of
        (result, record, r') \<Rightarrow>
          (replay_status (read_status result), (case record of None \<Rightarrow> empty_event | Some e \<Rightarrow> e), r'))"

section \<open>Writing the logs\<close>

text \<open>\<open>remove\<close> deletes a file or an empty directory; on another directory it throws.\<close>

definition remove_path :: "file_system \<Rightarrow> path \<Rightarrow> file_system option" where
  "remove_path fs p =
     (if fs p = Some Directory \<and> (\<exists>q. q \<noteq> [] \<and> fs (p @ q) \<noteq> None) then None
      else Some (fs(p := None)))"

text \<open>The loop over the records; it stops at the first append that fails.\<close>

fun append_all ::
  "(u32 \<Rightarrow> 'a \<Rightarrow> bytes) \<Rightarrow> u32 \<Rightarrow> (nat \<Rightarrow> u32 \<times> u32) \<Rightarrow> nat \<Rightarrow> 'a list \<Rightarrow> WalSegmentWriter \<Rightarrow>
   bool \<times> WalSegmentWriter" where
  "append_all encode record_type pads n [] w = (True, w)"
| "append_all encode record_type pads n (x # xs) w =
     (case append_storage_record (encode (snd (pads n))) (fst (pads n)) record_type x w of (result, w') \<Rightarrow>
        if append_status result \<noteq> Appended then (False, w')
        else append_all encode record_type pads (Suc n) xs w')"

text \<open>
  The common body of \<open>write_commands\<close> and \<open>write_events\<close>. An empty parent path becomes \<open>.\<close>, which
  exists. The writer is destroyed at every \<open>return\<close>.
\<close>

definition write_log ::
  "(u32 \<Rightarrow> 'a \<Rightarrow> bytes) \<Rightarrow> u32 \<Rightarrow> u64 \<Rightarrow> ('a \<Rightarrow> u64) \<Rightarrow> file_system \<Rightarrow> device_outcome list \<Rightarrow>
   (nat \<Rightarrow> u32 \<times> u32) \<Rightarrow> path \<Rightarrow> 'a list \<Rightarrow> (bool \<times> file_system) option" where
  "write_log encode record_type stream_id sequence_of fs outcomes pads p records =
     (case create_directories fs (butlast p) of
        None \<Rightarrow> None
      | Some fs1 \<Rightarrow>
          (case remove_path fs1 p of
             None \<Rightarrow> None
           | Some fs2 \<Rightarrow>
               (case new_segment_writer fs2 outcomes p stream_id wal_epoch
                       (if records = [] then first_sequence_number else sequence_of (hd records)) of
                  None \<Rightarrow> None
                | Some (w, fs3) \<Rightarrow>
                    (case append_all encode record_type pads 0 records w of (appended, w1) \<Rightarrow>
                       if \<not> appended then Some (False, close_segment_writer fs3 w1)
                       else if records = [] then Some (True, close_segment_writer fs3 w1)
                       else (case wal_commit fs3 w1 of (result, w2, fs4) \<Rightarrow>
                               Some (commit_status result = Committed, close_segment_writer fs4 w2))))))"

definition write_commands ::
  "file_system \<Rightarrow> device_outcome list \<Rightarrow> (nat \<Rightarrow> u32 \<times> u32) \<Rightarrow> path \<Rightarrow> OrderCommandRecordV1 list \<Rightarrow>
   (bool \<times> file_system) option" where
  "write_commands fs outcomes pads p commands =
     write_log encode_command order_command_record_type command_stream_id c_command_sequence
       fs outcomes pads p commands"

definition write_events ::
  "file_system \<Rightarrow> device_outcome list \<Rightarrow> (nat \<Rightarrow> u32 \<times> u32) \<Rightarrow> path \<Rightarrow> ExecutionEventRecordV1 list \<Rightarrow>
   (bool \<times> file_system) option" where
  "write_events fs outcomes pads p events =
     write_log encode_event execution_event_record_type event_stream_id e_event_sequence
       fs outcomes pads p events"

definition run_engine :: "OrderCommandRecordV1 list \<Rightarrow> ExecutionEventRecordV1 list" where
  "run_engine commands = fst (run_commands engine_apply (new_instrument_engine first_sequence_number) commands)"

section \<open>The commands\<close>

text \<open>The bytes a reader on the path sees.\<close>

definition file_content :: "file_system \<Rightarrow> path \<Rightarrow> bytes" where
  "file_content fs p = (case file_bytes fs p of None \<Rightarrow> [] | Some bs \<Rightarrow> bs)"

definition open_reader :: "file_system \<Rightarrow> path \<Rightarrow> WalSegmentReader" where
  "open_reader fs p = new_segment_reader (file_bytes fs p)"

text \<open>The enumerators in the order of their declaration.\<close>

fun failure_class_code :: "ReplayFailureClass \<Rightarrow> nat" where
  "failure_class_code NoFailure = 0"
| "failure_class_code CommandReadFailed = 1"
| "failure_class_code StoredEventReadFailed = 2"
| "failure_class_code CommandSequenceBreak = 3"
| "failure_class_code StoredEventMissing = 4"
| "failure_class_code ExtraStoredEvent = 5"
| "failure_class_code EventFieldMismatch = 6"
| "failure_class_code InvariantViolation = 7"

text \<open>The exit code and the output of \<open>replay_wals\<close>; \<open>None\<close> would be a run that does not end.\<close>

definition replay_wals :: "file_system \<Rightarrow> path \<Rightarrow> path \<Rightarrow> (int \<times> string) option" where
  "replay_wals fs command_wal event_wal =
     (case replay (command_replay_read (file_content fs command_wal))
             (event_replay_read (file_content fs event_wal))
             (open_reader fs command_wal) (open_reader fs event_wal)
             (new_instrument_engine first_sequence_number) of
        None \<Rightarrow> None
      | Some result \<Rightarrow>
          Some (if res_ok result then
                  (0, ''Replay OK: commands='' @ show_word (res_commands_replayed result)
                      @ '' events='' @ show_word (res_events_compared result) @ endl)
                else
                  (let f = res_failure result in
                   (2, ''Replay FAILED class='' @ show_nat (failure_class_code (f_failure_class f))
                       @ '' command_sequence='' @ show_word (f_command_sequence f)
                       @ '' event_index='' @ show_word (f_event_index_within_command f)
                       @ '' global_event_sequence='' @ show_word (f_global_event_sequence f) @ endl
                       @ (case f_expected_event f of None \<Rightarrow> [] | Some e \<Rightarrow> ''expected: '' @ print_event e)
                       @ (case f_actual_event f of None \<Rightarrow> [] | Some e \<Rightarrow> ''actual: '' @ print_event e)))))"

text \<open>A reader that delivers a record has moved on by at least a record header.\<close>

lemma segment_read_next_progress:
  assumes "segment_read_next content r = (result, view, r')" "read_status result = WalRecordRead"
  shows "i_pos (rd_file r) < i_pos (rd_file r') \<and> i_pos (rd_file r) < length content"
proof -
  obtain hb f1 where r1: "stream_read content (rd_file r) sizeof_record_header = (hb, f1)"
    by (cases "stream_read content (rd_file r) sizeof_record_header")
  obtain hres header ra where h: "read_record_header content r = (hres, header, ra)"
    by (cases "read_record_header content r")
  obtain pres rb where p: "read_payload content ra header = (pres, rb)"
    by (cases "read_payload content ra header")
  have opn: "read_status (rd_open_result r) = WalRecordRead"
    using assms by (auto simp: segment_read_next_def split: if_splits)
  have hs: "read_status hres = WalRecordRead" and
    r': "rd_file r' = (if padding_after header \<noteq> 0
      then stream_ignore content (rd_file rb) (sint (padding_after header)) else rd_file rb)"
    using assms opn by (auto simp: segment_read_next_def h p Let_def split: if_splits)
  have g: "i_gcount f1 = sizeof_record_header" and ra: "rd_file ra = f1"
    using h hs unfolding read_record_header_def r1
    by (auto simp: Let_def read_failed_def split: if_splits)
  have "i_pos f1 = i_pos (rd_file r) + 56" "i_pos (rd_file r) + 56 \<le> length content"
    using stream_read_gcount [of sizeof_record_header content "rd_file r"] g r1
    by (auto simp: sizeof_record_header_def)
  moreover have "i_pos f1 \<le> i_pos (rd_file rb)"
    using p stream_read_pos [of f1 content] unfolding read_payload_def ra
    by (auto simp: Let_def split_beta split: if_splits)
  moreover have "i_pos (rd_file rb) \<le> i_pos (rd_file r')" using r' stream_ignore_pos by simp
  ultimately show ?thesis by simp
qed

lemma read_storage_record_progress:
  assumes "read_storage_record decode record_size t content r = (result, record, r')"
    and "read_status result = WalRecordRead"
  shows "i_pos (rd_file r) < i_pos (rd_file r') \<and> i_pos (rd_file r) < length content"
proof -
  obtain res view r'' where s: "segment_read_next content r = (res, view, r'')"
    by (cases "segment_read_next content r")
  have "read_status res = WalRecordRead \<and> r'' = r'"
    using assms unfolding read_storage_record_def read_next_record_def s
    by (auto split: if_splits option.splits)
  then show ?thesis using segment_read_next_progress [OF s] by simp
qed

text \<open>
  What repeated reads of one record type yield: the records, and the status that ends them. Every
  file has such a list.
\<close>

function stored_records ::
  "(bytes \<Rightarrow> 'a) \<Rightarrow> nat \<Rightarrow> u32 \<Rightarrow> bytes \<Rightarrow> WalSegmentReader \<Rightarrow> 'a list \<times> ReplayReadStatus" where
  "stored_records decode record_size t content r =
     (case read_storage_record decode record_size t content r of (result, record, r') \<Rightarrow>
        if read_status result = WalRecordRead then
          (case record of
             None \<Rightarrow> ([], ReadFailed)
           | Some x \<Rightarrow>
               (case stored_records decode record_size t content r' of (xs, status) \<Rightarrow> (x # xs, status)))
        else ([], replay_status (read_status result)))"
  by pat_completeness auto

termination stored_records
  by (relation "measure (\<lambda>(d, n, t, content, r). length content - i_pos (rd_file r))")
    (auto dest!: read_storage_record_progress [rotated, OF _ sym] read_storage_record_progress)

declare stored_records.simps [simp del]

lemma read_storage_record_Some:
  assumes "read_storage_record decode record_size t content r = (result, record, r')"
    and "read_status result = WalRecordRead"
  shows "record \<noteq> None"
proof -
  obtain res view r'' where s: "segment_read_next content r = (res, view, r'')"
    by (cases "segment_read_next content r")
  have "view \<noteq> None" if "read_status res = WalRecordRead"
    using s that unfolding segment_read_next_def Let_def
    by (auto split: if_splits prod.splits)
  then show ?thesis
    using assms unfolding read_storage_record_def read_next_record_def s
    by (auto split: if_splits option.splits)
qed

definition stored_commands :: "bytes \<Rightarrow> WalSegmentReader \<Rightarrow> OrderCommandRecordV1 list \<times> ReplayReadStatus" where
  "stored_commands content r =
     stored_records decode_command sizeof_command order_command_record_type content r"

definition stored_events :: "bytes \<Rightarrow> WalSegmentReader \<Rightarrow> ExecutionEventRecordV1 list \<times> ReplayReadStatus" where
  "stored_events content r =
     stored_records decode_event sizeof_event execution_event_record_type content r"

lemma replay_status_simps [simp]:
  "replay_status status = RecordRead \<longleftrightarrow> status = WalRecordRead"
  "replay_status status = EndOfLog \<longleftrightarrow> status = WalReadEnd"
  by (cases status; simp add: replay_status_def)+

text \<open>Both replay readers are record sources, on every file.\<close>

lemma stored_records_cases:
  assumes "read_storage_record decode record_size t content r = (result, record, r')"
  shows "stored_records decode record_size t content r =
    (case record of
       Some x \<Rightarrow> if read_status result = WalRecordRead
         then (x # fst (stored_records decode record_size t content r'),
               snd (stored_records decode record_size t content r'))
         else ([], replay_status (read_status result))
     | None \<Rightarrow> ([], replay_status (read_status result)))"
  using read_storage_record_Some [OF assms] assms
  by (subst stored_records.simps) (auto split: option.splits prod.splits)

interpretation wal_commands: record_source "command_replay_read content"
    "\<lambda>r xs e. stored_commands content r = (xs, e)" for content
proof
  fix r x xs e
  assume a: "stored_commands content r = (x # xs, e)"
  obtain result found r' where s: "read_storage_record decode_command sizeof_command
      order_command_record_type content r = (result, found, r')"
    by (metis prod_cases3)
  show "\<exists>r'. command_replay_read content r = (RecordRead, x, r') \<and> stored_commands content r' = (xs, e)"
    using a stored_records_cases [OF s]
    by (auto simp: stored_commands_def command_replay_read_def s prod_eq_iff split: option.splits if_splits)
next
  fix r e
  assume a: "stored_commands content r = ([], e)"
  obtain result found r' where s: "read_storage_record decode_command sizeof_command
      order_command_record_type content r = (result, found, r')"
    by (metis prod_cases3)
  show "fst (command_replay_read content r) = e \<and> e \<noteq> RecordRead"
    using a stored_records_cases [OF s] read_storage_record_Some [OF s]
    by (auto simp: stored_commands_def command_replay_read_def s split: option.splits if_splits)
qed

interpretation wal_events: record_source "event_replay_read content"
    "\<lambda>r xs e. stored_events content r = (xs, e)" for content
proof
  fix r x xs e
  assume a: "stored_events content r = (x # xs, e)"
  obtain result found r' where s: "read_storage_record decode_event sizeof_event
      execution_event_record_type content r = (result, found, r')"
    by (metis prod_cases3)
  show "\<exists>r'. event_replay_read content r = (RecordRead, x, r') \<and> stored_events content r' = (xs, e)"
    using a stored_records_cases [OF s]
    by (auto simp: stored_events_def event_replay_read_def s prod_eq_iff split: option.splits if_splits)
next
  fix r e
  assume a: "stored_events content r = ([], e)"
  obtain result found r' where s: "read_storage_record decode_event sizeof_event
      execution_event_record_type content r = (result, found, r')"
    by (metis prod_cases3)
  show "fst (event_replay_read content r) = e \<and> e \<noteq> RecordRead"
    using a stored_records_cases [OF s] read_storage_record_Some [OF s]
    by (auto simp: stored_events_def event_replay_read_def s split: option.splits if_splits)
qed

interpretation wal_logs: replay_logs "command_replay_read content" "\<lambda>r xs e. stored_commands content r = (xs, e)"
    "event_replay_read content'" "\<lambda>r xs e. stored_events content' r = (xs, e)" for content content' ..

section \<open>Dumps\<close>

text \<open>The loop of \<open>dump_events_command\<close>: exit code, output and error output.\<close>

function dump_events_loop :: "bytes \<Rightarrow> WalSegmentReader \<Rightarrow> string \<Rightarrow> int \<times> string \<times> string" where
  "dump_events_loop content r out =
     (case read_storage_record decode_event sizeof_event execution_event_record_type content r of
        (result, record, r') \<Rightarrow>
          if read_status result = WalReadEnd then (0, out, [])
          else if read_status result \<noteq> WalRecordRead then
            (1, out, ''matching_engine: failed to read event WAL'' @ endl)
          else dump_events_loop content r'
                 (out @ print_event (case record of None \<Rightarrow> empty_event | Some event \<Rightarrow> event)))"
  by pat_completeness auto

termination dump_events_loop
  by (relation "measure (\<lambda>(content, r, out). length content - i_pos (rd_file r))")
    (auto dest!: read_storage_record_progress [rotated, OF _ sym])

declare dump_events_loop.simps [simp del]

text \<open>
  The loop of \<open>apply_projection_from_event_wal\<close>, with the projection it fills; \<open>iteration\<close> is the
  iteration order of the projection's hash map.
\<close>

function projection_loop ::
  "(projected_orders \<Rightarrow> projected_orders) \<Rightarrow> bytes \<Rightarrow> WalSegmentReader \<Rightarrow> MarketDataProjection \<Rightarrow>
   bool \<times> MarketDataProjection \<times> string" where
  "projection_loop iteration content r p =
     (case read_storage_record decode_event sizeof_event execution_event_record_type content r of
        (result, record, r') \<Rightarrow>
          if read_status result = WalReadEnd then (True, p, [])
          else if read_status result \<noteq> WalRecordRead then
            (False, p, ''matching_engine: failed to read event WAL'' @ endl)
          else
            (let event = (case record of None \<Rightarrow> empty_event | Some event \<Rightarrow> event) in
             case projection_apply iteration p event of (apply_result, p') \<Rightarrow>
               if apply_status apply_result = Rejected then
                 (False, p', ''matching_engine: market data projection rejected event ''
                    @ show_word (e_event_sequence event) @ '': '' @ apply_error apply_result @ endl)
               else projection_loop iteration content r' p'))"
  by pat_completeness auto

termination projection_loop
  by (relation "measure (\<lambda>(it, content, r, p). length content - i_pos (rd_file r))")
    (auto dest!: read_storage_record_progress [rotated, OF _ sym])

declare projection_loop.simps [simp del]

section \<open>The program\<close>

definition print_usage :: string where
  "print_usage =
     ''usage:'' @ endl
     @ ''  matching_engine run <scenario> [command.wal] [event.wal]'' @ endl
     @ ''  matching_engine replay <command.wal> <event.wal>'' @ endl
     @ ''  matching_engine dump-events <event.wal>'' @ endl
     @ ''  matching_engine dump-book <event.wal>'' @ endl
     @ ''  matching_engine dump-trades <event.wal>'' @ endl"

definition side_name :: "u16 \<Rightarrow> string" where
  "side_name side =
     (if side = side_code Buy then ''BUY'' else if side = side_code Sell then ''SELL'' else ''NA'')"

text \<open>A path is printed quoted; quotes and backslashes are escaped.\<close>

definition quoted :: "string \<Rightarrow> string" where
  "quoted s =
     CHR 0x22 # concat (map (\<lambda>c. if c = CHR 0x22 \<or> c = CHR 0x5C then [CHR 0x5C, c] else [c]) s) @ [CHR 0x22]"

definition file_text :: "file_system \<Rightarrow> path \<Rightarrow> string option" where
  "file_text fs p = map_option (map (\<lambda>b. char_of (unat b))) (file_bytes fs p)"

text \<open>Exit code, output, error output and file system. The arguments are those behind the command.\<close>

type_synonym cli_result = "(int \<times> string \<times> string \<times> file_system) option"

text \<open>What \<open>run_command\<close> prints when both logs are written.\<close>

definition run_report ::
  "OrderCommandRecordV1 list \<Rightarrow> ExecutionEventRecordV1 list \<Rightarrow> string \<Rightarrow> string \<Rightarrow> string" where
  "run_report commands events command_arg event_arg =
     ''Run OK'' @ endl
     @ ''commands: '' @ show_nat (length commands) @ '' -> '' @ quoted command_arg @ endl
     @ ''events:   '' @ show_nat (length events) @ '' -> '' @ quoted event_arg @ endl
     @ concat (map print_command commands)
     @ concat (map print_event events)"

definition run_command ::
  "(string \<Rightarrow> path) \<Rightarrow> file_system \<Rightarrow> device_outcome list \<Rightarrow> device_outcome list \<Rightarrow>
   (nat \<Rightarrow> u32 \<times> u32) \<Rightarrow> (nat \<Rightarrow> u32 \<times> u32) \<Rightarrow> string list \<Rightarrow> cli_result" where
  "run_command path_of fs command_outcomes event_outcomes command_pads event_pads args =
     (case args of
        [] \<Rightarrow> Some (1, print_usage, [], fs)
      | scenario_arg # rest \<Rightarrow>
          (let command_arg = (case rest of [] \<Rightarrow> ''wal/commands.wal'' | a # _ \<Rightarrow> a);
               event_arg = (case rest of (_ # a # _) \<Rightarrow> a | _ \<Rightarrow> ''wal/events.wal'');
               command_wal = path_of command_arg;
               event_wal = path_of event_arg;
               scenario = load_scenario scenario_arg (file_text fs (path_of scenario_arg))
           in if \<not> load_ok scenario
              then Some (1, [], ''matching_engine: '' @ load_error scenario @ endl, fs)
              else
                (case write_commands fs command_outcomes command_pads command_wal (load_commands scenario) of
                   None \<Rightarrow> None
                 | Some (written, fs1) \<Rightarrow>
                     if \<not> written
                     then Some (1, [], ''matching_engine: failed to write command WAL'' @ endl, fs1)
                     else
                       (let events = run_engine (load_commands scenario) in
                        case write_events fs1 event_outcomes event_pads event_wal events of
                          None \<Rightarrow> None
                        | Some (written, fs2) \<Rightarrow>
                            if \<not> written
                            then Some (1, [], ''matching_engine: failed to write event WAL'' @ endl, fs2)
                            else
                              (case replay_wals fs2 command_wal event_wal of
                                 None \<Rightarrow> None
                               | Some (code, replay_out) \<Rightarrow>
                                   Some (code, run_report (load_commands scenario) events command_arg event_arg
                                           @ replay_out, [], fs2))))))"

definition replay_command :: "(string \<Rightarrow> path) \<Rightarrow> file_system \<Rightarrow> string list \<Rightarrow> cli_result" where
  "replay_command path_of fs args =
     (case args of
        [command_arg, event_arg] \<Rightarrow>
          (case replay_wals fs (path_of command_arg) (path_of event_arg) of
             None \<Rightarrow> None
           | Some (code, out) \<Rightarrow> Some (code, out, [], fs))
      | _ \<Rightarrow> Some (1, print_usage, [], fs))"

definition dump_events_command :: "(string \<Rightarrow> path) \<Rightarrow> file_system \<Rightarrow> string list \<Rightarrow> cli_result" where
  "dump_events_command path_of fs args =
     (case args of
        [event_arg] \<Rightarrow>
          (case dump_events_loop (file_content fs (path_of event_arg)) (open_reader fs (path_of event_arg)) [] of
             (code, out, err) \<Rightarrow> Some (code, out, err, fs))
      | _ \<Rightarrow> Some (1, print_usage, [], fs))"

definition apply_projection_from_event_wal ::
  "(projected_orders \<Rightarrow> projected_orders) \<Rightarrow> file_system \<Rightarrow> path \<Rightarrow> MarketDataProjection \<Rightarrow>
   bool \<times> MarketDataProjection \<times> string" where
  "apply_projection_from_event_wal iteration fs event_wal p =
     projection_loop iteration (file_content fs event_wal) (open_reader fs event_wal) p"

definition print_levels :: "(i64 \<times> i64) list \<Rightarrow> string" where
  "print_levels levels =
     (if levels = [] then ''  empty'' @ endl
      else concat (map (\<lambda>(price, quantity). ''  '' @ show_i64 price @ '': '' @ show_i64 quantity @ endl) levels))"

definition dump_book_command ::
  "(projected_orders \<Rightarrow> projected_orders) \<Rightarrow> (string \<Rightarrow> path) \<Rightarrow> file_system \<Rightarrow> string list \<Rightarrow> cli_result" where
  "dump_book_command iteration path_of fs args =
     (case args of
        [event_arg] \<Rightarrow>
          (case apply_projection_from_event_wal iteration fs (path_of event_arg) new_market_data_projection of
             (ok, p, err) \<Rightarrow>
               if \<not> ok then Some (1, [], err, fs)
               else Some (0, ''Book instrument='' @ show_word (v_instrument_id (p_book p))
                   @ '' last_event_sequence='' @ show_word (p_last_applied_event_sequence p) @ endl
                   @ ''Bids:'' @ endl @ print_levels (v_bids (p_book p))
                   @ ''Asks:'' @ endl @ print_levels (v_asks (p_book p)), err, fs))
      | _ \<Rightarrow> Some (1, print_usage, [], fs))"

definition print_trade :: "PublicTrade \<Rightarrow> string" where
  "print_trade trade =
     ''trade='' @ show_word (t_trade_id trade)
     @ '' instrument='' @ show_word (t_instrument_id trade)
     @ '' incoming='' @ show_word (t_incoming_order_id trade)
     @ '' resting='' @ show_word (t_resting_order_id trade)
     @ '' side='' @ side_name (t_aggressor_side trade)
     @ '' price='' @ show_i64 (t_price_ticks trade)
     @ '' qty='' @ show_i64 (t_quantity_lots trade) @ endl"

definition dump_trades_command ::
  "(projected_orders \<Rightarrow> projected_orders) \<Rightarrow> (string \<Rightarrow> path) \<Rightarrow> file_system \<Rightarrow> string list \<Rightarrow> cli_result" where
  "dump_trades_command iteration path_of fs args =
     (case args of
        [event_arg] \<Rightarrow>
          (case apply_projection_from_event_wal iteration fs (path_of event_arg) new_market_data_projection of
             (ok, p, err) \<Rightarrow>
               if \<not> ok then Some (1, [], err, fs)
               else Some (0, concat (map print_trade (p_trades p)), err, fs))
      | _ \<Rightarrow> Some (1, print_usage, [], fs))"

definition main ::
  "(projected_orders \<Rightarrow> projected_orders) \<Rightarrow> (string \<Rightarrow> path) \<Rightarrow> file_system \<Rightarrow>
   device_outcome list \<Rightarrow> device_outcome list \<Rightarrow> (nat \<Rightarrow> u32 \<times> u32) \<Rightarrow> (nat \<Rightarrow> u32 \<times> u32) \<Rightarrow>
   string list \<Rightarrow> cli_result" where
  "main iteration path_of fs command_outcomes event_outcomes command_pads event_pads argv =
     (case argv of
        [] \<Rightarrow> Some (1, print_usage, [], fs)
      | command # args \<Rightarrow>
          if command = ''run'' then
            run_command path_of fs command_outcomes event_outcomes command_pads event_pads args
          else if command = ''replay'' then replay_command path_of fs args
          else if command = ''dump-events'' then dump_events_command path_of fs args
          else if command = ''dump-book'' then dump_book_command iteration path_of fs args
          else if command = ''dump-trades'' then dump_trades_command iteration path_of fs args
          else Some (1, print_usage, [], fs))"

end
