(* ===== verification/CliFacts.thy ===== *)
theory CliFacts
  imports Cli
begin

text \<open>
  What the program's storage functions do on a device that accepts everything: \<open>write_log\<close> leaves
  exactly the log of the records in the file and nothing else changed, and reading it back yields
  the records.
\<close>

section \<open>Entries\<close>

fun log_entries ::
  "(u32 \<Rightarrow> 'a \<Rightarrow> bytes) \<Rightarrow> u32 \<Rightarrow> (nat \<Rightarrow> u32 \<times> u32) \<Rightarrow> nat \<Rightarrow> 'a list \<Rightarrow> log_record list" where
  "log_entries encode t pads n [] = []"
| "log_entries encode t pads n (x # xs) =
     (fst (pads n), t, encode (snd (pads n)) x) # log_entries encode t pads (Suc n) xs"

lemma length_log_entries [simp]: "length (log_entries encode t pads n xs) = length xs"
  by (induction encode t pads n xs rule: log_entries.induct) simp_all

lemma log_entries_Nil_iff [simp]: "log_entries encode t pads n xs = [] \<longleftrightarrow> xs = []"
  by (cases xs) simp_all

lemma log_entries_fit:
  assumes "\<And>pad x. length (encode pad x) = len" "len < 2 ^ 32 - 64"
  shows "list_all record_fits (log_entries encode t pads n xs)"
  using assms
  by (induction encode t pads n xs rule: log_entries.induct) (simp_all add: record_fits_def payload_fits_def)

lemma list_all_append_op: "list_all good rs \<Longrightarrow> list_all (op_good good) (map append_op rs)"
  by (auto simp: list_all_iff)

section \<open>Writing\<close>

lemma append_all_session:
  assumes "accepting (ses_writer x)"
  shows "append_all encode t pads n xs (ses_writer x) =
    (True, ses_writer (run_session (map append_op (log_entries encode t pads n xs)) x))"
  using assms
proof (induction xs arbitrary: n x)
  case Nil
  then show ?case by (simp add: run_session_def)
next
  case (Cons a as)
  let ?op = "Append (fst (pads n)) t (encode (snd (pads n)) a)"
  let ?y = "session_step ?op x"
  obtain result w where s: "segment_append (fst (pads n)) t (encode (snd (pads n)) a) (ses_writer x) = (result, w)"
    by (cases "segment_append (fst (pads n)) t (encode (snd (pads n)) a) (ses_writer x)")
  have r: "append_status result = Appended" "accepting w" "ses_writer ?y = w"
    using append_accepting [OF Cons.prems, of "fst (pads n)" t "encode (snd (pads n)) a"] s by simp_all
  then have "append_all encode t pads n (a # as) (ses_writer x) = append_all encode t pads (Suc n) as (ses_writer ?y)"
    by (simp add: append_storage_record_def append_record_def s)
  also have "\<dots> = (True, ses_writer (run_session (map append_op (log_entries encode t pads (Suc n) as)) ?y))"
    using r by (intro Cons.IH) simp
  finally show ?case by (simp add: run_session_def)
qed

lemma flush_other: "q \<noteq> p \<Longrightarrow> snd (stream_flush fs p out) q = fs q"
  by (auto simp: stream_flush_def append_to_file_def split: prod.splits device_outcome.splits option.splits)

lemma stream_close_other: "q \<noteq> p \<Longrightarrow> stream_close fs p out q = fs q"
  by (auto simp: stream_close_def append_to_file_def split: prod.splits device_outcome.splits option.splits)

lemma close_writer_other: "q \<noteq> w_file_path w \<Longrightarrow> close_segment_writer fs w q = fs q"
  by (simp add: close_segment_writer_def split_beta stream_close_other flush_other)

lemma commit_other: "q \<noteq> w_file_path w \<Longrightarrow> snd (snd (segment_commit fs w)) q = fs q"
  using flush_other [of q "w_file_path w" fs "w_file w"]
  by (auto simp: segment_commit_def Let_def split: prod.splits)

text \<open>A directory is there, or it is made, before its components are visited.\<close>

lemma create_directories_from_step:
  assumes "create_directories_from fs pre (c # cs) = Some fs'"
  obtains fs0 where "create_directories_from fs0 (pre @ [c]) cs = Some fs'"
    "fs0 = fs \<and> fs (pre @ [c]) = Some Directory \<or>
     fs0 = fs(pre @ [c] \<mapsto> Directory) \<and> fs (pre @ [c]) = None"
proof (cases "fs (pre @ [c])")
  case None
  then show ?thesis using assms that by simp
next
  case (Some node)
  then show ?thesis using assms that by (cases node) simp_all
qed

lemma create_directories_from_keeps:
  assumes "create_directories_from fs pre cs = Some fs'" "fs q = Some node"
  shows "fs' q = Some node"
  using assms
proof (induction cs arbitrary: fs pre)
  case (Cons c cs)
  obtain fs0 where f: "create_directories_from fs0 (pre @ [c]) cs = Some fs'"
    and s: "fs0 = fs \<and> fs (pre @ [c]) = Some Directory \<or>
     fs0 = fs(pre @ [c] \<mapsto> Directory) \<and> fs (pre @ [c]) = None"
    by (rule create_directories_from_step [OF Cons.prems(1)])
  have "fs0 q = Some node" using s Cons.prems(2) by auto
  then show ?case by (rule Cons.IH [OF f])
qed simp

lemma create_directories_from_again:
  assumes "create_directories_from fs pre cs = Some fs'" "length (pre @ cs) < length p"
  shows "create_directories_from (fs'(p := None)) pre cs = Some (fs'(p := None))"
  using assms
proof (induction cs arbitrary: fs pre)
  case (Cons c cs)
  have ne: "p \<noteq> pre @ [c]" using Cons.prems(2) by auto
  obtain fs0 where f: "create_directories_from fs0 (pre @ [c]) cs = Some fs'"
    and s: "fs0 = fs \<and> fs (pre @ [c]) = Some Directory \<or>
     fs0 = fs(pre @ [c] \<mapsto> Directory) \<and> fs (pre @ [c]) = None"
    by (rule create_directories_from_step [OF Cons.prems(1)])
  have "fs0 (pre @ [c]) = Some Directory" using s by auto
  then have "fs' (pre @ [c]) = Some Directory" by (rule create_directories_from_keeps [OF f])
  then have "(fs'(p := None)) (pre @ [c]) = Some Directory" using ne by simp
  moreover have "create_directories_from (fs'(p := None)) (pre @ [c]) cs = Some (fs'(p := None))"
    by (rule Cons.IH [OF f]) (use Cons.prems(2) in simp)
  ultimately show ?case by (simp del: fun_upd_apply)
qed simp

lemma ensure_parent_again:
  assumes "create_directories fs (butlast p) = Some fs1"
  shows "ensure_parent_directory_exists (fs1(p := None)) p = Some (fs1(p := None))"
proof (cases "butlast p = []")
  case True
  then show ?thesis by (simp add: ensure_parent_directory_exists_def)
next
  case False
  then have "length ([] @ butlast p) < length p" by (cases p) auto
  then show ?thesis
    using create_directories_from_again [of fs "[]" "butlast p" fs1 p] assms False
    by (simp add: ensure_parent_directory_exists_def create_directories_def Let_def)
qed

text \<open>\<open>remove\<close> makes room for the new file.\<close>

text \<open>All records are appended to a new writer: the session it has then.\<close>

lemma appended_log:
  assumes w: "new_segment_writer fs [] p s wal_epoch first = Some (w, fs1)" "accepting w" "fs p = None"
    and len: "\<And>pad x. length (encode pad x) = len" "len < 2 ^ 32 - 64"
  obtains y where "append_all encode t pads 0 xs w = (True, ses_writer y)" "accepting (ses_writer y)"
    "ses_accepted y = log_entries encode t pads 0 xs" "ses_files y = fs1"
    "session_ok record_fits 0 p s wal_epoch first y" "w_file_path (ses_writer y) = p"
proof
  let ?x = "start_session [] fs1 w" and ?rs = "log_entries encode t pads 0 xs"
  let ?y = "run_session (map append_op ?rs) ?x"
  have acc: "accepting (ses_writer ?x)" using w(2) by (simp add: start_session_def)
  have "session_ok record_fits 0 p s wal_epoch first ?x"
    using new_writer_session [OF w(1)] w(2,3) by (simp add: accepting_def)
  moreover have "list_all (op_good record_fits) (map append_op ?rs)"
    using log_entries_fit [of encode len t pads 0 xs, OF len] by (rule list_all_append_op)
  ultimately show y: "session_ok record_fits 0 p s wal_epoch first ?y" by (rule session_ok_run)
  show "accepting (ses_writer ?y)" "ses_accepted ?y = ?rs" "ses_files ?y = fs1"
    using run_appends_accepting [OF acc, of ?rs] by (simp_all add: start_session_def)
  show "w_file_path (ses_writer ?y) = p" using y by (simp add: session_ok_def counters_ok_def Let_def)
  show "append_all encode t pads 0 xs w = (True, ses_writer ?y)"
    using append_all_session [OF acc, of encode t pads 0 xs] by (simp add: start_session_def)
qed

lemma write_log_writes:
  assumes dirs: "create_directories fs (butlast p) = Some fs1"
    and free: "remove_path fs1 p = Some (fs1(p := None))"
    and len: "\<And>pad x. length (encode pad x) = len" "len < 2 ^ 32 - 64"
    and first: "first = (if xs = [] then first_sequence_number else sequence_of (hd xs))"
  obtains fs' where "write_log encode t stream sequence_of fs [] pads p xs = Some (True, fs')"
    "file_bytes fs' p = Some (segment_bytes stream wal_epoch first (log_entries encode t pads 0 xs))"
    "\<And>q. q \<noteq> p \<Longrightarrow> fs' q = fs1 q"
proof -
  let ?fs2 = "fs1(p := None)"
  let ?rs = "log_entries encode t pads 0 xs"
  obtain w fs3 where w: "new_segment_writer ?fs2 [] p stream wal_epoch first = Some (w, fs3)" "accepting w"
    and fs3: "fs3 = ?fs2(p \<mapsto> RegularFile [])"
    using new_writer_accepting [of ?fs2 p ?fs2 stream wal_epoch first] ensure_parent_again [OF dirs] by auto
  obtain y where app: "append_all encode t pads 0 xs w = (True, ses_writer y)"
    and ya: "accepting (ses_writer y)" "ses_accepted y = ?rs" "ses_files y = fs3"
    and y: "session_ok record_fits 0 p stream wal_epoch first y" and path: "w_file_path (ses_writer y) = p"
    by (rule appended_log [OF w _ len]) simp
  have start: "(if xs = [] then first_sequence_number else sequence_of (hd xs)) = first" by (simp only: first)
  show ?thesis
  proof (cases "xs = []")
    case True
    show ?thesis
    proof (rule that)
      show "write_log encode t stream sequence_of fs [] pads p xs =
          Some (True, close_segment_writer fs3 (ses_writer y))"
        unfolding write_log_def start
        by (simp only: dirs free w(1) app [unfolded True] option.case prod.case simp_thms if_False if_True True)
      show "file_bytes (close_segment_writer fs3 (ses_writer y)) p = Some (segment_bytes stream wal_epoch first ?rs)"
        using close_accepting [OF y ya(1)] ya by simp
      show "close_segment_writer fs3 (ses_writer y) q = fs1 q" if "q \<noteq> p" for q
        using close_writer_other [of q "ses_writer y" fs3, unfolded path] that fs3 by simp
    qed
  next
    case False
    obtain result w2 fs4 where c: "segment_commit fs3 (ses_writer y) = (result, w2, fs4)"
      by (metis prod_cases3)
    let ?z = "session_step Commit y"
    have st: "commit_status result = Committed" and w2: "accepting w2"
      using commit_accepting [OF ya(1), of fs3] c by simp_all
    have zw: "ses_writer ?z = w2" "ses_files ?z = fs4" "ses_accepted ?z = ?rs"
      using c ya by simp_all
    have z: "session_ok record_fits 0 p stream wal_epoch first ?z" by (rule session_ok_commit [OF y])
    then have zp: "w_file_path w2 = p" using zw by (simp add: session_ok_def counters_ok_def Let_def)
    show ?thesis
    proof (rule that)
      show "write_log encode t stream sequence_of fs [] pads p xs = Some (True, close_segment_writer fs4 w2)"
        unfolding write_log_def start using False by (simp add: dirs free w(1) app wal_commit_def c st)
      show "file_bytes (close_segment_writer fs4 w2) p = Some (segment_bytes stream wal_epoch first ?rs)"
        using close_accepting [OF z] w2 unfolding zw by blast
      show "close_segment_writer fs4 w2 q = fs1 q" if "q \<noteq> p" for q
        using that commit_other [of q "ses_writer y" fs3, unfolded path c]
          close_writer_other [of q w2 fs4, unfolded zp] fs3 by simp
    qed
  qed
qed

section \<open>Reading back\<close>

lemma read_storage_record_log:
  assumes "reads_log content s e q ((pb, t, payload) # rs) r" "length payload = size'"
  obtains r' where "read_storage_record decode size' t content r =
      (record_read \<lparr>pos_stream_id = s, pos_epoch = e, pos_sequence = q\<rparr>, Some (decode payload), r')"
    "reads_log content s e (q + 1) rs r'"
proof -
  obtain r' where "read_next_record content r =
      (record_read \<lparr>pos_stream_id = s, pos_epoch = e, pos_sequence = q\<rparr>,
       Some (delivered s e q (pb, t, payload)), r')"
    "reads_log content s e (q + 1) rs r'"
    using read_next_record_log [OF assms(1)] by blast
  then show ?thesis using assms(2) by (intro that) (simp_all add: read_storage_record_def delivered_def)
qed

lemma stored_records_log:
  assumes "reads_log content s e q (log_entries encode t pads n xs) r"
    and "\<And>pad. codec (encode pad) decode len"
  shows "stored_records decode len t content r = (xs, EndOfLog)"
  using assms(1)
proof (induction xs arbitrary: n q r)
  case Nil
  then have l: "reads_log content s e q [] r" by simp
  obtain position r' where "read_next_record content r =
      (\<lparr>read_status = WalReadEnd, read_error = WalEndOfLog, read_position = position\<rparr>, None, r')"
    by (rule read_next_record_end [OF l])
  then show ?case
    by (subst stored_records.simps) (simp add: read_storage_record_def replay_status_def)
next
  case (Cons x xs)
  note codec = assms(2) [of "snd (pads n)"]
  have l: "reads_log content s e q ((fst (pads n), t, encode (snd (pads n)) x) # log_entries encode t pads (Suc n) xs) r"
    using Cons.prems by simp
  obtain r' where r': "read_storage_record decode len t content r =
      (record_read \<lparr>pos_stream_id = s, pos_epoch = e, pos_sequence = q\<rparr>, Some (decode (encode (snd (pads n)) x)), r')"
    "reads_log content s e (q + 1) (log_entries encode t pads (Suc n) xs) r'"
    by (rule read_storage_record_log [OF l codec.length_encode [OF codec]])
  then show ?case
    using Cons.IH [OF r'(2)] codec.decode_encode [OF codec]
    by (subst stored_records.simps) simp
qed

end
