(* ===== verification/StoredLogs.thy ===== *)
theory StoredLogs
  imports CliFacts
begin

text \<open>
  What a program may conclude from the results of its appends and commits, on any device: records
  whose appends succeeded are accepted, and behind a successful commit the file holds exactly the
  log of the accepted records, whatever the device does when the writer is closed.
\<close>

lemma append_all_appended:
  assumes "append_all encode t pads n xs (ses_writer x) = (True, w)"
  shows "w = ses_writer (run_session (map append_op (log_entries encode t pads n xs)) x) \<and>
    ses_accepted (run_session (map append_op (log_entries encode t pads n xs)) x)
      = ses_accepted x @ log_entries encode t pads n xs \<and>
    ses_files (run_session (map append_op (log_entries encode t pads n xs)) x) = ses_files x"
  using assms
proof (induction xs arbitrary: n x)
  case Nil
  then show ?case by (simp add: run_session_def)
next
  case (Cons a as)
  obtain result w' where s: "segment_append (fst (pads n)) t (encode (snd (pads n)) a) (ses_writer x) = (result, w')"
    by (cases "segment_append (fst (pads n)) t (encode (snd (pads n)) a) (ses_writer x)")
  let ?y = "session_step (Append (fst (pads n)) t (encode (snd (pads n)) a)) x"
  have "append_status result = Appended" "append_all encode t pads (Suc n) as (ses_writer ?y) = (True, w)"
    using Cons.prems by (auto simp: append_storage_record_def append_record_def s split: if_splits)
  then show ?case using Cons.IH [of "Suc n" ?y] s by (simp add: run_session_def)
qed

lemma committed_error_free:
  assumes "segment_commit fs w = (result, w', fs')" "commit_status result = Committed"
  shows "w_writer_error w = NoError \<and> w_writer_error w' = NoError \<and> \<not> o_fail (w_file w')"
  using assms by (auto simp: segment_commit_def publish_positions_eq Let_def split: if_splits prod.splits)

text \<open>A working writer that has committed everything it accepted has written exactly the log.\<close>

lemma settled_log:
  assumes ok: "session_ok good base p s e first x" and "ses_accepted x \<noteq> []"
    and "ses_committed x = ses_accepted x"
    and healthy: "w_writer_error (ses_writer x) = NoError" "\<not> o_fail (w_file (ses_writer x))"
  shows "file_bytes (ses_files x) p = Some (segment_bytes s e first (ses_accepted x))"
    "file_bytes (close_segment_writer (ses_files x) (ses_writer x)) p =
      Some (segment_bytes s e first (ses_accepted x))"
proof -
  have path: "w_file_path (ses_writer x) = p"
    using ok unfolding session_ok_def counters_ok_def Let_def by blast
  obtain disk where d: "file_bytes (ses_files x) p = Some disk"
    "prefix (segment_bytes s e first (ses_accepted x)) disk"
    "disk @ o_buffer (w_file (ses_writer x)) = segment_bytes s e first (ses_accepted x)"
    using ok assms(2,3) healthy unfolding session_ok_def on_disk_def by metis
  then have flat: "disk = segment_bytes s e first (ses_accepted x)" "o_buffer (w_file (ses_writer x)) = []"
    by (metis append_eq_append_conv_if append_self_conv prefix_def append.assoc append_is_Nil_conv)+
  obtain disk' where "file_bytes (close_segment_writer (ses_files x) (ses_writer x)) p = Some disk'"
    "prefix disk disk'" "prefix disk' (disk @ o_buffer (w_file (ses_writer x)))"
    using close_writer_bytes [OF d(1) path] by blast
  then have "file_bytes (close_segment_writer (ses_files x) (ses_writer x)) p = Some disk"
    using flat(2) by (auto dest: prefix_order.antisym)
  then show "file_bytes (ses_files x) p = Some (segment_bytes s e first (ses_accepted x))"
    "file_bytes (close_segment_writer (ses_files x) (ses_writer x)) p =
      Some (segment_bytes s e first (ses_accepted x))"
    using d(1) flat(1) by simp_all
qed

text \<open>\<open>x\<close> is the session before the commit.\<close>

lemma commit_leaves_log:
  assumes ok: "session_ok good base p s e first x" and "ses_accepted x \<noteq> []"
    and commit: "segment_commit (ses_files x) (ses_writer x) = (result, w, fs)"
      "commit_status result = Committed"
  shows "file_bytes fs p = Some (segment_bytes s e first (ses_accepted x))"
    "file_bytes (close_segment_writer fs w) p = Some (segment_bytes s e first (ses_accepted x))"
proof -
  let ?y = "session_step Commit x"
  have y: "ses_files ?y = fs" "ses_writer ?y = w" "ses_accepted ?y = ses_accepted x"
    "ses_committed ?y = ses_accepted x"
    using commit by simp_all
  from settled_log [OF session_ok_commit [OF ok], unfolded y, OF assms(2) refl]
  show "file_bytes fs p = Some (segment_bytes s e first (ses_accepted x))"
    "file_bytes (close_segment_writer fs w) p = Some (segment_bytes s e first (ses_accepted x))"
    using committed_error_free [OF commit] by simp_all
qed

lemma committed_up_to_last:
  assumes ok: "session_ok good base p s e first x"
    and commit: "segment_commit (ses_files x) (ses_writer x) = (result, w, fs)"
      "commit_status result = Committed"
  shows "committed_up_to result = log_position s e first (ses_accepted x)"
proof -
  let ?y = "session_step Commit x"
  have y: "ses_writer ?y = w" "ses_committed ?y = ses_accepted x" using commit by simp_all
  have "w_last_committed_position w = log_position s e first (ses_accepted x)"
    using session_ok_commit [OF ok] unfolding session_ok_def counters_ok_def Let_def y by simp
  moreover have "committed_up_to result = w_last_committed_position w"
    using commit by (auto simp: segment_commit_def Let_def split: if_splits prod.splits)
  ultimately show ?thesis by simp
qed

text \<open>A writer whose constructor failed accepts nothing.\<close>

lemma appended_error_free:
  assumes "append_status (fst (segment_append pb t payload w)) = Appended"
  shows "w_writer_error w = NoError"
  using assms by (auto simp: segment_append_def split: if_splits)

lemma append_all_error_free:
  assumes "append_all encode t pads n xs w = (True, w')" "xs \<noteq> []"
  shows "w_writer_error w = NoError"
  using assms appended_error_free [of "fst (pads n)" t "encode (snd (pads n)) (hd xs)" w]
  by (cases xs) (auto simp: append_storage_record_def append_record_def split: prod.splits if_splits)

section \<open>Writing a new log\<close>

lemma remove_path_removes: "remove_path fs p = Some fs' \<Longrightarrow> fs' p = None"
  by (auto simp: remove_path_def split: if_splits)

lemma file_kept:
  assumes "file_bytes fs p = Some bs" "\<And>node. fs p = Some node \<Longrightarrow> fs' p = Some node"
  shows "file_bytes fs' p = Some bs"
  using assms by (cases "fs p") (auto simp: file_bytes_def)

text \<open>Other files stay.\<close>

lemma ensure_parent_keeps:
  assumes "ensure_parent_directory_exists fs p = Some fs'" "fs q = Some node"
  shows "fs' q = Some node"
  using assms create_directories_from_keeps [of fs "[]" "butlast p" fs' q node]
  by (auto simp: ensure_parent_directory_exists_def create_directories_def Let_def split: if_splits)

lemma new_segment_writer_keeps:
  assumes "new_segment_writer fs outcomes p s e first = Some (w, fs')" "fs p = None" "fs q = Some node"
  shows "fs' q = Some node"
proof -
  obtain fs0 where dirs: "ensure_parent_directory_exists fs p = Some fs0"
    using assms(1) by (auto simp: new_segment_writer_def Let_def split: option.splits)
  have none: "fs0 p = None" using ensure_parent_other [OF dirs] assms(2) by simp
  obtain out fs1 where opn: "ofstream_open fs0 p (closed_ofstream outcomes) = (out, fs1)"
    by (cases "ofstream_open fs0 p (closed_ofstream outcomes)")
  have "fs' = fs1"
    using assms(1) unfolding new_segment_writer_def Let_def dirs
    by (simp add: none is_directory_def wal_file_exists_def opn cong: if_cong split: prod.splits)
  moreover have "fs0 q = Some node" by (rule ensure_parent_keeps [OF dirs assms(3)])
  ultimately show ?thesis
    using opn none unfolding ofstream_open_def closed_ofstream_def
    by (auto split: prod.splits device_outcome.splits option.splits fs_node.splits)
qed

text \<open>
  A new writer on any device, with which all appends and the commit succeeded: the file is the log,
  and the writer still is the one of this file.
\<close>

lemma committed_log:
  assumes new: "new_segment_writer fs outcomes p s e first = Some (w, fs1)" "fs p = None"
    and app: "append_all encode t pads 0 xs w = (True, w1)" and ne: "xs \<noteq> []"
    and fits: "list_all record_fits (log_entries encode t pads 0 xs)"
    and commit: "segment_commit fs1 w1 = (result, w2, fs2)" "commit_status result = Committed"
  shows "file_bytes fs2 p = Some (segment_bytes s e first (log_entries encode t pads 0 xs))"
    "file_bytes (close_segment_writer fs2 w2) p =
      Some (segment_bytes s e first (log_entries encode t pads 0 xs))"
    "committed_up_to result = log_position s e first (log_entries encode t pads 0 xs)"
    "w_file_path w1 = p" "w_file_path w2 = p"
proof -
  let ?rs = "log_entries encode t pads 0 xs"
  let ?y = "run_session (map append_op ?rs) (start_session [] fs1 w)"
  have "session_ok record_fits 0 p s e first (start_session [] fs1 w)"
    by (rule new_writer_session [OF new append_all_error_free [OF app ne]])
  then have y: "session_ok record_fits 0 p s e first ?y"
    using session_ok_run list_all_append_op [OF fits] by blast
  have ya: "w1 = ses_writer ?y" "ses_accepted ?y = ?rs" "ses_files ?y = fs1"
    using append_all_appended [of encode t pads 0 xs "start_session [] fs1 w" w1] app
    by (simp_all add: start_session_def)
  then have c: "segment_commit (ses_files ?y) (ses_writer ?y) = (result, w2, fs2)" using commit(1) by simp
  have "ses_accepted ?y \<noteq> []" using ya(2) ne by simp
  from commit_leaves_log [OF y this c commit(2)] committed_up_to_last [OF y c commit(2)]
  show "file_bytes fs2 p = Some (segment_bytes s e first ?rs)"
    "file_bytes (close_segment_writer fs2 w2) p = Some (segment_bytes s e first ?rs)"
    "committed_up_to result = log_position s e first ?rs"
    by (simp_all add: ya(2))
  show "w_file_path w1 = p" using y ya(1) by (simp add: session_ok_def counters_ok_def Let_def)
  have "session_ok record_fits 0 p s e first (session_step Commit ?y)" by (rule session_ok_commit [OF y])
  then show "w_file_path w2 = p" using c by (simp add: session_ok_def counters_ok_def Let_def)
qed

text \<open>The two writing functions of the program, on any device.\<close>

lemma write_log_stored:
  assumes run: "write_log encode t stream sequence_of fs outcomes pads p xs = Some (True, fs')" and ne: "xs \<noteq> []"
    and len: "\<And>pad x. length (encode pad x) = len" "len < 2 ^ 32 - 64"
  shows "file_bytes fs' p = Some (segment_bytes stream wal_epoch (sequence_of (hd xs)) (log_entries encode t pads 0 xs))"
    "q \<noteq> p \<Longrightarrow> fs q = Some node \<Longrightarrow> fs' q = Some node"
proof -
  obtain fs1 fs2 w fs3 where dirs: "create_directories fs (butlast p) = Some fs1"
    and rm: "remove_path fs1 p = Some fs2"
    and new: "new_segment_writer fs2 outcomes p stream wal_epoch (sequence_of (hd xs)) = Some (w, fs3)"
    using run ne by (auto simp: write_log_def split: option.splits)
  note run1 = run [unfolded write_log_def dirs rm option.case if_not_P [OF ne] new prod.case]
  obtain w1 where app: "append_all encode t pads 0 xs w = (True, w1)"
    using run1 by (cases "append_all encode t pads 0 xs w") (auto split: if_splits)
  obtain result w2 fs4 where c: "segment_commit fs3 w1 = (result, w2, fs4)" by (metis prod_cases3)
  have committed: "commit_status result = Committed" and fs': "fs' = close_segment_writer fs4 w2"
    using run1 ne by (auto simp: app wal_commit_def c)
  note log = committed_log [OF new remove_path_removes [OF rm] app ne log_entries_fit [OF len] c committed]
  show "file_bytes fs' p = Some (segment_bytes stream wal_epoch (sequence_of (hd xs)) (log_entries encode t pads 0 xs))"
    unfolding fs' by (rule log(2))
  assume q: "q \<noteq> p" "fs q = Some node"
  have "fs1 q = Some node"
    using create_directories_from_keeps [of fs "[]"] dirs q(2) by (simp add: create_directories_def)
  then have "fs2 q = Some node" using rm q(1) by (auto simp: remove_path_def split: if_splits)
  then have "fs3 q = Some node" by (rule new_segment_writer_keeps [OF new remove_path_removes [OF rm]])
  then have "fs4 q = Some node" using commit_other [of q w1 fs3] q(1) log(4) c by simp
  then show "fs' q = Some node" unfolding fs' using close_writer_other [of q w2 fs4] q(1) log(5) by simp
qed

section \<open>Reading a stored log\<close>

text \<open>A written log is read back.\<close>

lemma stored_log:
  assumes "file_bytes fs p = Some (segment_bytes s e first (log_entries encode t pads 0 xs))"
    and "s \<noteq> 0" "e \<noteq> 0" "first \<noteq> 0" "unat first + length xs \<le> 2 ^ 64"
    and "\<And>pad. codec (encode pad) decode len" "len < 2 ^ 32 - 64"
  shows "stored_records decode len t (file_content fs p) (open_reader fs p) = (xs, EndOfLog)"
proof -
  let ?rs = "log_entries encode t pads 0 xs"
  have fits: "list_all record_fits ?rs"
    by (rule log_entries_fit [OF codec.length_encode [OF assms(6)] assms(7)])
  have "unat first + length ?rs \<le> 2 ^ 64" using assms(5) by simp
  from new_reader_reads_log [OF assms(2-4) fits this]
  have "reads_log (file_content fs p) s e first ?rs (open_reader fs p)"
    by (simp add: file_content_def open_reader_def assms(1))
  from stored_records_log [OF this assms(6)] show ?thesis .
qed

text \<open>A log whose header names 0 as its first sequence number is written, but no reader accepts it.\<close>

lemma refused_log:
  assumes "file_bytes fs p = Some (segment_bytes s e 0 rs)"
  shows "stored_records decode len t (file_content fs p) (open_reader fs p) = ([], ReadFailed)"
proof -
  let ?h = "make_segment_header s e 0" and ?c = "segment_bytes s e 0 rs"
  have leh: "length (encode_segment_header ?h) = sizeof_segment_header"
    by (simp add: segment_header_codec.length_encode)
  have good: "stream_good (ifstream_open (Some ?c))" by (simp add: stream_good_def ifstream_open_def)
  have content: "drop (i_pos (ifstream_open (Some ?c))) ?c = encode_segment_header ?h @ log_bytes s e 0 rs"
    by (simp add: ifstream_open_def segment_bytes_def)
  have "\<not> segment_header_valid ?h"
    by (simp add: segment_header_valid_def make_segment_header_def Let_def)
  then have "read_status (rd_open_result (open_reader fs p)) = WalReadFailed"
    by (simp add: open_reader_def assms new_segment_reader_def read_segment_header_def
        stream_read_exact [OF good content leh] stream_ok_def segment_header_codec.decode_encode
        read_failed_def Let_def)
  then show ?thesis
    by (subst stored_records.simps)
      (simp add: read_storage_record_def read_next_record_def segment_read_next_def replay_status_def)
qed

end
