(* ===== verification/CliProperties.thy ===== *)
theory CliProperties
  imports StoredLogs
begin

text \<open>
  The properties of the command line program: replay decides on any two files, a run stores logs
  that replay accepts, and the dumps show what the engine did.
\<close>

section \<open>Replay\<close>

text \<open>The verdict of the runner on the two files.\<close>

lemma replay_wals_verdict:
  assumes "stored_commands (file_content fs command_wal) (open_reader fs command_wal) = (commands, ce)"
    and "stored_events (file_content fs event_wal) (open_reader fs event_wal) = (events, ee)"
  obtains res where "replay (command_replay_read (file_content fs command_wal))
      (event_replay_read (file_content fs event_wal)) (open_reader fs command_wal) (open_reader fs event_wal)
      (new_instrument_engine first_sequence_number) = Some res"
    "res_ok res \<longleftrightarrow> ce = EndOfLog \<and> ee = EndOfLog \<and>
      map c_command_sequence commands
        = consecutive (hd (map c_command_sequence commands)) (length commands) \<and>
      events = run_engine commands"
    "res_ok res \<Longrightarrow> res_commands_replayed res = of_nat (length commands) \<and>
      res_events_compared res = of_nat (length events)"
proof -
  obtain res where "replay (command_replay_read (file_content fs command_wal))
      (event_replay_read (file_content fs event_wal)) (open_reader fs command_wal) (open_reader fs event_wal)
      (new_instrument_engine first_sequence_number) = Some res"
    and v: "verdict None (new_instrument_engine first_sequence_number) commands ce events ee 0 0 res"
    using wal_logs.replay_returns [OF assms engine_inv_new] by blast
  then show ?thesis
    by (intro that) (auto simp: verdict_def follows_None run_engine_def Let_def)
qed

text \<open>
  C16: Replay decides on every pair of files: it returns, whatever bytes the files hold, or if they do
  not exist, and its exit code is 0 exactly when both files are read to the end of the log, the
  command sequence numbers are consecutive, and the stored events are the events the engine
  generates for the stored commands; otherwise the exit code is 2.
\<close>

theorem replay_wals_decides:
  "\<exists>out. replay_wals fs command_wal event_wal =
     (let (commands, ce) = stored_commands (file_content fs command_wal) (open_reader fs command_wal);
          (events, ee) = stored_events (file_content fs event_wal) (open_reader fs event_wal)
      in Some (if ce = EndOfLog \<and> ee = EndOfLog \<and>
                  map c_command_sequence commands
                    = consecutive (hd (map c_command_sequence commands)) (length commands) \<and>
                  events = run_engine commands
               then 0 else 2, out))"
proof -
  obtain commands ce where c: "stored_commands (file_content fs command_wal) (open_reader fs command_wal) = (commands, ce)"
    by (cases "stored_commands (file_content fs command_wal) (open_reader fs command_wal)")
  obtain events ee where e: "stored_events (file_content fs event_wal) (open_reader fs event_wal) = (events, ee)"
    by (cases "stored_events (file_content fs event_wal) (open_reader fs event_wal)")
  obtain res where res: "replay (command_replay_read (file_content fs command_wal))
      (event_replay_read (file_content fs event_wal)) (open_reader fs command_wal) (open_reader fs event_wal)
      (new_instrument_engine first_sequence_number) = Some res"
    "res_ok res \<longleftrightarrow> ce = EndOfLog \<and> ee = EndOfLog \<and>
      map c_command_sequence commands
        = consecutive (hd (map c_command_sequence commands)) (length commands) \<and>
      events = run_engine commands"
    by (rule replay_wals_verdict [OF c e])
  then show ?thesis
    by (simp add: replay_wals_def res(1) c e Let_def)
qed

section \<open>Dumps\<close>

lemma dump_events_loop_stored:
  "dump_events_loop content r out =
     (case stored_events content r of (events, status) \<Rightarrow>
        (if status = EndOfLog then 0 else 1, out @ concat (map print_event events),
         if status = EndOfLog then [] else ''matching_engine: failed to read event WAL'' @ endl))"
proof (induction content r out rule: dump_events_loop.induct)
  case (1 content r out)
  obtain result found r' where s: "read_storage_record decode_event sizeof_event
      execution_event_record_type content r = (result, found, r')"
    by (metis prod_cases3)
  show ?case
  proof (cases "read_status result = WalRecordRead")
    case True
    then obtain x where x: "found = Some x" using read_storage_record_Some [OF s] by blast
    have "dump_events_loop content r out = dump_events_loop content r' (out @ print_event x)"
      using True x s by (subst dump_events_loop.simps) simp
    moreover have "stored_events content r =
        (x # fst (stored_events content r'), snd (stored_events content r'))"
      using stored_records_cases [OF s] True x by (simp add: stored_events_def)
    ultimately show ?thesis
      using 1 [OF s [symmetric] refl] True x by (auto simp: split_beta)
  next
    case False
    have "stored_events content r = ([], replay_status (read_status result))"
      using stored_records_cases [OF s] False by (auto simp: stored_events_def split: option.splits)
    then show ?thesis
      using False s by (subst dump_events_loop.simps) (cases "read_status result"; simp)
  qed
qed

text \<open>
  The event dump prints, for any file, one line for every event that can be read, in order, and
  nothing else; its exit code is 0 exactly when the log was read to its end.
\<close>

lemma dump_events_prints_stored_events:
  "let (events, status) = stored_events (file_content fs (path_of arg)) (open_reader fs (path_of arg)) in
   dump_events_command path_of fs [arg] =
     Some (if status = EndOfLog then 0 else 1, concat (map print_event events),
           if status = EndOfLog then [] else ''matching_engine: failed to read event WAL'' @ endl, fs)"
  by (simp add: dump_events_command_def dump_events_loop_stored split: prod.splits)

lemma projection_loop_stored:
  assumes "stored_events content r = (events, EndOfLog)"
    and "project_events it p events = (results, p')"
    and "list_all (\<lambda>r. apply_status r \<noteq> Rejected) results"
  shows "projection_loop it content r p = (True, p', [])"
  using assms
proof (induction events arbitrary: r p results)
  case Nil
  obtain result found r' where s: "read_storage_record decode_event sizeof_event
      execution_event_record_type content r = (result, found, r')"
    by (metis prod_cases3)
  have "read_status result = WalReadEnd"
    using stored_records_cases [OF s] read_storage_record_Some [OF s] Nil.prems(1)
    by (auto simp: stored_events_def split: option.splits if_splits)
  then show ?case using Nil.prems(2) s by (subst projection_loop.simps) simp
next
  case (Cons x xs)
  obtain result found r' where s: "read_storage_record decode_event sizeof_event
      execution_event_record_type content r = (result, found, r')"
    by (metis prod_cases3)
  have x: "found = Some x" "read_status result = WalRecordRead" "stored_events content r' = (xs, EndOfLog)"
    using stored_records_cases [OF s] Cons.prems(1)
    by (auto simp: stored_events_def prod_eq_iff split: option.splits if_splits)
  obtain res p1 where a: "projection_apply it p x = (res, p1)" by (cases "projection_apply it p x")
  obtain rs p2 where b: "project_events it p1 xs = (rs, p2)" by (cases "project_events it p1 xs")
  have "results = res # rs" "p2 = p'" using Cons.prems(2) a b by auto
  then have "projection_loop it content r' p1 = (True, p', [])" "apply_status res \<noteq> Rejected"
    using Cons.IH [OF x(3)] b Cons.prems(3) by simp_all
  then show ?case using s x(1,2) a by (subst projection_loop.simps) simp
qed

text \<open>
  What the dumps are to print, from the events and the book alone: a line for a trade event, and a
  line for every level of a side the public sees.
\<close>

definition trade_line :: "ExecutionEventRecordV1 \<Rightarrow> string" where
  "trade_line e =
     ''trade='' @ show_word (e_trade_id e) @ '' instrument='' @ show_word (e_instrument_id e)
     @ '' incoming='' @ show_word (e_order_id e) @ '' resting='' @ show_word (e_contra_order_id e)
     @ '' side='' @ (if e_side e = side_code Buy then ''BUY''
                     else if e_side e = side_code Sell then ''SELL'' else ''NA'')
     @ '' price='' @ show_int (to_int (e_price_ticks e))
     @ '' qty='' @ show_int (to_int (e_quantity_lots e)) @ endl"

definition level_lines :: "price_levels \<Rightarrow> string" where
  "level_lines ls =
     (if level_view ls = [] then ''  empty'' @ endl
      else concat (map (\<lambda>(price, n). ''  '' @ show_int (to_int price) @ '': '' @ show_int n @ endl) (level_view ls)))"

definition book_text :: "OrderBook \<Rightarrow> nat \<Rightarrow> string" where
  "book_text b n =
     ''Book instrument='' @ show_word (if book_orders b = [] then 0 else the (b_instrument_id b) :: u32)
     @ '' last_event_sequence='' @ show_word (of_nat n :: u64) @ endl
     @ ''Bids:'' @ endl @ level_lines (b_bids b) @ ''Asks:'' @ endl @ level_lines (b_asks b)"

lemma print_trade_line: "print_trade (public_trade e) = trade_line e"
  by (simp add: print_trade_def public_trade_def trade_line_def side_name_def show_i64_def)

lemma print_levels_lines:
  "map (\<lambda>(price, quantity). (price, to_int quantity)) levels = level_view ls \<Longrightarrow> print_levels levels = level_lines ls"
  unfolding level_lines_def print_levels_def
  by (drule sym) (simp add: show_i64_def comp_def case_prod_unfold)

text \<open>The projection the dump commands build from the stored events of a run.\<close>

lemma projected_run:
  assumes "stored_events (file_content fs p) (open_reader fs p) = (run_engine commands, EndOfLog)"
    and "\<forall>c \<in> set commands. nonzero_id c" "\<And>orders. mset (it orders) = mset orders"
    and "b = engine_order_book (snd (run_commands engine_apply (new_instrument_engine 1) commands))"
  obtains proj where "apply_projection_from_event_wal it fs p new_market_data_projection = (True, proj, [])"
    "p_trades proj = map public_trade (trades_of (run_engine commands))"
    "p_last_applied_event_sequence proj = of_nat (length (run_engine commands))"
    "map (\<lambda>(price, quantity). (price, to_int quantity)) (v_bids (p_book proj)) = level_view (b_bids b)"
    "map (\<lambda>(price, quantity). (price, to_int quantity)) (v_asks (p_book proj)) = level_view (b_asks b)"
    "v_instrument_id (p_book proj) = (if book_orders b = [] then 0 else the (b_instrument_id b))"
proof -
  obtain events g where run: "run_commands engine_apply (new_instrument_engine 1) commands = (events, g)"
    by (cases "run_commands engine_apply (new_instrument_engine 1) commands")
  then have ev: "run_engine commands = events" by (simp add: run_engine_def first_sequence_number_def)
  obtain results proj where proj: "project_events it new_market_data_projection events = (results, proj)"
    by (cases "project_events it new_market_data_projection events")
  note r = projection_of_run [OF assms(2,3) run proj]
  note v = public_view_of_book [OF r(2,4) assms(3)]
  have "engine_next_sequence g = 1 + of_nat (length events)"
    using engine.next_run [OF engine_inv_new, of 1 commands] run by simp
  then have "p_last_applied_event_sequence proj = of_nat (length events)"
    using r(2) by (simp add: stands_at_def)
  moreover have "apply_projection_from_event_wal it fs p new_market_data_projection = (True, proj, [])"
    unfolding apply_projection_from_event_wal_def
    by (rule projection_loop_stored [OF assms(1) [unfolded ev] proj r(1)])
  ultimately show ?thesis
    using that [of proj] v r(3) run by (simp add: assms(4) ev visible_levels_view)
qed

text \<open>
  C20: The book dump shows the engine's book and the trade dump the engine's trades: if the event file
  holds the events of a run of the engine, on commands that introduce no order id 0, both commands
  succeed, whatever the iteration order of the projection's hash map. The first prints the
  instrument, the number of events, and of each side, best price first, every level with the total
  that rests there (a total of 2^63 or more is reduced to 64 bits, and left out if that is not
  positive); the second a line for every trade, in order.
\<close>

theorem dumps_show_engine_state:
  assumes "stored_events (file_content fs (path_of arg)) (open_reader fs (path_of arg)) =
      (run_engine commands, EndOfLog)"
    and "\<forall>c \<in> set commands. nonzero_id c" "\<And>orders. mset (it orders) = mset orders"
    and "b = engine_order_book (snd (run_commands engine_apply (new_instrument_engine 1) commands))"
  shows "dump_book_command it path_of fs [arg] = Some (0, book_text b (length (run_engine commands)), [], fs) \<and>
    dump_trades_command it path_of fs [arg] =
      Some (0, concat (map trade_line (trades_of (run_engine commands))), [], fs)"
  by (rule projected_run [OF assms])
    (simp add: dump_book_command_def dump_trades_command_def book_text_def print_levels_lines
      print_trade_line comp_def)

section \<open>Runs\<close>

text \<open>The directories above a path are there, and the path is no directory.\<close>

definition path_ready :: "file_system \<Rightarrow> path \<Rightarrow> bool" where
  "path_ready fs p \<longleftrightarrow> create_directories fs (butlast p) = Some fs \<and> fs p \<noteq> Some Directory"

lemma ready_remove: "path_ready fs p \<Longrightarrow> remove_path fs p = Some (fs(p := None))"
  by (simp add: path_ready_def remove_path_def)

lemma directories_stay:
  assumes "create_directories_from fs pre cs = Some fs" "\<And>q. q \<noteq> p \<Longrightarrow> fs' q = fs q" "fs p \<noteq> Some Directory"
  shows "create_directories_from fs' pre cs = Some fs'"
  using assms(1)
proof (induction cs arbitrary: pre)
  case (Cons c cs)
  obtain fs0 where f: "create_directories_from fs0 (pre @ [c]) cs = Some fs"
    and s: "fs0 = fs \<and> fs (pre @ [c]) = Some Directory \<or>
     fs0 = fs(pre @ [c] \<mapsto> Directory) \<and> fs (pre @ [c]) = None"
    by (rule create_directories_from_step [OF Cons.prems])
  have "fs0 (pre @ [c]) = Some Directory" using s by auto
  then have d: "fs (pre @ [c]) = Some Directory" by (rule create_directories_from_keeps [OF f])
  then have "fs0 = fs" "pre @ [c] \<noteq> p" using s assms(3) by auto
  then have "create_directories_from fs' (pre @ [c]) cs = Some fs'" "fs' (pre @ [c]) = Some Directory"
    using Cons.IH [of "pre @ [c]"] f d assms(2) [of "pre @ [c]"] by simp_all
  then show ?case by simp
qed simp

lemma ready_stays:
  assumes "path_ready fs p" "path_ready fs q" "p \<noteq> q" "\<And>q. q \<noteq> p \<Longrightarrow> fs' q = fs q"
  shows "path_ready fs' q"
  using assms directories_stay [of fs "[]" "butlast q" p fs']
  by (simp add: path_ready_def create_directories_def)

lemma run_engine_first: "run_engine commands \<noteq> [] \<Longrightarrow> e_event_sequence (hd (run_engine commands)) = 1"
proof -
  assume ne: "run_engine commands \<noteq> []"
  have "map e_event_sequence (run_engine commands) = consecutive 1 (length (run_engine commands))"
    using engine.sequences_run [OF engine_inv_new, of 1 commands]
    by (simp add: run_engine_def first_sequence_number_def)
  then show ?thesis using ne by (cases "run_engine commands") auto
qed

text \<open>What the two writes of a run leave.\<close>

lemma run_writes:
  assumes ready: "path_ready fs cp" "path_ready fs ep" "cp \<noteq> ep"
    and seq: "commands \<noteq> [] \<Longrightarrow> c_command_sequence (hd commands) \<noteq> 0 \<and>
      unat (c_command_sequence (hd commands)) + length commands \<le> 2 ^ 64"
    and few: "length (run_engine commands) < 2 ^ 64"
  obtains fs1 fs2 where "write_commands fs [] cpads cp commands = Some (True, fs1)"
    "write_events fs1 [] epads ep (run_engine commands) = Some (True, fs2)"
    "stored_commands (file_content fs2 cp) (open_reader fs2 cp) = (commands, EndOfLog)"
    "stored_events (file_content fs2 ep) (open_reader fs2 ep) = (run_engine commands, EndOfLog)"
    "\<And>q. q \<noteq> cp \<Longrightarrow> q \<noteq> ep \<Longrightarrow> fs2 q = fs q"
proof -
  let ?events = "run_engine commands"
  let ?cf = "if commands = [] then first_sequence_number else c_command_sequence (hd commands)"
  let ?ef = "if ?events = [] then first_sequence_number else e_event_sequence (hd ?events)"
  have dirs: "create_directories fs (butlast cp) = Some fs" using ready(1) by (simp add: path_ready_def)
  obtain fs1 where w1: "write_commands fs [] cpads cp commands = Some (True, fs1)"
    and f1: "file_bytes fs1 cp = Some (segment_bytes command_stream_id wal_epoch ?cf
      (log_entries encode_command order_command_record_type cpads 0 commands))"
    and o1: "\<And>q. q \<noteq> cp \<Longrightarrow> fs1 q = fs q"
    unfolding write_commands_def
    by (rule write_log_writes [where sequence_of = c_command_sequence and encode = encode_command and xs = commands
        and t = order_command_record_type and stream = command_stream_id and pads = cpads,
        OF dirs ready_remove [OF ready(1)] command_codec.length_encode _ refl])
      (simp_all add: sizeof_command_def)
  have ready1: "path_ready fs1 ep" by (rule ready_stays [OF ready o1])
  then have dirs1: "create_directories fs1 (butlast ep) = Some fs1" by (simp add: path_ready_def)
  obtain fs2 where w2: "write_events fs1 [] epads ep ?events = Some (True, fs2)"
    and f2: "file_bytes fs2 ep = Some (segment_bytes event_stream_id wal_epoch ?ef
      (log_entries encode_event execution_event_record_type epads 0 ?events))"
    and o2: "\<And>q. q \<noteq> ep \<Longrightarrow> fs2 q = fs1 q"
    unfolding write_events_def
    by (rule write_log_writes [where sequence_of = e_event_sequence and encode = encode_event and xs = ?events
        and t = execution_event_record_type and stream = event_stream_id and pads = epads,
        OF dirs1 ready_remove [OF ready1] event_codec.length_encode _ refl])
      (simp_all add: sizeof_event_def)
  have "file_bytes fs2 cp = file_bytes fs1 cp" using o2 [OF ready(3)] by (simp add: file_bytes_def)
  then have f1': "file_bytes fs2 cp = Some (segment_bytes command_stream_id wal_epoch ?cf
      (log_entries encode_command order_command_record_type cpads 0 commands))"
    using f1 by simp
  have ids: "command_stream_id \<noteq> 0" "event_stream_id \<noteq> 0" "wal_epoch \<noteq> 0"
    by (simp_all add: command_stream_id_def event_stream_id_def wal_epoch_def)
  have cf: "?cf \<noteq> 0" "unat ?cf + length commands \<le> 2 ^ 64"
    using seq by (auto simp: first_sequence_number_def)
  have ef: "?ef = 1" using run_engine_first by (simp add: first_sequence_number_def)
  have c: "stored_commands (file_content fs2 cp) (open_reader fs2 cp) = (commands, EndOfLog)"
    unfolding stored_commands_def
    by (rule stored_log [OF f1' ids(1,3) cf command_codec.codec_axioms]) (simp add: sizeof_command_def)
  have e: "stored_events (file_content fs2 ep) (open_reader fs2 ep) = (?events, EndOfLog)"
    unfolding stored_events_def
    by (rule stored_log [OF f2 ids(2,3) _ _ event_codec.codec_axioms])
      (use few in \<open>simp_all add: ef sizeof_event_def\<close>)
  show ?thesis using that [OF w1 w2 c e] o1 o2 by simp
qed

text \<open>The output of a replay that succeeds.\<close>

definition replay_ok_text :: "nat \<Rightarrow> nat \<Rightarrow> string" where
  "replay_ok_text commands events =
     ''Replay OK: commands='' @ show_word (of_nat commands :: u64)
     @ '' events='' @ show_word (of_nat events :: u64) @ endl"

lemma replay_wals_ok:
  assumes "stored_commands (file_content fs cp) (open_reader fs cp) = (commands, EndOfLog)"
    and "stored_events (file_content fs ep) (open_reader fs ep) = (run_engine commands, EndOfLog)"
    and "map c_command_sequence commands
      = consecutive (hd (map c_command_sequence commands)) (length commands)"
  shows "replay_wals fs cp ep = Some (0, replay_ok_text (length commands) (length (run_engine commands)))"
proof -
  obtain res where r: "replay (command_replay_read (file_content fs cp))
      (event_replay_read (file_content fs ep)) (open_reader fs cp) (open_reader fs ep)
      (new_instrument_engine first_sequence_number) = Some res"
    and "res_ok res" "res_commands_replayed res = of_nat (length commands)"
      "res_events_compared res = of_nat (length (run_engine commands))"
    using replay_wals_verdict [OF assms(1,2)] assms(3) by blast
  then show ?thesis by (simp add: replay_wals_def replay_ok_text_def)
qed

lemma run_of_written_logs:
  assumes "load_ok (load_scenario scenario (file_text fs (path_of scenario)))"
    and "commands = load_commands (load_scenario scenario (file_text fs (path_of scenario)))"
    and "write_commands fs couts cpads (path_of command_arg) commands = Some (True, fs1)"
    and "write_events fs1 eouts epads (path_of event_arg) (run_engine commands) = Some (True, fs2)"
    and "replay_wals fs2 (path_of command_arg) (path_of event_arg) = Some (code, text)"
  shows "run_command path_of fs couts eouts cpads epads [scenario, command_arg, event_arg] =
    Some (code, run_report commands (run_engine commands) command_arg event_arg @ text, [], fs2)"
  unfolding run_command_def Let_def list.case assms(2) [symmetric]
  by (simp only: assms(1,3-5) option.case prod.case simp_thms if_False)

text \<open>
  C2: End to end: \<open>run\<close> on a scenario that loads and whose command sequence numbers are consecutive
  from a positive one, on a device that accepts every write, writes both logs, replays them and
  ends with exit code 0 and the confirmation of the replay; the command log then holds exactly the
  commands of the scenario and the event log exactly the events of the engine, no other file has
  changed, and \<open>replay\<close> on the two files succeeds again.
\<close>

theorem run_stores_replayable_logs:
  assumes "load_ok (load_scenario scenario (file_text fs (path_of scenario)))"
    and "commands = load_commands (load_scenario scenario (file_text fs (path_of scenario)))"
    and "map c_command_sequence commands
      = consecutive (hd (map c_command_sequence commands)) (length commands)"
    and "commands \<noteq> [] \<Longrightarrow> c_command_sequence (hd commands) \<noteq> 0 \<and>
      unat (c_command_sequence (hd commands)) + length commands \<le> 2 ^ 64"
    and "length (run_engine commands) < 2 ^ 64"
    and "path_ready fs (path_of command_arg)" "path_ready fs (path_of event_arg)"
      "path_of command_arg \<noteq> path_of event_arg"
  shows "\<exists>fs'. main it path_of fs [] [] cpads epads [''run'', scenario, command_arg, event_arg] =
      Some (0, run_report commands (run_engine commands) command_arg event_arg
        @ replay_ok_text (length commands) (length (run_engine commands)), [], fs') \<and>
    stored_commands (file_content fs' (path_of command_arg)) (open_reader fs' (path_of command_arg))
      = (commands, EndOfLog) \<and>
    stored_events (file_content fs' (path_of event_arg)) (open_reader fs' (path_of event_arg))
      = (run_engine commands, EndOfLog) \<and>
    (\<forall>q. q \<noteq> path_of command_arg \<and> q \<noteq> path_of event_arg \<longrightarrow> fs' q = fs q) \<and>
    main it path_of fs' [] [] cpads epads [''replay'', command_arg, event_arg] =
      Some (0, replay_ok_text (length commands) (length (run_engine commands)), [], fs')"
proof -
  let ?cp = "path_of command_arg" and ?ep = "path_of event_arg"
  obtain fs1 fs2 where w: "write_commands fs [] cpads ?cp commands = Some (True, fs1)"
    "write_events fs1 [] epads ?ep (run_engine commands) = Some (True, fs2)"
    and stored: "stored_commands (file_content fs2 ?cp) (open_reader fs2 ?cp) = (commands, EndOfLog)"
      "stored_events (file_content fs2 ?ep) (open_reader fs2 ?ep) = (run_engine commands, EndOfLog)"
    and other: "\<And>q. q \<noteq> ?cp \<Longrightarrow> q \<noteq> ?ep \<Longrightarrow> fs2 q = fs q"
    using run_writes [OF assms(6-8,4,5), of cpads epads] by metis
  have ok: "replay_wals fs2 ?cp ?ep = Some (0, replay_ok_text (length commands) (length (run_engine commands)))"
    by (rule replay_wals_ok [OF stored assms(3)])
  note run_of_written_logs [OF assms(1,2) w ok]
  then show ?thesis
    using stored other ok
    by (intro exI [of _ fs2]) (simp add: main_def replay_command_def del: append_assoc)
qed

text \<open>Every command is answered by an event.\<close>

lemma run_engine_answers: "commands \<noteq> [] \<Longrightarrow> run_engine commands \<noteq> []"
proof -
  assume "commands \<noteq> []"
  then obtain c cs where cs: "commands = c # cs" by (cases commands) auto
  obtain gen g where gen: "engine_apply (new_instrument_engine first_sequence_number) c = (gen, g)"
    by (cases "engine_apply (new_instrument_engine first_sequence_number) c")
  have "gen \<noteq> []" using engine_apply_answers [OF engine_inv_new, of first_sequence_number c] gen by simp
  then show ?thesis unfolding run_engine_def cs run_commands_Cons [of engine_apply, OF gen] by simp
qed

text \<open>What two successful writes leave, whatever the devices did.\<close>

definition command_log :: "(nat \<Rightarrow> u32 \<times> u32) \<Rightarrow> OrderCommandRecordV1 list \<Rightarrow> bytes" where
  "command_log pads commands =
     segment_bytes command_stream_id wal_epoch (c_command_sequence (hd commands))
       (log_entries encode_command order_command_record_type pads 0 commands)"

definition event_log :: "(nat \<Rightarrow> u32 \<times> u32) \<Rightarrow> ExecutionEventRecordV1 list \<Rightarrow> bytes" where
  "event_log pads events =
     segment_bytes event_stream_id wal_epoch 1 (log_entries encode_event execution_event_record_type pads 0 events)"

lemma written_logs:
  assumes w1: "write_commands fs couts cpads cp commands = Some (True, fs1)" and ne: "commands \<noteq> []"
    and w2: "write_events fs1 eouts epads ep (run_engine commands) = Some (True, fs2)" and "cp \<noteq> ep"
  shows "file_bytes fs2 cp = Some (command_log cpads commands)"
    "file_bytes fs2 ep = Some (event_log epads (run_engine commands))"
proof -
  note ne' = run_engine_answers [OF ne]
  note c = write_log_stored [OF w1 [unfolded write_commands_def] ne command_codec.length_encode]
  note e = write_log_stored [OF w2 [unfolded write_events_def] ne' event_codec.length_encode]
  have "file_bytes fs1 cp = Some (command_log cpads commands)"
    unfolding command_log_def by (rule c(1)) (simp add: sizeof_command_def)
  then show "file_bytes fs2 cp = Some (command_log cpads commands)"
    by (rule file_kept) (use e(2) assms(4) in \<open>simp add: sizeof_event_def\<close>)
  show "file_bytes fs2 ep = Some (event_log epads (run_engine commands))"
    unfolding event_log_def using e(1) run_engine_first [OF ne'] by (simp add: sizeof_event_def)
qed

lemma read_command_log:
  assumes "file_bytes fs p = Some (command_log pads commands)"
  shows "c_command_sequence (hd commands) = 0 \<Longrightarrow>
      stored_commands (file_content fs p) (open_reader fs p) = ([], ReadFailed)"
    and "c_command_sequence (hd commands) \<noteq> 0 \<Longrightarrow>
      unat (c_command_sequence (hd commands)) + length commands \<le> 2 ^ 64 \<Longrightarrow>
      stored_commands (file_content fs p) (open_reader fs p) = (commands, EndOfLog)"
proof -
  note log = assms [unfolded command_log_def]
  show "stored_commands (file_content fs p) (open_reader fs p) = ([], ReadFailed)"
    if "c_command_sequence (hd commands) = 0"
    unfolding stored_commands_def by (rule refused_log [OF log [unfolded that]])
  show "stored_commands (file_content fs p) (open_reader fs p) = (commands, EndOfLog)"
    if "c_command_sequence (hd commands) \<noteq> 0" "unat (c_command_sequence (hd commands)) + length commands \<le> 2 ^ 64"
    unfolding stored_commands_def
    by (rule stored_log [OF log _ _ that command_codec.codec_axioms])
      (simp_all add: sizeof_command_def command_stream_id_def wal_epoch_def)
qed

lemma read_event_log:
  assumes "file_bytes fs p = Some (event_log pads events)" "length events < 2 ^ 64"
  shows "stored_events (file_content fs p) (open_reader fs p) = (events, EndOfLog)"
  unfolding stored_events_def
  by (rule stored_log [OF assms(1) [unfolded event_log_def] _ _ _ _ event_codec.codec_axioms])
    (use assms(2) in \<open>simp_all add: sizeof_event_def event_stream_id_def wal_epoch_def\<close>)

text \<open>
  C4: A run claims only what it has stored. On any devices, with any files and directories, two
  different log files and fewer than 2^64 events: if \<open>run\<close> on a scenario with commands ends, and not
  with exit code 1, then nothing was printed as an error, the command file consists of exactly the
  log of all commands of the scenario and the event file of exactly the log of all events of the
  engine, and the events are read back as they are. If the scenario starts with a command sequence
  number other than 0, and none wraps around, the commands are read back as well, and the exit code
  is the verdict of the replay: 0 if the command sequence numbers are consecutive, otherwise 2. If
  it starts with 0, the exit code is 2: the header of the command log then names 0 as the first
  sequence number, and no reader accepts the log.
\<close>

theorem run_claims_only_what_is_stored:
  assumes run: "main it path_of fs couts eouts cpads epads [''run'', scenario, command_arg, event_arg] =
      Some (code, out, err, fs')" "code \<noteq> 1"
    and commands: "commands = load_commands (load_scenario scenario (file_text fs (path_of scenario)))"
      "commands \<noteq> []"
    and few: "length (run_engine commands) < 2 ^ 64"
    and paths: "path_of command_arg \<noteq> path_of event_arg"
  shows "err = [] \<and>
    file_bytes fs' (path_of command_arg) = Some (command_log cpads commands) \<and>
    file_bytes fs' (path_of event_arg) = Some (event_log epads (run_engine commands)) \<and>
    stored_events (file_content fs' (path_of event_arg)) (open_reader fs' (path_of event_arg))
      = (run_engine commands, EndOfLog) \<and>
    (c_command_sequence (hd commands) \<noteq> 0 \<and>
     unat (c_command_sequence (hd commands)) + length commands \<le> 2 ^ 64 \<longrightarrow>
       stored_commands (file_content fs' (path_of command_arg)) (open_reader fs' (path_of command_arg))
         = (commands, EndOfLog) \<and>
       code = (if map c_command_sequence commands
         = consecutive (hd (map c_command_sequence commands)) (length commands) then 0 else 2)) \<and>
    (c_command_sequence (hd commands) = 0 \<longrightarrow> code = 2 \<and>
       stored_commands (file_content fs' (path_of command_arg)) (open_reader fs' (path_of command_arg))
         = ([], ReadFailed))"
proof -
  let ?cp = "path_of command_arg" and ?ep = "path_of event_arg"
  note r = run(1) [unfolded main_def run_command_def Let_def list.case, folded commands(1)]
  obtain fs1 where w1: "write_commands fs couts cpads ?cp commands = Some (True, fs1)"
    using r run(2) by (auto split: if_splits option.splits)
  obtain fs2 where w2: "write_events fs1 eouts epads ?ep (run_engine commands) = Some (True, fs2)"
    using r run(2) w1 by (auto split: if_splits option.splits)
  obtain out' where rep: "replay_wals fs2 ?cp ?ep = Some (code, out')" and fs': "fs' = fs2" "err = []"
    using r run(2) by (auto simp: w1 w2 split: if_splits option.splits)
  note logs = written_logs [OF w1 commands(2) w2 paths]
  note events = read_event_log [OF logs(2) few]
  have verdict: "code = (if ce = EndOfLog \<and> map c_command_sequence cs
        = consecutive (hd (map c_command_sequence cs)) (length cs) \<and> run_engine commands = run_engine cs
      then 0 else 2)" if "stored_commands (file_content fs2 ?cp) (open_reader fs2 ?cp) = (cs, ce)" for cs ce
    using replay_wals_verdict [OF that events] rep
    by (force simp: replay_wals_def Let_def split: if_splits)
  show ?thesis
    unfolding fs'
    using logs events verdict [OF read_command_log(1) [OF logs(1)]] verdict [OF read_command_log(2) [OF logs(1)]]
      read_command_log [OF logs(1)] by simp
qed

text \<open>A scenario of two orders that trade, in a file, and its commands.\<close>

definition demo_order :: "u64 \<Rightarrow> Side \<Rightarrow> int \<Rightarrow> OrderCommandRecordV1" where
  "demo_order n side quantity = empty_command
     \<lparr>c_command_sequence := n, c_source_ingress_epoch := 1, c_source_ingress_sequence := n,
      c_order_id := 100 + n, c_client_id := 5, c_price_ticks := i64_of_int 101,
      c_quantity_lots := i64_of_int quantity, c_instrument_id := 77,
      c_command_type := command_type_code NewOrder, c_side := side_code side,
      c_time_in_force := time_in_force_code Gtc\<rparr>"

definition demo_commands :: "OrderCommandRecordV1 list" where
  "demo_commands = [demo_order 1 Sell 5, demo_order 2 Buy 3]"

definition demo_files :: file_system where
  "demo_files = (\<lambda>_. None)([''s''] \<mapsto>
     RegularFile (map (\<lambda>c. of_nat (of_char c)) (unlines (map scenario_line demo_commands))))"

lemma file_text_of_string:
  "fs p = Some (RegularFile (map (\<lambda>c. of_nat (of_char c)) text)) \<Longrightarrow> file_text fs p = Some text"
proof -
  have "char_of (unat (of_nat (of_char c) :: u8)) = c" for c :: char
  proof -
    have "(of_char c :: nat) < 256" by (rule nat_of_char_less_256)
    then have "unat (of_nat (of_char c) :: u8) = of_char c" by (simp add: unat_of_nat)
    then show ?thesis by simp
  qed
  then show "fs p = Some (RegularFile (map (\<lambda>c. of_nat (of_char c)) text)) \<Longrightarrow> file_text fs p = Some text"
    by (simp add: file_text_def file_bytes_def comp_def)
qed

lemma demo_facts:
  "load_scenario ''s'' (file_text demo_files [''s'']) =
     \<lparr>load_ok = True, load_error = [], load_commands = demo_commands\<rparr>"
  "map c_command_sequence demo_commands
     = consecutive (hd (map c_command_sequence demo_commands)) (length demo_commands)"
  "length (run_engine demo_commands) = 5"
  "path_ready demo_files [''c'']" "path_ready demo_files [''e'']"
  "\<forall>c \<in> set demo_commands. nonzero_id c"
proof -
  have shaped: "list_all scenario_shaped demo_commands"
    by (simp add: demo_commands_def demo_order_def scenario_shaped_def empty_command_def)
  have "file_text demo_files [''s''] = Some (unlines (map scenario_line demo_commands))"
    by (rule file_text_of_string) (simp add: demo_files_def)
  then show "load_scenario ''s'' (file_text demo_files [''s'']) =
     \<lparr>load_ok = True, load_error = [], load_commands = demo_commands\<rparr>"
    using load_written_scenario [OF shaped] by (simp only:)
  show "map c_command_sequence demo_commands
     = consecutive (hd (map c_command_sequence demo_commands)) (length demo_commands)"
    by code_simp
  show "length (run_engine demo_commands) = 5" by code_simp
  show "path_ready demo_files [''c'']" "path_ready demo_files [''e'']"
    by (simp_all add: path_ready_def demo_files_def create_directories_def)
  show "\<forall>c \<in> set demo_commands. nonzero_id c"
    by (simp add: demo_commands_def demo_order_def nonzero_id_def empty_command_def)
qed

lemma demo_sequence:
  "demo_commands \<noteq> []" "length demo_commands = 2" "c_command_sequence (hd demo_commands) \<noteq> 0"
  "unat (c_command_sequence (hd demo_commands)) + length demo_commands \<le> 2 ^ 64"
  by (simp_all add: demo_commands_def demo_order_def)

lemma demo_run_writes:
  obtains fs1 fs2 where
    "write_commands demo_files [] (\<lambda>_. (0, 0)) [''c''] demo_commands = Some (True, fs1)"
    "write_events fs1 [] (\<lambda>_. (0, 0)) [''e''] (run_engine demo_commands) = Some (True, fs2)"
    "stored_commands (file_content fs2 [''c'']) (open_reader fs2 [''c'']) = (demo_commands, EndOfLog)"
    "stored_events (file_content fs2 [''e'']) (open_reader fs2 [''e'']) = (run_engine demo_commands, EndOfLog)"
proof (rule run_writes [OF demo_facts(4,5)])
  show "length (run_engine demo_commands) < 2 ^ 64" using demo_facts(3) by simp
qed (use demo_sequence that in \<open>blast | simp\<close>)+

lemma run_stores_replayable_logs_witness:
  "\<exists>fs'. main id (\<lambda>s. [s]) demo_files [] [] (\<lambda>_. (0, 0)) (\<lambda>_. (0, 0)) [''run'', ''s'', ''c'', ''e''] =
     Some (0, run_report demo_commands (run_engine demo_commands) ''c'' ''e'' @ replay_ok_text 2 5, [], fs')"
proof -
  have two: "length demo_commands = 2" by (simp add: demo_commands_def)
  have first: "c_command_sequence (hd demo_commands) = 1" by (simp add: demo_commands_def demo_order_def)
  show ?thesis
    using run_stores_replayable_logs [of "''s''" demo_files "\<lambda>s. [s]" demo_commands "''c''" "''e''" id
        "\<lambda>_. (0, 0)" "\<lambda>_. (0, 0)"] demo_facts
    by (auto simp: two first)
qed

lemma run_claims_only_what_is_stored_witness:
  "\<exists>out fs'. main id (\<lambda>s. [s]) demo_files [] [] (\<lambda>_. (0, 0)) (\<lambda>_. (0, 0)) [''run'', ''s'', ''c'', ''e''] =
       Some (0, out, [], fs') \<and>
     stored_commands (file_content fs' [''c'']) (open_reader fs' [''c'']) = (demo_commands, EndOfLog)"
proof -
  obtain fs1 fs2 where w: "write_commands demo_files [] (\<lambda>_. (0, 0)) [''c''] demo_commands = Some (True, fs1)"
    "write_events fs1 [] (\<lambda>_. (0, 0)) [''e''] (run_engine demo_commands) = Some (True, fs2)"
    "stored_commands (file_content fs2 [''c'']) (open_reader fs2 [''c'']) = (demo_commands, EndOfLog)"
    "stored_events (file_content fs2 [''e'']) (open_reader fs2 [''e'']) = (run_engine demo_commands, EndOfLog)"
    by (rule demo_run_writes)
  have load: "load_ok (load_scenario ''s'' (file_text demo_files [''s'']))"
    "demo_commands = load_commands (load_scenario ''s'' (file_text demo_files [''s'']))"
    by (simp_all add: demo_facts(1))
  have run: "main id (\<lambda>s. [s]) demo_files [] [] (\<lambda>_. (0, 0)) (\<lambda>_. (0, 0)) [''run'', ''s'', ''c'', ''e''] =
      Some (0, run_report demo_commands (run_engine demo_commands) ''c'' ''e'' @ replay_ok_text 2 5, [], fs2)"
    using run_of_written_logs [where path_of = "\<lambda>s. [s]", OF load w(1,2) replay_wals_ok [OF w(3,4) demo_facts(2)]]
      demo_facts(3) by (simp add: main_def demo_sequence(2))
  have "length (run_engine demo_commands) < 2 ^ 64" using demo_facts(3) by simp
  from run_claims_only_what_is_stored [where path_of = "\<lambda>s. [s]",
      OF run _ load(2) demo_sequence(1) this] run demo_sequence(3,4) show ?thesis
    by auto
qed

lemma dumps_show_engine_state_witness:
  "\<exists>fs. dump_trades_command id (\<lambda>s. [s]) fs [''e''] =
     Some (0, concat (map trade_line (trades_of (run_engine demo_commands))), [], fs)"
proof -
  obtain fs1 fs2 where "stored_events (file_content fs2 [''e'']) (open_reader fs2 [''e'']) =
      (run_engine demo_commands, EndOfLog)"
    by (rule demo_run_writes)
  from dumps_show_engine_state [where path_of = "\<lambda>s. [s]", OF this demo_facts(6) _ refl, of id]
  show ?thesis by auto
qed

end
