(* ===== verification/WalDemo.thy ===== *)
theory WalDemo
  imports StoredLogs
begin

text \<open>
  The demonstration program of the WAL facade (\<open>examples/wal_demo.cpp\<close>): it writes three records,
  commits them, reads the file back and prints a summary. As in \<open>Cli\<close>, \<open>None\<close> is an exception, and
  the path conversion, the device and the padding bytes are arguments. The program ends well
  exactly with the summary of its three records, on every device.
\<close>

section \<open>The program\<close>










section \<open>The loop on a log\<close>







section \<open>The property\<close>



end
