(* ===== verification/Benchmark.thy ===== *)
theory Benchmark
  imports StoredLogs
begin

text \<open>
  The load benchmark (\<open>benchmarks/load_pipeline_benchmark.cpp\<close>): it generates commands, writes them
  to a command WAL, reads them back, matches them in memory, writes the events, and runs the
  pipeline that reads commands, matches them and appends the events. A phase that fails ends the
  program; errors are the texts printed on standard error. The clock is the argument \<open>elapsed\<close>, a
  duration for each phase, of any type with a zero; the conversion to paths, the devices and the
  padding bytes are arguments as in \<open>Cli\<close>, and \<open>None\<close> is an exception. The benchmark has its own copies
  of \<open>append_storage_record\<close> and \<open>read_storage_record\<close>; they are shown to be those of the command line program.
\<close>

section \<open>Constants and records\<close>

definition bench_command_stream_id :: u64 where "bench_command_stream_id = 101"
definition bench_event_stream_id :: u64 where "bench_event_stream_id = 201"
definition benchmark_epoch :: u64 where "benchmark_epoch = 1"
definition bench_first_sequence :: u64 where "bench_first_sequence = 1"
definition benchmark_instrument_id :: u32 where "benchmark_instrument_id = 77"
definition benchmark_price_ticks :: i64 where "benchmark_price_ticks = I64 10000"
definition benchmark_quantity_lots :: i64 where "benchmark_quantity_lots = I64 1"

record BenchmarkConfig =
  cfg_command_count :: u64
  cfg_output_directory :: path
  cfg_commit_every :: u64

record BenchmarkPaths =
  bp_command_wal :: path
  bp_event_wal :: path
  bp_phase_event_wal :: path

record 'd PhaseMeasurement =
  ph_name :: string
  ph_command_count :: u64
  ph_event_count :: u64
  ph_record_count :: u64
  ph_commit_count :: u64
  ph_byte_count :: u64
  ph_elapsed_seconds :: 'd

definition new_measurement :: "('d :: zero) PhaseMeasurement" where
  "new_measurement =
     \<lparr>ph_name = [], ph_command_count = 0, ph_event_count = 0, ph_record_count = 0,
      ph_commit_count = 0, ph_byte_count = 0, ph_elapsed_seconds = 0\<rparr>"

record 'd GeneratedCommands =
  gen_commands :: "OrderCommandRecordV1 list"
  gen_measurement :: "'d PhaseMeasurement"

record 'd MatchedEvents =
  mat_events :: "ExecutionEventRecordV1 list"
  mat_measurement :: "'d PhaseMeasurement"

section \<open>Storage records\<close>

definition bench_append_storage_record ::
  "WalSegmentWriter \<Rightarrow> u32 \<Rightarrow> u32 \<Rightarrow> ('a \<Rightarrow> bytes) \<Rightarrow> 'a \<Rightarrow> WalAppendResult \<times> WalSegmentWriter" where
  "bench_append_storage_record writer header_padding record_type as_bytes record =
     (let payload = as_bytes record in append_record header_padding record_type payload writer)"

text \<open>\<open>None\<close> for the record: the output argument keeps its value.\<close>

definition bench_read_storage_record ::
  "bytes \<Rightarrow> WalSegmentReader \<Rightarrow> u32 \<Rightarrow> (bytes \<Rightarrow> 'a) \<Rightarrow> nat \<Rightarrow> WalReadResult \<times> 'a option \<times> WalSegmentReader" where
  "bench_read_storage_record content reader expected_record_type of_bytes record_size =
     (case read_next_record content reader of (read_result, found, reader') \<Rightarrow>
        if read_status read_result \<noteq> WalRecordRead then (read_result, None, reader')
        else (case found of
            None \<Rightarrow> (read_result, None, reader')
          | Some wal_record \<Rightarrow>
              if rec_record_type wal_record \<noteq> expected_record_type
              then (read_result\<lparr>read_status := WalReadFailed, read_error := RecordTypeMismatch\<rparr>, None, reader')
              else if length (rec_payload wal_record) \<noteq> record_size
              then (read_result\<lparr>read_status := WalReadFailed, read_error := PayloadSizeMismatch\<rparr>, None, reader')
              else (read_result, Some (of_bytes (rec_payload wal_record)), reader')))"

lemma bench_append_storage_record_eq [simp]:
  "bench_append_storage_record w header_padding t encode x = append_storage_record encode header_padding t x w"
  by (simp add: bench_append_storage_record_def append_storage_record_def)

lemma bench_read_storage_record_eq [simp]:
  "bench_read_storage_record content r t decode len = read_storage_record decode len t content r"
  by (simp add: bench_read_storage_record_def read_storage_record_def)

section \<open>Configuration\<close>

text \<open>
  \<open>std::stoull\<close> with base 10: white space, a sign, the longest run of digits; what follows is not
  looked at, a minus sign negates modulo \<open>2^64\<close>. \<open>None\<close> is \<open>invalid_argument\<close> or \<open>out_of_range\<close>.
\<close>

definition stoull :: "string \<Rightarrow> u64 option" where
  "stoull s =
     (let s' = dropWhile is_space s;
          negative = (s' \<noteq> [] \<and> hd s' = CHR ''-'');
          signed = (negative \<or> (s' \<noteq> [] \<and> hd s' = CHR ''+''));
          digits = takeWhile is_digit (if signed then tl s' else s')
      in if digits = [] then None
         else if 2 ^ 64 \<le> digits_value digits then None
         else if negative then Some (- of_nat (digits_value digits))
         else Some (of_nat (digits_value digits)))"

text \<open>The arguments behind the program name.\<close>

definition parse_config :: "(string \<Rightarrow> path) \<Rightarrow> string list \<Rightarrow> BenchmarkConfig option" where
  "parse_config path_of args =
     (let config = \<lparr>cfg_command_count = 100000, cfg_output_directory = path_of ''benchmark_wal'',
                    cfg_commit_every = 0\<rparr>
      in case args of
           [] \<Rightarrow> Some config
         | a # rest \<Rightarrow>
             (case stoull a of
                None \<Rightarrow> None
              | Some command_count \<Rightarrow>
                  (let config1 = config\<lparr>cfg_command_count := command_count\<rparr>
                   in case rest of
                        [] \<Rightarrow> Some config1
                      | d # rest' \<Rightarrow>
                          (let config2 = config1\<lparr>cfg_output_directory := path_of d\<rparr>
                           in case rest' of
                                [] \<Rightarrow> Some config2
                              | k # _ \<Rightarrow>
                                  map_option (\<lambda>every. config2\<lparr>cfg_commit_every := every\<rparr>) (stoull k)))))"

definition has_supported_commit_interval :: "u64 \<Rightarrow> bool" where
  "has_supported_commit_interval commit_every \<longleftrightarrow>
     commit_every = 0 \<or> commit_every = 1 \<or> commit_every = 16 \<or> commit_every = 64
     \<or> commit_every = 256 \<or> commit_every = 1024"

definition make_paths :: "BenchmarkConfig \<Rightarrow> BenchmarkPaths" where
  "make_paths config =
     \<lparr>bp_command_wal = cfg_output_directory config @ [''load_commands.wal''],
      bp_event_wal = cfg_output_directory config @ [''load_events.wal''],
      bp_phase_event_wal = cfg_output_directory config @ [''load_events_phase_only.wal'']\<rparr>"

text \<open>\<open>None\<close> is the exception of \<open>file_size\<close> on a directory.\<close>

definition file_size_or_zero :: "file_system \<Rightarrow> path \<Rightarrow> u64 option" where
  "file_size_or_zero fs p =
     (case fs p of
        None \<Rightarrow> Some 0
      | Some (RegularFile bs) \<Rightarrow> Some (of_nat (length bs))
      | Some Directory \<Rightarrow> None)"

section \<open>The command stream\<close>

definition make_passive_sell_command :: "u64 \<Rightarrow> OrderCommandRecordV1" where
  "make_passive_sell_command command_sequence = empty_command
     \<lparr>c_command_sequence := command_sequence, c_source_ingress_epoch := benchmark_epoch,
      c_source_ingress_sequence := command_sequence, c_order_id := command_sequence,
      c_client_id := 1000000 + command_sequence, c_price_ticks := benchmark_price_ticks,
      c_quantity_lots := benchmark_quantity_lots, c_instrument_id := benchmark_instrument_id,
      c_command_type := command_type_code NewOrder, c_side := side_code Sell,
      c_time_in_force := time_in_force_code Gtc\<rparr>"

definition make_aggressive_buy_command :: "u64 \<Rightarrow> OrderCommandRecordV1" where
  "make_aggressive_buy_command command_sequence = empty_command
     \<lparr>c_command_sequence := command_sequence, c_source_ingress_epoch := benchmark_epoch,
      c_source_ingress_sequence := command_sequence, c_order_id := command_sequence,
      c_client_id := 1000000 + command_sequence, c_price_ticks := benchmark_price_ticks,
      c_quantity_lots := benchmark_quantity_lots, c_instrument_id := benchmark_instrument_id,
      c_command_type := command_type_code NewOrder, c_side := side_code Buy,
      c_time_in_force := time_in_force_code Gtc\<rparr>"

definition make_benchmark_command :: "u64 \<Rightarrow> OrderCommandRecordV1" where
  "make_benchmark_command command_sequence =
     (if command_sequence mod 2 = 1 then make_passive_sell_command command_sequence
      else make_aggressive_buy_command command_sequence)"

text \<open>\<open>reserve\<close> throws \<open>length_error\<close> above \<open>max_size()\<close>, the largest signed size over the element size.\<close>

definition vector_max_size :: "nat \<Rightarrow> nat" where
  "vector_max_size element_size = (2 ^ 63 - 1) div element_size"

text \<open>The \<open>for\<close> loop. With the largest count it would not end: \<open>None\<close>.\<close>

partial_function (option) generate_loop ::
  "u64 \<Rightarrow> u64 \<Rightarrow> OrderCommandRecordV1 list \<Rightarrow> OrderCommandRecordV1 list option" where
  "generate_loop command_count command_sequence commands =
     (if command_sequence \<le> command_count
      then generate_loop command_count (command_sequence + 1)
             (commands @ [make_benchmark_command command_sequence])
      else Some commands)"

definition generate_commands :: "('d :: zero) \<Rightarrow> u64 \<Rightarrow> 'd GeneratedCommands option" where
  "generate_commands elapsed command_count =
     (if vector_max_size sizeof_command < unat command_count then None
      else map_option
        (\<lambda>commands. \<lparr>gen_commands = commands,
           gen_measurement = new_measurement\<lparr>ph_name := ''generate_commands'',
             ph_command_count := of_nat (length commands), ph_elapsed_seconds := elapsed\<rparr>\<rparr>)
        (generate_loop command_count 1 []))"

section \<open>Writing with a commit interval\<close>

text \<open>The variables of a phase that writes records.\<close>

record 'd write_phase =
  wp_files :: file_system
  wp_writer :: WalSegmentWriter
  wp_since :: u64
  wp_measurement :: "'d PhaseMeasurement"

text \<open>\<open>Some message\<close> is the result \<open>false\<close> with what was printed.\<close>

definition commit_if_interval_is_reached ::
  "u64 \<Rightarrow> string \<Rightarrow> 'd write_phase \<Rightarrow> string option \<times> 'd write_phase" where
  "commit_if_interval_is_reached commit_every failure_message wp =
     (if commit_every = 0 \<or> wp_since wp < commit_every then (None, wp)
      else
        (case wal_commit (wp_files wp) (wp_writer wp) of (commit_result, w, fs) \<Rightarrow>
           if commit_status commit_result \<noteq> Committed
           then (Some (failure_message @ endl), wp\<lparr>wp_files := fs, wp_writer := w\<rparr>)
           else (None, wp\<lparr>wp_files := fs, wp_writer := w, wp_since := 0,
                          wp_measurement := (wp_measurement wp)
                            \<lparr>ph_commit_count := ph_commit_count (wp_measurement wp) + 1\<rparr>\<rparr>)))"

definition commit_remaining_records :: "string \<Rightarrow> 'd write_phase \<Rightarrow> string option \<times> 'd write_phase" where
  "commit_remaining_records failure_message wp =
     (if wp_since wp = 0 then (None, wp)
      else
        (case wal_commit (wp_files wp) (wp_writer wp) of (commit_result, w, fs) \<Rightarrow>
           if commit_status commit_result \<noteq> Committed
           then (Some (failure_message @ endl), wp\<lparr>wp_files := fs, wp_writer := w\<rparr>)
           else (None, wp\<lparr>wp_files := fs, wp_writer := w,
                          wp_measurement := (wp_measurement wp)
                            \<lparr>ph_commit_count := ph_commit_count (wp_measurement wp) + 1\<rparr>\<rparr>)))"

definition count_command :: "'d PhaseMeasurement \<Rightarrow> 'd PhaseMeasurement" where
  "count_command m = m\<lparr>ph_command_count := ph_command_count m + 1, ph_record_count := ph_record_count m + 1\<rparr>"

definition count_event :: "'d PhaseMeasurement \<Rightarrow> 'd PhaseMeasurement" where
  "count_event m = m\<lparr>ph_event_count := ph_event_count m + 1, ph_record_count := ph_record_count m + 1\<rparr>"

text \<open>
  The loop body the three writing phases share: append the record or stop with the text
  \<open>append_failure\<close>, count it, commit if the interval is reached.
\<close>

fun store_records ::
  "(u32 \<Rightarrow> 'a \<Rightarrow> bytes) \<Rightarrow> u32 \<Rightarrow> ('d PhaseMeasurement \<Rightarrow> 'd PhaseMeasurement) \<Rightarrow> ('a \<Rightarrow> string) \<Rightarrow> string \<Rightarrow>
   u64 \<Rightarrow> (nat \<Rightarrow> u32 \<times> u32) \<Rightarrow> nat \<Rightarrow> 'a list \<Rightarrow> 'd write_phase \<Rightarrow> string option \<times> 'd write_phase" where
  "store_records encode t bump append_failure commit_failure commit_every pads n [] wp = (None, wp)"
| "store_records encode t bump append_failure commit_failure commit_every pads n (x # xs) wp =
     (case bench_append_storage_record (wp_writer wp) (fst (pads n)) t (encode (snd (pads n))) x of (result, w) \<Rightarrow>
        if append_status result \<noteq> Appended then (Some (append_failure x @ endl), wp\<lparr>wp_writer := w\<rparr>)
        else
          (case commit_if_interval_is_reached commit_every commit_failure
                  (wp\<lparr>wp_writer := w, wp_since := wp_since wp + 1,
                      wp_measurement := bump (wp_measurement wp)\<rparr>) of
             (Some message, wp') \<Rightarrow> (Some message, wp')
           | (None, wp') \<Rightarrow>
               store_records encode t bump append_failure commit_failure commit_every pads (Suc n) xs wp'))"

text \<open>
  The end of a writing phase: the last commit, the time, the size of the file. The writer is
  destroyed at every \<open>return\<close>. The results are the returned flag, the measurement, the error
  output and the file system.
\<close>

type_synonym 'd phase_result = "(bool \<times> 'd PhaseMeasurement \<times> string \<times> file_system) option"

definition leave_phase :: "bool \<Rightarrow> 'd PhaseMeasurement \<Rightarrow> string \<Rightarrow> 'd write_phase \<Rightarrow> 'd phase_result" where
  "leave_phase result m message wp = Some (result, m, message, close_segment_writer (wp_files wp) (wp_writer wp))"

definition end_write_phase ::
  "'d \<Rightarrow> path \<Rightarrow> string \<Rightarrow> ('d PhaseMeasurement \<Rightarrow> string option) \<Rightarrow> string option \<times> 'd write_phase \<Rightarrow> 'd phase_result" where
  "end_write_phase elapsed p final_failure check outcome =
     (case outcome of
        (Some message, wp) \<Rightarrow> leave_phase False (wp_measurement wp) message wp
      | (None, wp) \<Rightarrow>
          (case commit_remaining_records final_failure wp of
             (Some message, wp') \<Rightarrow> leave_phase False (wp_measurement wp') message wp'
           | (None, wp') \<Rightarrow>
               (case check (wp_measurement wp') of
                  Some message \<Rightarrow> leave_phase False (wp_measurement wp') message wp'
                | None \<Rightarrow>
                    (case file_size_or_zero (wp_files wp') p of
                       None \<Rightarrow> None
                     | Some bytes \<Rightarrow>
                         leave_phase True
                           ((wp_measurement wp')\<lparr>ph_elapsed_seconds := elapsed, ph_byte_count := bytes\<rparr>)
                           [] wp'))))"

definition write_command_wal ::
  "'d \<Rightarrow> file_system \<Rightarrow> device_outcome list \<Rightarrow> (nat \<Rightarrow> u32 \<times> u32) \<Rightarrow> path \<Rightarrow> OrderCommandRecordV1 list \<Rightarrow>
   u64 \<Rightarrow> 'd PhaseMeasurement \<Rightarrow> 'd phase_result" where
  "write_command_wal elapsed fs outcomes pads command_wal_path commands commit_every measurement =
     (case remove_path fs command_wal_path of
        None \<Rightarrow> None
      | Some fs1 \<Rightarrow>
          (case new_segment_writer fs1 outcomes command_wal_path bench_command_stream_id benchmark_epoch
                  bench_first_sequence of
             None \<Rightarrow> None
           | Some (w, fs2) \<Rightarrow>
               end_write_phase elapsed command_wal_path ''command WAL final commit failed'' (\<lambda>_. None)
                 (store_records encode_command order_command_record_type count_command
                    (\<lambda>c. ''command WAL append failed at sequence '' @ show_word (c_command_sequence c))
                    ''command WAL commit failed'' commit_every pads 0 commands
                    \<lparr>wp_files = fs2, wp_writer = w, wp_since = 0,
                     wp_measurement = measurement\<lparr>ph_name := ''command_wal_write''\<rparr>\<rparr>)))"

definition measure_event_wal_append ::
  "'d \<Rightarrow> file_system \<Rightarrow> device_outcome list \<Rightarrow> (nat \<Rightarrow> u32 \<times> u32) \<Rightarrow> path \<Rightarrow> ExecutionEventRecordV1 list \<Rightarrow>
   u64 \<Rightarrow> 'd PhaseMeasurement \<Rightarrow> 'd phase_result" where
  "measure_event_wal_append elapsed fs outcomes pads event_wal_path execution_events commit_every measurement =
     (case remove_path fs event_wal_path of
        None \<Rightarrow> None
      | Some fs1 \<Rightarrow>
          (case new_segment_writer fs1 outcomes event_wal_path bench_event_stream_id benchmark_epoch
                  bench_first_sequence of
             None \<Rightarrow> None
           | Some (w, fs2) \<Rightarrow>
               end_write_phase elapsed event_wal_path ''event WAL final commit failed'' (\<lambda>_. None)
                 (store_records encode_event execution_event_record_type count_event
                    (\<lambda>e. ''event WAL append failed at event sequence '' @ show_word (e_event_sequence e))
                    ''event WAL commit failed'' commit_every pads 0 execution_events
                    \<lparr>wp_files = fs2, wp_writer = w, wp_since = 0,
                     wp_measurement = measurement\<lparr>ph_name := ''event_wal_append''\<rparr>\<rparr>)))"

section \<open>Reading and matching\<close>

function read_only_loop ::
  "bytes \<Rightarrow> WalSegmentReader \<Rightarrow> 'd PhaseMeasurement \<Rightarrow> string option \<times> 'd PhaseMeasurement" where
  "read_only_loop content r m =
     (case bench_read_storage_record content r order_command_record_type decode_command sizeof_command of
        (result, record, r') \<Rightarrow>
          if read_status result = WalReadEnd then (None, m)
          else if read_status result \<noteq> WalRecordRead then
            (Some (''command WAL read-only pass failed after '' @ show_word (ph_command_count m)
               @ '' commands'' @ endl), m)
          else read_only_loop content r' (count_command m))"
  by pat_completeness auto

termination read_only_loop
  by (relation "measure (\<lambda>(content, r, m). length content - i_pos (rd_file r))")
    (auto dest!: read_storage_record_progress [rotated, OF _ sym])

declare read_only_loop.simps [simp del]

definition measure_command_wal_read_only ::
  "'d \<Rightarrow> file_system \<Rightarrow> path \<Rightarrow> 'd PhaseMeasurement \<Rightarrow> 'd phase_result" where
  "measure_command_wal_read_only elapsed fs command_wal_path measurement =
     (case read_only_loop (file_content fs command_wal_path) (open_reader fs command_wal_path)
             (measurement\<lparr>ph_name := ''command_wal_read_only''\<rparr>) of
        (Some message, m) \<Rightarrow> Some (False, m, message, fs)
      | (None, m) \<Rightarrow>
          (case file_size_or_zero fs command_wal_path of
             None \<Rightarrow> None
           | Some bytes \<Rightarrow> Some (True, m\<lparr>ph_elapsed_seconds := elapsed, ph_byte_count := bytes\<rparr>, [], fs)))"

fun matcher_loop ::
  "OrderCommandRecordV1 list \<Rightarrow> InstrumentEngine \<Rightarrow> 'd MatchedEvents \<Rightarrow> 'd MatchedEvents" where
  "matcher_loop [] engine collected = collected"
| "matcher_loop (command # commands) engine collected =
     (case engine_apply engine command of (command_events, engine') \<Rightarrow>
        matcher_loop commands engine'
          \<lparr>mat_events = mat_events collected @ command_events,
           mat_measurement = (mat_measurement collected)
             \<lparr>ph_command_count := ph_command_count (mat_measurement collected) + 1,
              ph_event_count := ph_event_count (mat_measurement collected) + of_nat (length command_events)\<rparr>\<rparr>)"

definition measure_matcher_only :: "('d :: zero) \<Rightarrow> OrderCommandRecordV1 list \<Rightarrow> 'd MatchedEvents option" where
  "measure_matcher_only elapsed commands =
     (if vector_max_size sizeof_event < length commands * 3 then None
      else
        (let collected = matcher_loop commands (new_instrument_engine bench_first_sequence)
               \<lparr>mat_events = [], mat_measurement = new_measurement\<lparr>ph_name := ''matcher_only_without_event_wal''\<rparr>\<rparr>
         in Some (collected\<lparr>mat_measurement := (mat_measurement collected)\<lparr>ph_elapsed_seconds := elapsed\<rparr>\<rparr>)))"

text \<open>
  The loop of the pipeline; \<open>n\<close> counts the events appended. The files of the reader and the writer
  are different, so the reader sees the bytes the command WAL had when it was opened.
\<close>

function pipeline_loop ::
  "bytes \<Rightarrow> WalSegmentReader \<Rightarrow> InstrumentEngine \<Rightarrow> u64 \<Rightarrow> (nat \<Rightarrow> u32 \<times> u32) \<Rightarrow> nat \<Rightarrow> 'd write_phase \<Rightarrow>
   string option \<times> 'd write_phase" where
  "pipeline_loop content r engine commit_every pads n wp =
     (case bench_read_storage_record content r order_command_record_type decode_command sizeof_command of
        (result, record, r') \<Rightarrow>
          if read_status result = WalReadEnd then (None, wp)
          else if read_status result \<noteq> WalRecordRead then
            (Some (''command WAL pipeline read failed after ''
               @ show_word (ph_command_count (wp_measurement wp)) @ '' commands'' @ endl), wp)
          else
            (case engine_apply engine (case record of None \<Rightarrow> empty_command | Some command \<Rightarrow> command) of
               (execution_events, engine') \<Rightarrow>
                 (case store_records encode_event execution_event_record_type count_event
                         (\<lambda>e. ''event WAL pipeline append failed at event sequence '' @ show_word (e_event_sequence e))
                         ''event WAL pipeline commit failed'' commit_every pads n execution_events
                         (wp\<lparr>wp_measurement := (wp_measurement wp)
                               \<lparr>ph_command_count := ph_command_count (wp_measurement wp) + 1\<rparr>\<rparr>) of
                    (Some message, wp') \<Rightarrow> (Some message, wp')
                  | (None, wp') \<Rightarrow>
                      pipeline_loop content r' engine' commit_every pads (n + length execution_events) wp')))"
  by pat_completeness auto

termination pipeline_loop
  by (relation "measure (\<lambda>(content, r, engine, k, pads, n, wp). length content - i_pos (rd_file r))")
    (auto dest!: read_storage_record_progress [rotated, OF _ sym])

declare pipeline_loop.simps [simp del]

definition measure_read_match_event_pipeline ::
  "'d \<Rightarrow> file_system \<Rightarrow> device_outcome list \<Rightarrow> (nat \<Rightarrow> u32 \<times> u32) \<Rightarrow> path \<Rightarrow> path \<Rightarrow> u64 \<Rightarrow> u64 \<Rightarrow>
   'd PhaseMeasurement \<Rightarrow> 'd phase_result" where
  "measure_read_match_event_pipeline elapsed fs outcomes pads command_wal_path event_wal_path
       expected_event_count commit_every measurement =
     (case remove_path fs event_wal_path of
        None \<Rightarrow> None
      | Some fs1 \<Rightarrow>
          (case new_segment_writer fs1 outcomes event_wal_path bench_event_stream_id benchmark_epoch
                  bench_first_sequence of
             None \<Rightarrow> None
           | Some (w, fs2) \<Rightarrow>
               end_write_phase elapsed event_wal_path ''event WAL pipeline final commit failed''
                 (\<lambda>m. if ph_event_count m \<noteq> expected_event_count
                      then Some (''pipeline emitted '' @ show_word (ph_event_count m)
                             @ '' events, expected '' @ show_word expected_event_count @ endl)
                      else None)
                 (pipeline_loop (file_content fs1 command_wal_path) (open_reader fs1 command_wal_path)
                    (new_instrument_engine bench_first_sequence) commit_every pads 0
                    \<lparr>wp_files = fs2, wp_writer = w, wp_since = 0,
                     wp_measurement = measurement\<lparr>ph_name := ''read_match_event_pipeline''\<rparr>\<rparr>)))"

section \<open>The program\<close>

text \<open>
  The three writers have a device and padding bytes each. The measurements are those the report
  prints when all phases have succeeded (\<open>BenchmarkReport\<close>).
\<close>

record bench_writers =
  bw_outcomes :: "nat \<Rightarrow> device_outcome list"
  bw_pads :: "nat \<Rightarrow> nat \<Rightarrow> u32 \<times> u32"

type_synonym 'd bench_result = "(int \<times> 'd PhaseMeasurement list \<times> string \<times> file_system) option"

text \<open>A phase that returned false ends the program with its exit code; otherwise the next one runs.\<close>

definition after_phase ::
  "'d phase_result \<Rightarrow> int \<Rightarrow> 'd PhaseMeasurement list \<Rightarrow>
   (file_system \<Rightarrow> 'd PhaseMeasurement list \<Rightarrow> 'd bench_result) \<Rightarrow> 'd bench_result" where
  "after_phase result exit_code phases continue =
     (case result of
        None \<Rightarrow> None
      | Some (True, m, message, fs) \<Rightarrow> continue fs (phases @ [m])
      | Some (False, m, message, fs) \<Rightarrow> Some (exit_code, [], message, fs))"

definition benchmark_main ::
  "(string \<Rightarrow> path) \<Rightarrow> (nat \<Rightarrow> 'd) \<Rightarrow> file_system \<Rightarrow> bench_writers \<Rightarrow> string list \<Rightarrow> ('d :: zero) bench_result" where
  "benchmark_main path_of elapsed fs writers args =
     (case parse_config path_of args of
        None \<Rightarrow> None
      | Some config \<Rightarrow>
          if cfg_command_count config = 0
          then Some (1, [], ''command count must be greater than zero'' @ endl, fs)
          else if \<not> has_supported_commit_interval (cfg_commit_every config)
          then Some (1, [], ''commit_every must be one of: 0, 1, 16, 64, 256, 1024'' @ endl, fs)
          else
            (let paths = make_paths config; k = cfg_commit_every config in
             case create_directories fs (cfg_output_directory config) of
               None \<Rightarrow> None
             | Some fs0 \<Rightarrow>
                 (case generate_commands (elapsed 0) (cfg_command_count config) of
                    None \<Rightarrow> None
                  | Some generated \<Rightarrow>
                      after_phase
                        (write_command_wal (elapsed 1) fs0 (bw_outcomes writers 0) (bw_pads writers 0)
                           (bp_command_wal paths) (gen_commands generated) k new_measurement)
                        2 [gen_measurement generated]
                        (\<lambda>fs1 phases1. after_phase
                          (measure_command_wal_read_only (elapsed 2) fs1 (bp_command_wal paths) new_measurement)
                          3 phases1
                          (\<lambda>fs2 phases2.
                            case measure_matcher_only (elapsed 3) (gen_commands generated) of
                              None \<Rightarrow> None
                            | Some collected \<Rightarrow>
                                after_phase
                                  (measure_event_wal_append (elapsed 4) fs2 (bw_outcomes writers 1)
                                     (bw_pads writers 1) (bp_phase_event_wal paths) (mat_events collected) k
                                     new_measurement)
                                  4 (phases2 @ [mat_measurement collected])
                                  (\<lambda>fs3 phases3. after_phase
                                    (measure_read_match_event_pipeline (elapsed 5) fs3 (bw_outcomes writers 2)
                                       (bw_pads writers 2) (bp_command_wal paths) (bp_event_wal paths)
                                       (of_nat (length (mat_events collected))) k new_measurement)
                                    5 phases3
                                    (\<lambda>fs4 phases4. Some (0, phases4, [], fs4))))))))"

end
