(* ===== verification/BenchmarkFacts.thy ===== *)
theory BenchmarkFacts
  imports Benchmark
begin

text \<open>
  Lemmas on the load benchmark: its command stream and the book it leaves, the invariant
  \<open>storing\<close> of a phase that writes records with a commit interval on any device, what the reading
  loops deliver, and that an accepting device accepts every record.
\<close>

section \<open>The command stream\<close>

text \<open>The commands that a count of \<open>n\<close> generates.\<close>

definition bench_commands :: "nat \<Rightarrow> OrderCommandRecordV1 list" where
  "bench_commands n = map (\<lambda>i. make_benchmark_command (of_nat i)) [1..<Suc n]"

lemma length_bench_commands [simp]: "length (bench_commands n) = n"
  by (simp add: bench_commands_def del: upt_Suc)

lemma bench_commands_Suc: "bench_commands (Suc n) = bench_commands n @ [make_benchmark_command (of_nat (Suc n))]"
  by (simp add: bench_commands_def)

lemma take_bench_commands: "m \<le> n \<Longrightarrow> take m (bench_commands n) = bench_commands m"
  by (simp add: bench_commands_def take_map del: upt_Suc)

text \<open>The loop ends for every count but the largest one.\<close>

lemma generate_loop_returns:
  assumes "unat command_count < 2 ^ 64 - 1" "i \<le> Suc (unat command_count)"
  shows "generate_loop command_count (of_nat i) commands =
    Some (commands @ map (\<lambda>i. make_benchmark_command (of_nat i)) [i..<Suc (unat command_count)])"
  using assms(2)
proof (induction "Suc (unat command_count) - i" arbitrary: i commands)
  case 0
  then have i: "i = Suc (unat command_count)" by simp
  have "unat (of_nat i :: u64) = i" using assms(1) i by (simp add: unat_of_nat del: of_nat_Suc)
  then have "\<not> (of_nat i :: u64) \<le> command_count" by (simp add: word_le_nat_alt i del: of_nat_Suc)
  then show ?case by (subst generate_loop.simps) (simp add: i del: of_nat_Suc)
next
  case (Suc d)
  then have i: "i \<le> unat command_count" by simp
  then have "(of_nat i :: u64) \<le> command_count"
    using assms(1) by (simp add: word_le_nat_alt unat_of_nat)
  moreover have "[i..<Suc (unat command_count)] = i # [Suc i..<Suc (unat command_count)]"
    using i by (simp add: upt_rec del: upt_Suc)
  moreover have "(of_nat i :: u64) + 1 = of_nat (Suc i)" by simp
  ultimately show ?case
    using Suc.hyps(1) [of "Suc i" "commands @ [make_benchmark_command (of_nat i)]"] Suc.hyps(2) i
    by (subst generate_loop.simps) (simp del: upt_Suc of_nat_Suc)
qed

lemma generate_commands_returns:
  assumes "unat command_count \<le> vector_max_size sizeof_command"
  shows "generate_commands elapsed command_count =
    Some \<lparr>gen_commands = bench_commands (unat command_count),
      gen_measurement = new_measurement\<lparr>ph_name := ''generate_commands'',
        ph_command_count := command_count, ph_elapsed_seconds := elapsed\<rparr>\<rparr>"
proof -
  have "unat command_count < 2 ^ 64 - 1"
    using assms by (simp add: vector_max_size_def sizeof_command_def)
  then show ?thesis
    using generate_loop_returns [of command_count 1 "[]"] assms
    by (simp add: generate_commands_def bench_commands_def del: upt_Suc)
qed

section \<open>The book of the benchmark\<close>

text \<open>No order rests, or only the one of the last passive command.\<close>

definition quiet :: "OrderBook \<Rightarrow> bool" where
  "quiet b \<longleftrightarrow> b_bids b = [] \<and> b_asks b = [] \<and> b_active_orders b = [] \<and>
     (b_instrument_id b = None \<or> b_instrument_id b = Some benchmark_instrument_id)"

definition bench_order :: "u64 \<Rightarrow> RestingOrder" where
  "bench_order j =
     \<lparr>r_order_id = j, r_client_id = 1000000 + j, r_instrument_id = benchmark_instrument_id,
      r_side = side_code Sell, r_price_ticks = benchmark_price_ticks,
      r_remaining_quantity_lots = benchmark_quantity_lots\<rparr>"

definition one_sell :: "u64 \<Rightarrow> OrderBook \<Rightarrow> bool" where
  "one_sell j b \<longleftrightarrow> b_bids b = [] \<and> b_asks b = [(benchmark_price_ticks, [bench_order j])] \<and>
     b_active_orders b = [(j, bench_order j)] \<and> b_instrument_id b = Some benchmark_instrument_id"

lemma engine_apply_new:
  assumes "decode_command_type (c_command_type c) = Some NewOrder"
  shows "engine_apply g c = (case apply_new_order (engine_order_book g) c of (es, b) \<Rightarrow> (es, g\<lparr>engine_order_book := b\<rparr>))"
  using assms by (simp add: engine_apply_def split: prod.splits)

lemma bench_numbers [simp]:
  "to_int benchmark_price_ticks = 10000" "to_int benchmark_quantity_lots = 1"
  "to_int (benchmark_quantity_lots - benchmark_quantity_lots) = 0" "benchmark_quantity_lots \<noteq> 0"
  by (simp_all add: benchmark_price_ticks_def benchmark_quantity_lots_def to_int_eq_0 [symmetric])

lemma bench_codes [simp]:
  "decode_command_type 1 = Some NewOrder" "decode_side 1 = Some Buy" "decode_side 2 = Some Sell"
  using decode_command_type_code [of NewOrder] decode_side_code [of Buy] decode_side_code [of Sell] by simp_all

lemma sell_fields [simp]:
  "c_order_id (make_passive_sell_command j) = j" "c_client_id (make_passive_sell_command j) = 1000000 + j"
  "c_price_ticks (make_passive_sell_command j) = benchmark_price_ticks"
  "c_quantity_lots (make_passive_sell_command j) = benchmark_quantity_lots"
  "c_instrument_id (make_passive_sell_command j) = benchmark_instrument_id"
  "c_command_type (make_passive_sell_command j) = 1" "c_side (make_passive_sell_command j) = 2"
  "c_time_in_force (make_passive_sell_command j) = 1"
  by (simp_all add: make_passive_sell_command_def)

lemma buy_fields [simp]:
  "c_order_id (make_aggressive_buy_command j) = j" "c_client_id (make_aggressive_buy_command j) = 1000000 + j"
  "c_price_ticks (make_aggressive_buy_command j) = benchmark_price_ticks"
  "c_quantity_lots (make_aggressive_buy_command j) = benchmark_quantity_lots"
  "c_instrument_id (make_aggressive_buy_command j) = benchmark_instrument_id"
  "c_command_type (make_aggressive_buy_command j) = 1" "c_side (make_aggressive_buy_command j) = 1"
  "c_time_in_force (make_aggressive_buy_command j) = 1"
  by (simp_all add: make_aggressive_buy_command_def)

lemma valid_bench_order:
  assumes "quiet b \<or> one_sell i b \<and> i \<noteq> j"
  shows "validate_new_order b (make_passive_sell_command j) = NoRejection"
    "validate_new_order b (make_aggressive_buy_command j) = NoRejection"
  using assms
  by (auto simp: validate_new_order_def valid_side_def is_buy_def is_sell_def has_order_def
      validate_order_book_instrument_def quiet_def one_sell_def decode_time_in_force_def)

lemma sell_step:
  assumes "quiet b"
  shows "one_sell j (snd (apply_new_order b (make_passive_sell_command j)))"
    "length (fst (apply_new_order b (make_passive_sell_command j))) = 2"
    "trades_of (fst (apply_new_order b (make_passive_sell_command j))) = []"
  using assms valid_bench_order(1) [of b]
  by (auto simp: apply_new_order_def quiet_def one_sell_def bench_order_def bind_instrument_if_needed_def
      emit_order_event_def match_sell_order_against_bids_def rest_order_def Let_def is_trade_def empty_event_def
      split: option.splits)

lemma buy_step:
  assumes "one_sell i b" "i \<noteq> j"
  shows "quiet (snd (apply_new_order b (make_aggressive_buy_command j)))"
    "length (fst (apply_new_order b (make_aggressive_buy_command j))) = 3"
    "length (trades_of (fst (apply_new_order b (make_aggressive_buy_command j)))) = 1"
  using assms valid_bench_order(2) [of b]
  by (auto simp: apply_new_order_def quiet_def one_sell_def bench_order_def bind_instrument_if_needed_def
      emit_order_event_def match_buy_order_against_asks_def match_levels.simps match_queue.simps(2)
      emit_trade_event_def Let_def is_trade_def empty_event_def)


text \<open>The engine after \<open>n\<close> commands.\<close>

lemma bench_run:
  assumes "n < 2 ^ 64" "run_commands engine_apply (new_instrument_engine 1) (bench_commands n) = (events, g)"
  shows "(if even n then quiet (engine_order_book g) else one_sell (of_nat n) (engine_order_book g)) \<and>
    length events = 2 * n + n div 2 \<and> length (trades_of events) = n div 2"
  using assms
proof (induction n arbitrary: events g)
  case 0
  then show ?case by (auto simp: bench_commands_def quiet_def new_instrument_engine_def new_order_book_def)
next
  case (Suc n)
  let ?c = "make_benchmark_command (of_nat (Suc n))"
  obtain es0 g0 where g0: "run_commands engine_apply (new_instrument_engine 1) (bench_commands n) = (es0, g0)"
    by (cases "run_commands engine_apply (new_instrument_engine 1) (bench_commands n)")
  obtain es1 b1 where b1: "apply_new_order (engine_order_book g0) ?c = (es1, b1)"
    by (cases "apply_new_order (engine_order_book g0) ?c")
  have "engine_apply g0 ?c = (es1, g0\<lparr>engine_order_book := b1\<rparr>)"
    using b1 engine_apply_new [of ?c g0] by (simp add: make_benchmark_command_def)
  then have es: "events = es0 @ es1" "engine_order_book g = b1"
    using Suc.prems(2) g0 by (auto simp: bench_commands_Suc run_commands_append simp del: of_nat_Suc)
  note before = Suc.IH [OF _ g0]
  have parity: "(of_nat (Suc n) :: u64) mod 2 = 1 \<longleftrightarrow> even n"
    using Suc.prems(1) by (simp add: word_unat_eq_iff unat_mod unat_of_nat del: of_nat_Suc) presburger
  show ?case
  proof (cases "even n")
    case True
    then have "?c = make_passive_sell_command (of_nat (Suc n))" using parity by (simp add: make_benchmark_command_def)
    then show ?thesis
      using before Suc.prems(1) True sell_step [of "engine_order_book g0" "of_nat (Suc n)"] b1 es
      by (auto simp del: of_nat_Suc)
  next
    case False
    then have "?c = make_aggressive_buy_command (of_nat (Suc n))"
      using parity by (simp add: make_benchmark_command_def del: of_nat_Suc)
    moreover have "(of_nat n :: u64) \<noteq> of_nat (Suc n)" by simp
    ultimately show ?thesis
      using before Suc.prems(1) False buy_step [of "of_nat n" "engine_order_book g0" "of_nat (Suc n)"] b1 es
      by (auto simp del: of_nat_Suc)
  qed
qed


lemma generated_commands:
  assumes "generate_commands elapsed command_count = Some generated"
  shows "gen_commands generated = bench_commands (unat command_count)"
    "gen_measurement generated = new_measurement\<lparr>ph_name := ''generate_commands'',
       ph_command_count := command_count, ph_elapsed_seconds := elapsed\<rparr>"
    "unat command_count < 2 ^ 57"
proof -
  have few: "unat command_count \<le> vector_max_size sizeof_command"
    using assms by (auto simp: generate_commands_def split: if_splits)
  then show "gen_commands generated = bench_commands (unat command_count)"
    "gen_measurement generated = new_measurement\<lparr>ph_name := ''generate_commands'',
       ph_command_count := command_count, ph_elapsed_seconds := elapsed\<rparr>"
    using assms generate_commands_returns [OF few, of elapsed] by auto
  show "unat command_count < 2 ^ 57"
    using few by (simp add: vector_max_size_def sizeof_command_def)
qed

section \<open>Commit intervals\<close>

text \<open>After \<open>n\<close> records: the commits made on the way, and the records since the last one.\<close>

definition batches :: "u64 \<Rightarrow> nat \<Rightarrow> nat" where
  "batches k n = (if k = 0 then 0 else n div unat k)"

definition rest_of_batch :: "u64 \<Rightarrow> nat \<Rightarrow> nat" where
  "rest_of_batch k n = (if k = 0 then n else n mod unat k)"

lemma batches_Suc:
  "k \<noteq> 0 \<Longrightarrow> Suc (rest_of_batch k n) < unat k \<or> Suc (rest_of_batch k n) = unat k"
  "k = 0 \<or> Suc (rest_of_batch k n) < unat k \<Longrightarrow>
     batches k (Suc n) = batches k n \<and> rest_of_batch k (Suc n) = Suc (rest_of_batch k n)"
  "k \<noteq> 0 \<Longrightarrow> Suc (rest_of_batch k n) = unat k \<Longrightarrow>
     batches k (Suc n) = Suc (batches k n) \<and> rest_of_batch k (Suc n) = 0"
proof -
  assume "k \<noteq> 0"
  then have "rest_of_batch k n < unat k" by (simp add: rest_of_batch_def unat_gt_0)
  then show "Suc (rest_of_batch k n) < unat k \<or> Suc (rest_of_batch k n) = unat k" by linarith
qed (auto simp: batches_def rest_of_batch_def mod_Suc div_Suc split: if_splits)

lemma rest_le: "rest_of_batch k n \<le> n"
  by (simp add: rest_of_batch_def)

lemma interval_reached:
  "(k = 0 \<or> (of_nat (rest_of_batch k n) + 1 :: u64) < k) \<longleftrightarrow> k = 0 \<or> Suc (rest_of_batch k n) < unat k"
proof (cases "k = 0")
  case False
  then have "Suc (rest_of_batch k n) \<le> unat k" using batches_Suc(1) [of k n] by linarith
  moreover have "unat k < 2 ^ 64" by (rule order.strict_trans2 [OF unsigned_less]) simp
  ultimately have "Suc (rest_of_batch k n) < 2 ^ 64" by simp
  then have "unat (of_nat (Suc (rest_of_batch k n)) :: u64) = Suc (rest_of_batch k n)"
    by (simp add: unat_of_nat del: of_nat_Suc)
  then show ?thesis by (simp add: word_less_nat_alt add.commute)
qed simp


section \<open>Storing records\<close>

text \<open>
  A writing phase that has stored the records \<open>rs\<close>: a session with the writer, which works, with
  the commits the interval asks for and the counters to show it. \<open>tally\<close> are the counters of
  commands and events; \<open>fs0\<close> are the other files.
\<close>

definition tallied :: "string \<Rightarrow> u64 \<times> u64 \<Rightarrow> u64 \<Rightarrow> nat \<Rightarrow> ('d :: zero) PhaseMeasurement" where
  "tallied name tally commits n =
     \<lparr>ph_name = name, ph_command_count = fst tally, ph_event_count = snd tally,
      ph_record_count = of_nat n, ph_commit_count = commits, ph_byte_count = 0, ph_elapsed_seconds = 0\<rparr>"

definition working :: "WalSegmentWriter \<Rightarrow> bool" where
  "working w \<longleftrightarrow> w_writer_error w = NoError \<and> \<not> o_fail (w_file w)"

definition storing ::
  "path \<Rightarrow> u64 \<Rightarrow> u64 \<Rightarrow> (path \<Rightarrow> fs_node option) \<Rightarrow> string \<Rightarrow> (nat \<Rightarrow> u64 \<times> u64) \<Rightarrow> log_record list \<Rightarrow>
   ('d :: zero) write_phase \<Rightarrow> wal_session \<Rightarrow> bool" where
  "storing p s k fs0 name tally rs wp x \<longleftrightarrow>
     session_ok record_fits 0 p s benchmark_epoch bench_first_sequence x \<and>
     wp_writer wp = ses_writer x \<and> wp_files wp = ses_files x \<and> working (ses_writer x) \<and>
     ses_accepted x = rs \<and> length rs - length (ses_committed x) = rest_of_batch k (length rs) \<and>
     wp_since wp = of_nat (rest_of_batch k (length rs)) \<and>
     wp_measurement wp = tallied name (tally (length rs)) (of_nat (batches k (length rs))) (length rs) \<and>
     (\<forall>q. q \<noteq> p \<longrightarrow> wp_files wp q = fs0 q)"

lemma appended_working:
  assumes "segment_append pb t payload w = (result, w')" "append_status result = Appended"
  shows "working w'"
  using assms
  by (auto simp: segment_append_def write_record_def working_def Let_def fail_writer_def split: if_splits)

lemma committed_prefix:
  assumes "session_ok good base p s e first x"
  shows "prefix (ses_committed x) (ses_accepted x)"
  using assms by (simp add: session_ok_def counters_ok_def Let_def)

lemma commit_step:
  assumes ok: "session_ok record_fits 0 p s benchmark_epoch bench_first_sequence x"
    and commit: "segment_commit (ses_files x) (ses_writer x) = (result, w, fs)" "commit_status result = Committed"
  shows "session_ok record_fits 0 p s benchmark_epoch bench_first_sequence (session_step Commit x)"
    "ses_files (session_step Commit x) = fs" "ses_writer (session_step Commit x) = w" "working w"
    "ses_accepted (session_step Commit x) = ses_accepted x" "ses_committed (session_step Commit x) = ses_accepted x"
    "q \<noteq> p \<Longrightarrow> fs q = ses_files x q"
proof -
  have path: "w_file_path (ses_writer x) = p"
    using ok unfolding session_ok_def counters_ok_def Let_def by blast
  show "q \<noteq> p \<Longrightarrow> fs q = ses_files x q"
    using commit_other [of q "ses_writer x" "ses_files x"] commit(1) path by simp
qed (use commit session_ok_commit [OF ok] committed_error_free [OF commit] in \<open>simp_all add: working_def\<close>)

text \<open>One round of the loop.\<close>

lemma store_round:
  assumes st: "storing p s k fs0 name tally rs wp x" and fits: "record_fits (pb, t, payload)"
    and app: "segment_append pb t payload (wp_writer wp) = (result, w)" "append_status result = Appended"
    and bump: "bump (tallied name (tally (length rs)) (of_nat (batches k (length rs))) (length rs)) =
      tallied name (tally (Suc (length rs))) (of_nat (batches k (length rs))) (Suc (length rs))"
    and commit: "commit_if_interval_is_reached k message
        (wp\<lparr>wp_writer := w, wp_since := wp_since wp + 1, wp_measurement := bump (wp_measurement wp)\<rparr>) = (None, wp')"
  shows "\<exists>x'. storing p s k fs0 name tally (rs @ [(pb, t, payload)]) wp' x'"
proof -
  note s = st [unfolded storing_def]
  let ?y = "session_step (Append pb t payload) x" and ?n = "length rs"
  have y: "session_ok record_fits 0 p s benchmark_epoch bench_first_sequence ?y"
    using session_ok_append s fits by blast
  have yf: "ses_writer ?y = w" "ses_files ?y = ses_files x" "ses_accepted ?y = rs @ [(pb, t, payload)]"
    "ses_committed ?y = ses_committed x" "working w"
    using app s appended_working [OF app] by simp_all
  have le: "length (ses_committed x) \<le> ?n" using committed_prefix [of record_fits 0 p] s by (metis prefix_length_le)
  have since: "wp_since wp = of_nat (rest_of_batch k ?n)" and frame: "\<forall>q. q \<noteq> p \<longrightarrow> ses_files x q = fs0 q"
    using s by auto
  show ?thesis
  proof (cases "k = 0 \<or> Suc (rest_of_batch k ?n) < unat k")
    case True
    then have "k = 0 \<or> wp_since wp + 1 < k" using interval_reached [of k ?n] since by simp
    then have "wp' = wp\<lparr>wp_writer := w, wp_since := wp_since wp + 1, wp_measurement := bump (wp_measurement wp)\<rparr>"
      using commit by (simp add: commit_if_interval_is_reached_def)
    then have "storing p s k fs0 name tally (rs @ [(pb, t, payload)]) wp' ?y"
      using s y yf le frame bump batches_Suc(2) [OF True] unfolding storing_def
      by (simp add: Suc_diff_le add.commute del: session_step.simps)
    then show ?thesis by blast
  next
    case False
    then have k: "k \<noteq> 0" "Suc (rest_of_batch k ?n) = unat k" using batches_Suc(1) [of k ?n] by blast+
    have "\<not> (k = 0 \<or> wp_since wp + 1 < k)" using False interval_reached [of k ?n] since by simp
    moreover obtain res w2 fs2 where c: "segment_commit (ses_files x) w = (res, w2, fs2)" by (metis prod_cases3)
    ultimately have ok: "commit_status res = Committed" and
      wp': "wp' = wp\<lparr>wp_writer := w2, wp_since := 0, wp_files := fs2,
        wp_measurement := (bump (wp_measurement wp))\<lparr>ph_commit_count := ph_commit_count (bump (wp_measurement wp)) + 1\<rparr>\<rparr>"
      using commit s by (auto simp: commit_if_interval_is_reached_def wal_commit_def split: if_splits)
    note z = commit_step [OF y, unfolded yf, OF c ok]
    have "storing p s k fs0 name tally (rs @ [(pb, t, payload)]) wp' (session_step Commit ?y)"
      using s z frame bump batches_Suc(3) [OF k] unfolding storing_def wp'
      by (simp add: tallied_def del: session_step.simps)
    then show ?thesis by blast
  qed
qed


lemma store_records_stores:
  assumes "storing p s k fs0 name tally rs wp x"
    and "store_records encode t bump append_failure commit_failure k pads n xs wp = (None, wp')"
    and len: "\<And>pad x. length (encode pad x) = len" "len < 2 ^ 32 - 64"
    and bump: "\<And>c n. bump (tallied name (tally n) c n) = tallied name (tally (Suc n)) c (Suc n)"
  shows "\<exists>x'. storing p s k fs0 name tally (rs @ log_entries encode t pads n xs) wp' x'"
  using assms(1,2)
proof (induction xs arbitrary: n rs wp x)
  case Nil
  then show ?case by auto
next
  case (Cons a xs)
  let ?r = "(fst (pads n), t, encode (snd (pads n)) a)"
  obtain result w where app: "segment_append (fst (pads n)) t (encode (snd (pads n)) a) (wp_writer wp) = (result, w)"
    by (cases "segment_append (fst (pads n)) t (encode (snd (pads n)) a) (wp_writer wp)")
  let ?wp1 = "wp\<lparr>wp_writer := w, wp_since := wp_since wp + 1, wp_measurement := bump (wp_measurement wp)\<rparr>"
  obtain message wp2 where c: "commit_if_interval_is_reached k commit_failure ?wp1 = (message, wp2)"
    by (cases "commit_if_interval_is_reached k commit_failure ?wp1")
  have ok: "append_status result = Appended" "message = None"
    and rest: "store_records encode t bump append_failure commit_failure k pads (Suc n) xs wp2 = (None, wp')"
    using Cons.prems(2) app c
    by (auto simp: append_storage_record_def append_record_def split: if_splits option.splits)
  have "record_fits ?r" using len by (simp add: record_fits_def payload_fits_def)
  from store_round [OF Cons.prems(1) this app ok(1) bump c [unfolded ok(2)]]
  obtain y where "storing p s k fs0 name tally (rs @ [?r]) wp2 y" by blast
  from Cons.IH [OF this rest] show ?case by simp
qed

lemma appended_working_before:
  assumes "segment_append pb t payload w = (result, w')" "append_status result = Appended"
  shows "working w"
  using assms by (auto simp: segment_append_def working_def split: if_splits)

lemma store_records_working:
  assumes "store_records encode t bump append_failure commit_failure k pads n xs wp = (None, wp')" "xs \<noteq> []"
  shows "working (wp_writer wp)"
proof (cases xs)
  case (Cons a as)
  obtain result w where app: "segment_append (fst (pads n)) t (encode (snd (pads n)) a) (wp_writer wp) = (result, w)"
    by (cases "segment_append (fst (pads n)) t (encode (snd (pads n)) a) (wp_writer wp)")
  then have "append_status result = Appended"
    using assms(1) Cons by (auto simp: append_storage_record_def append_record_def split: if_splits)
  then show ?thesis using appended_working_before [OF app] by simp
qed (use assms in simp)

lemma storing_start:
  assumes new: "new_segment_writer fs1 outcomes p s benchmark_epoch bench_first_sequence = Some (w, fs2)"
    and "fs1 p = None" "working w" "m = tallied name (tally 0) 0 0"
  shows "storing p s k fs2 name tally [] \<lparr>wp_files = fs2, wp_writer = w, wp_since = 0, wp_measurement = m\<rparr>
    (start_session [] fs2 w)"
  using new_writer_session [OF new assms(2)] assms(3,4)
  by (simp add: storing_def start_session_def rest_of_batch_def batches_def working_def)

text \<open>The end of a phase: everything is committed, and the file is the log.\<close>

definition commits_needed :: "u64 \<Rightarrow> nat \<Rightarrow> nat" where
  "commits_needed k n = batches k n + (if rest_of_batch k n = 0 then 0 else 1)"

lemma rest_word_zero: "n < 2 ^ 64 \<Longrightarrow> (of_nat (rest_of_batch k n) :: u64) = 0 \<longleftrightarrow> rest_of_batch k n = 0"
proof -
  assume "n < 2 ^ 64"
  then have "rest_of_batch k n < 2 ^ 64" using rest_le [of k n] by linarith
  then show ?thesis by (simp add: word_unat_eq_iff unat_of_nat)
qed

lemma commit_remaining:
  assumes st: "storing p s k fs0 name tally rs wp x" and rs: "rs \<noteq> []" "length rs < 2 ^ 64"
    and c: "commit_remaining_records message wp = (None, wp')"
  shows "file_bytes (wp_files wp') p = Some (segment_bytes s benchmark_epoch bench_first_sequence rs)"
    "file_bytes (close_segment_writer (wp_files wp') (wp_writer wp')) p =
      Some (segment_bytes s benchmark_epoch bench_first_sequence rs)"
    "w_file_path (wp_writer wp') = p" "q \<noteq> p \<Longrightarrow> wp_files wp' q = fs0 q"
    "wp_measurement wp' = tallied name (tally (length rs)) (of_nat (commits_needed k (length rs))) (length rs)"
proof -
  note st' = st [unfolded storing_def]
  have "\<exists>y. session_ok record_fits 0 p s benchmark_epoch bench_first_sequence y \<and>
      wp_writer wp' = ses_writer y \<and> wp_files wp' = ses_files y \<and> working (ses_writer y) \<and>
      ses_accepted y = rs \<and> ses_committed y = rs \<and> (\<forall>q. q \<noteq> p \<longrightarrow> ses_files y q = fs0 q) \<and>
      wp_measurement wp' = tallied name (tally (length rs)) (of_nat (commits_needed k (length rs))) (length rs)"
  proof (cases "rest_of_batch k (length rs) = 0")
    case True
    have "prefix (ses_committed x) rs" using committed_prefix [of record_fits 0 p] st' by metis
    moreover have "length rs - length (ses_committed x) = 0" using st' True by simp
    ultimately have "ses_committed x = rs" by (auto simp: prefix_def)
    moreover have "wp' = wp" using c st' True by (simp add: commit_remaining_records_def)
    ultimately show ?thesis using st' True by (intro exI [of _ x]) (auto simp: commits_needed_def)
  next
    case False
    then have since: "wp_since wp \<noteq> 0" using st' rest_word_zero [OF rs(2), of k] by simp
    obtain result w fs where commit: "segment_commit (ses_files x) (ses_writer x) = (result, w, fs)"
      by (metis prod_cases3)
    then have ok: "commit_status result = Committed" and
      wp': "wp' = wp\<lparr>wp_files := fs, wp_writer := w, wp_measurement := (wp_measurement wp)
        \<lparr>ph_commit_count := ph_commit_count (wp_measurement wp) + 1\<rparr>\<rparr>"
      using c since st' by (auto simp: commit_remaining_records_def wal_commit_def split: if_splits)
    have "session_ok record_fits 0 p s benchmark_epoch bench_first_sequence x" using st' by blast
    note y = commit_step [OF this commit ok]
    have "\<forall>q. q \<noteq> p \<longrightarrow> fs q = fs0 q" using y(7) st' by auto
    then show ?thesis
      using st' y(1-6) False
      by (intro exI [of _ "session_step Commit x"])
        (simp add: wp' commits_needed_def tallied_def add.commute del: session_step.simps)
  qed
  then obtain y where y: "session_ok record_fits 0 p s benchmark_epoch bench_first_sequence y"
    "wp_writer wp' = ses_writer y" "wp_files wp' = ses_files y" "working (ses_writer y)"
    "ses_accepted y = rs" "ses_committed y = rs" "\<forall>q. q \<noteq> p \<longrightarrow> ses_files y q = fs0 q"
    "wp_measurement wp' = tallied name (tally (length rs)) (of_nat (commits_needed k (length rs))) (length rs)"
    by blast
  show "w_file_path (wp_writer wp') = p"
    using y(1) unfolding y(2) session_ok_def counters_ok_def Let_def by blast
  show "q \<noteq> p \<Longrightarrow> wp_files wp' q = fs0 q" using y(3,7) by simp
  show "wp_measurement wp' = tallied name (tally (length rs)) (of_nat (commits_needed k (length rs))) (length rs)"
    by (rule y(8))
  from settled_log [OF y(1)] show
    "file_bytes (wp_files wp') p = Some (segment_bytes s benchmark_epoch bench_first_sequence rs)"
    "file_bytes (close_segment_writer (wp_files wp') (wp_writer wp')) p =
      Some (segment_bytes s benchmark_epoch bench_first_sequence rs)"
    using y rs(1) by (simp_all add: working_def)
qed

lemma file_size_of: "file_bytes fs p = Some bs \<Longrightarrow> file_size_or_zero fs p = Some (of_nat (length bs))"
  by (cases "fs p" rule: option.exhaust; cases "the (fs p)")
    (auto simp: file_bytes_def file_size_or_zero_def)

lemma end_phase:
  assumes "storing p s k fs0 name tally rs wp x" "rs \<noteq> []" "length rs < 2 ^ 64"
    and e: "end_write_phase elapsed p final_failure check (None, wp) = Some (True, m, message, fs')"
  shows "file_bytes fs' p = Some (segment_bytes s benchmark_epoch bench_first_sequence rs)"
    "q \<noteq> p \<Longrightarrow> fs' q = fs0 q"
    "m = (tallied name (tally (length rs)) (of_nat (commits_needed k (length rs))) (length rs))
      \<lparr>ph_elapsed_seconds := elapsed,
       ph_byte_count := of_nat (length (segment_bytes s benchmark_epoch bench_first_sequence rs))\<rparr>"
proof -
  obtain result wp' where c: "commit_remaining_records final_failure wp = (result, wp')"
    by (cases "commit_remaining_records final_failure wp")
  then have ok: "result = None"
    using e by (auto simp: end_write_phase_def leave_phase_def split: option.splits)
  note r = commit_remaining [OF assms(1-3) c [unfolded ok]]
  have "fs' = close_segment_writer (wp_files wp') (wp_writer wp')" and
    m: "m = (wp_measurement wp')\<lparr>ph_elapsed_seconds := elapsed,
       ph_byte_count := of_nat (length (segment_bytes s benchmark_epoch bench_first_sequence rs))\<rparr>"
    using e c ok file_size_of [OF r(1)]
    by (auto simp: end_write_phase_def leave_phase_def split: option.splits)
  then show "file_bytes fs' p = Some (segment_bytes s benchmark_epoch bench_first_sequence rs)"
    "q \<noteq> p \<Longrightarrow> fs' q = fs0 q"
    using r(2,4) close_writer_other [of q "wp_writer wp'" "wp_files wp'"] r(3) by simp_all
  show "m = (tallied name (tally (length rs)) (of_nat (commits_needed k (length rs))) (length rs))
      \<lparr>ph_elapsed_seconds := elapsed,
       ph_byte_count := of_nat (length (segment_bytes s benchmark_epoch bench_first_sequence rs))\<rparr>"
    by (simp only: m r(5))
qed


text \<open>What a writing phase that returned true has done.\<close>

lemma write_phase:
  assumes rm: "remove_path fs p = Some fs1"
    and new: "new_segment_writer fs1 outcomes p s benchmark_epoch bench_first_sequence = Some (w, fs2)"
    and e: "end_write_phase elapsed p final_failure check
      (store_records encode t bump append_failure commit_failure k pads 0 xs
        \<lparr>wp_files = fs2, wp_writer = w, wp_since = 0, wp_measurement = tallied name (tally 0) 0 0\<rparr>)
      = Some (True, m, message, fs')"
    and len: "\<And>pad x. length (encode pad x) = len" "len < 2 ^ 32 - 64"
    and bump: "\<And>c n. bump (tallied name (tally n) c n) = tallied name (tally (Suc n)) c (Suc n)"
    and xs: "xs \<noteq> []" "length xs < 2 ^ 64"
  shows "file_bytes fs' p = Some (segment_bytes s benchmark_epoch bench_first_sequence (log_entries encode t pads 0 xs))"
    "q \<noteq> p \<Longrightarrow> fs q = Some node \<Longrightarrow> fs' q = Some node"
    "m = (tallied name (tally (length xs)) (of_nat (commits_needed k (length xs))) (length xs))
      \<lparr>ph_elapsed_seconds := elapsed,
       ph_byte_count := of_nat (length (segment_bytes s benchmark_epoch bench_first_sequence (log_entries encode t pads 0 xs)))\<rparr>"
proof -
  let ?wp = "\<lparr>wp_files = fs2, wp_writer = w, wp_since = 0, wp_measurement = tallied name (tally 0) 0 0\<rparr>"
  obtain result wp where st: "store_records encode t bump append_failure commit_failure k pads 0 xs ?wp = (result, wp)"
    by (cases "store_records encode t bump append_failure commit_failure k pads 0 xs ?wp")
  then have ok: "result = None" using e by (auto simp: end_write_phase_def leave_phase_def split: option.splits)
  have w: "working w" using store_records_working [OF st [unfolded ok] xs(1)] by simp
  have "storing p s k fs2 name tally [] ?wp (start_session [] fs2 w)"
    by (rule storing_start [OF new _ w refl]) (use rm in \<open>auto simp: remove_path_def split: if_splits\<close>)
  from store_records_stores [OF this st [unfolded ok] len bump]
  obtain x where x: "storing p s k fs2 name tally (log_entries encode t pads 0 xs) wp x" by auto
  have ne: "log_entries encode t pads 0 xs \<noteq> []" "length (log_entries encode t pads 0 xs) < 2 ^ 64"
    using xs by simp_all
  note finished = end_phase [OF x ne e [unfolded st ok]]
  show "file_bytes fs' p = Some (segment_bytes s benchmark_epoch bench_first_sequence (log_entries encode t pads 0 xs))"
    by (rule finished(1))
  show "m = (tallied name (tally (length xs)) (of_nat (commits_needed k (length xs))) (length xs))
      \<lparr>ph_elapsed_seconds := elapsed,
       ph_byte_count := of_nat (length (segment_bytes s benchmark_epoch bench_first_sequence (log_entries encode t pads 0 xs)))\<rparr>"
    using finished(3) by simp
  show "fs' q = Some node" if "q \<noteq> p" "fs q = Some node"
  proof -
    have "fs1 q = Some node" "fs1 p = None" using rm that by (auto simp: remove_path_def split: if_splits)
    then show ?thesis using finished(2) [OF that(1)] new_segment_writer_keeps [OF new] by simp
  qed
qed

section \<open>Reading and matching\<close>

lemma count_command_tallied:
  "count_command (tallied name (of_nat n, 0) c n) = tallied name (of_nat (Suc n), 0) c (Suc n)"
  by (simp add: count_command_def tallied_def add.commute)

lemma count_event_tallied:
  "count_event (tallied name (a, of_nat n) c n) = tallied name (a, of_nat (Suc n)) c (Suc n)"
  by (simp add: count_event_def tallied_def add.commute)

lemma next_command:
  assumes "stored_commands content r = (command # commands, e)"
  obtains result r' where "read_storage_record decode_command sizeof_command order_command_record_type content r =
      (result, Some command, r')"
    "read_status result = WalRecordRead" "stored_commands content r' = (commands, e)"
proof -
  obtain result found r' where s: "read_storage_record decode_command sizeof_command
      order_command_record_type content r = (result, found, r')"
    by (metis prod_cases3)
  then show ?thesis
    using stored_records_cases [OF s] assms that
    by (auto simp: stored_commands_def prod_eq_iff split: option.splits if_splits)
qed

lemma no_next_command:
  assumes "stored_commands content r = ([], EndOfLog)"
  obtains result found r' where "read_storage_record decode_command sizeof_command order_command_record_type
      content r = (result, found, r')" "read_status result = WalReadEnd"
proof -
  obtain result found r' where s: "read_storage_record decode_command sizeof_command
      order_command_record_type content r = (result, found, r')"
    by (metis prod_cases3)
  then show ?thesis
    using stored_records_cases [OF s] read_storage_record_Some [OF s] assms that
    by (auto simp: stored_commands_def split: option.splits if_splits)
qed

lemma read_only_loop_stored:
  assumes "stored_commands content r = (commands, EndOfLog)"
  shows "read_only_loop content r (tallied name (of_nat n, 0) c n) =
    (None, tallied name (of_nat (n + length commands), 0) c (n + length commands))"
  using assms
proof (induction commands arbitrary: r n)
  case Nil
  then show ?case by (subst read_only_loop.simps) (auto elim: no_next_command)
next
  case (Cons a as)
  obtain result r' where x: "read_storage_record decode_command sizeof_command order_command_record_type
      content r = (result, Some a, r')"
    "read_status result = WalRecordRead" "stored_commands content r' = (as, EndOfLog)"
    by (rule next_command [OF Cons.prems])
  then show ?case
    using Cons.IH [OF x(3), of "Suc n"]
    by (subst read_only_loop.simps) (simp add: count_command_tallied del: of_nat_Suc)
qed

lemma matcher_loop_run:
  "matcher_loop commands engine collected =
    (let events = fst (run_commands engine_apply engine commands); m = mat_measurement collected
     in \<lparr>mat_events = mat_events collected @ events,
         mat_measurement = m\<lparr>ph_command_count := ph_command_count m + of_nat (length commands),
           ph_event_count := ph_event_count m + of_nat (length events)\<rparr>\<rparr>)"
  by (induction commands engine collected rule: matcher_loop.induct)
    (auto simp: Let_def add.assoc split: prod.splits)

lemma log_entries_append:
  "log_entries encode t pads n (xs @ ys) = log_entries encode t pads n xs @ log_entries encode t pads (n + length xs) ys"
  by (induction encode t pads n xs rule: log_entries.induct) simp_all

lemma storing_command:
  assumes "storing p s k fs0 name (\<lambda>n. (c, of_nat n)) rs wp x"
  shows "storing p s k fs0 name (\<lambda>n. (c + 1, of_nat n)) rs
    (wp\<lparr>wp_measurement := (wp_measurement wp)\<lparr>ph_command_count := ph_command_count (wp_measurement wp) + 1\<rparr>\<rparr>) x"
  using assms by (auto simp: storing_def tallied_def)


text \<open>The body of the pipeline's loop on one command.\<close>

abbreviation pipeline_store ::
  "u64 \<Rightarrow> (nat \<Rightarrow> u32 \<times> u32) \<Rightarrow> nat \<Rightarrow> ExecutionEventRecordV1 list \<Rightarrow> 'd write_phase \<Rightarrow> string option \<times> 'd write_phase" where
  "pipeline_store k pads n events wp \<equiv>
     store_records encode_event execution_event_record_type count_event
       (\<lambda>e. ''event WAL pipeline append failed at event sequence '' @ show_word (e_event_sequence e))
       ''event WAL pipeline commit failed'' k pads n events
       (wp\<lparr>wp_measurement := (wp_measurement wp)\<lparr>ph_command_count := ph_command_count (wp_measurement wp) + 1\<rparr>\<rparr>)"

lemma pipeline_loop_end:
  assumes "stored_commands content r = ([], EndOfLog)"
  shows "pipeline_loop content r engine k pads n wp = (None, wp)"
  by (rule no_next_command [OF assms], subst pipeline_loop.simps) simp

lemma pipeline_loop_command:
  assumes "stored_commands content r = (a # as, e)" "engine_apply engine a = (events, engine')"
  obtains r' where "stored_commands content r' = (as, e)"
    "pipeline_loop content r engine k pads n wp =
      (case pipeline_store k pads n events wp of
         (Some message, wp') \<Rightarrow> (Some message, wp')
       | (None, wp') \<Rightarrow> pipeline_loop content r' engine' k pads (n + length events) wp')"
proof -
  obtain result r' where r': "read_storage_record decode_command sizeof_command order_command_record_type
      content r = (result, Some a, r')"
    "read_status result = WalRecordRead" "stored_commands content r' = (as, e)"
    by (rule next_command [OF assms(1)])
  show ?thesis
    by (rule that [OF r'(3)], subst pipeline_loop.simps) (simp add: r'(1,2) assms(2))
qed

lemma pipeline_loop_stores:
  assumes "stored_commands content r = (commands, EndOfLog)"
    and "storing p s k fs0 name (\<lambda>n. (c, of_nat n)) rs wp x"
    and "pipeline_loop content r engine k pads n wp = (None, wp')"
  shows "\<exists>x'. storing p s k fs0 name (\<lambda>n. (c + of_nat (length commands), of_nat n))
    (rs @ log_entries encode_event execution_event_record_type pads n
      (fst (run_commands engine_apply engine commands))) wp' x'"
  using assms
proof (induction commands arbitrary: r engine n wp c rs x)
  case Nil
  then show ?case by (auto simp: pipeline_loop_end)
next
  case (Cons a as)
  obtain events engine' where g: "engine_apply engine a = (events, engine')" by (cases "engine_apply engine a")
  obtain r' where r': "stored_commands content r' = (as, EndOfLog)"
    and loop: "pipeline_loop content r engine k pads n wp =
      (case pipeline_store k pads n events wp of
         (Some message, wp') \<Rightarrow> (Some message, wp')
       | (None, wp') \<Rightarrow> pipeline_loop content r' engine' k pads (n + length events) wp')"
    by (rule pipeline_loop_command [OF Cons.prems(1) g])
  obtain wp2 where st: "pipeline_store k pads n events wp = (None, wp2)"
    and rest: "pipeline_loop content r' engine' k pads (n + length events) wp2 = (None, wp')"
    using Cons.prems(3) unfolding loop by (auto split: prod.splits option.splits)
  obtain y where "storing p s k fs0 name (\<lambda>n. (c + 1, of_nat n))
      (rs @ log_entries encode_event execution_event_record_type pads n events) wp2 y"
    using store_records_stores [OF storing_command [OF Cons.prems(2)] st event_codec.length_encode _ count_event_tallied]
    by (auto simp: sizeof_event_def)
  from Cons.IH [OF r' this rest] show ?case
    using g by (simp add: log_entries_append add.assoc split_beta Let_def)
qed

lemma pipeline_loop_working:
  assumes "stored_commands content r = (commands, EndOfLog)" "commands \<noteq> []" "engine_inv engine"
    and "pipeline_loop content r engine k pads n wp = (None, wp')"
  shows "working (wp_writer wp)"
proof -
  obtain a as where as: "commands = a # as" using assms(2) by (cases commands) auto
  obtain events engine' where g: "engine_apply engine a = (events, engine')" by (cases "engine_apply engine a")
  have ne: "events \<noteq> []" using engine_apply_answers [OF assms(3), of a] g by simp
  obtain r' where loop: "pipeline_loop content r engine k pads n wp =
      (case pipeline_store k pads n events wp of
         (Some message, wp') \<Rightarrow> (Some message, wp')
       | (None, wp') \<Rightarrow> pipeline_loop content r' engine' k pads (n + length events) wp')"
    by (rule pipeline_loop_command [OF assms(1) [unfolded as] g])
  obtain wp2 where "pipeline_store k pads n events wp = (None, wp2)"
    using assms(4) unfolding loop by (auto split: prod.splits option.splits)
  from store_records_working [OF this ne] show ?thesis by simp
qed

section \<open>Accepting devices\<close>

lemma commit_if_accepting:
  assumes "accepting (wp_writer wp)"
  obtains wp' where "commit_if_interval_is_reached k message wp = (None, wp')" "accepting (wp_writer wp')"
proof (cases "k = 0 \<or> wp_since wp < k")
  case True
  then show ?thesis using assms that [of wp] by (simp add: commit_if_interval_is_reached_def)
next
  case False
  obtain result w fs where c: "segment_commit (wp_files wp) (wp_writer wp) = (result, w, fs)" by (metis prod_cases3)
  let ?wp' = "wp\<lparr>wp_files := fs, wp_writer := w, wp_since := 0, wp_measurement := (wp_measurement wp)
      \<lparr>ph_commit_count := ph_commit_count (wp_measurement wp) + 1\<rparr>\<rparr>"
  have "commit_if_interval_is_reached k message wp = (None, ?wp')" "accepting (wp_writer ?wp')"
    using False c commit_accepting [OF assms, of "wp_files wp"]
    by (simp_all add: commit_if_interval_is_reached_def wal_commit_def)
  then show ?thesis by (rule that)
qed

lemma store_records_accepting:
  assumes "accepting (wp_writer wp)"
  shows "\<exists>wp'. store_records encode t bump append_failure commit_failure k pads n xs wp = (None, wp') \<and>
    accepting (wp_writer wp')"
  using assms
proof (induction xs arbitrary: n wp)
  case (Cons a xs)
  obtain result w where app: "segment_append (fst (pads n)) t (encode (snd (pads n)) a) (wp_writer wp) = (result, w)"
    by (cases "segment_append (fst (pads n)) t (encode (snd (pads n)) a) (wp_writer wp)")
  then have ok: "append_status result = Appended" "accepting w"
    using append_accepting [OF Cons.prems, of "fst (pads n)" t "encode (snd (pads n)) a"] by simp_all
  let ?wp1 = "wp\<lparr>wp_writer := w, wp_since := wp_since wp + 1, wp_measurement := bump (wp_measurement wp)\<rparr>"
  obtain wp2 where "commit_if_interval_is_reached k commit_failure ?wp1 = (None, wp2)" "accepting (wp_writer wp2)"
    using commit_if_accepting [of ?wp1] ok(2) by auto
  then show ?case
    using Cons.IH app ok(1) by (simp add: append_storage_record_def append_record_def)
qed simp

lemma pipeline_loop_accepting:
  assumes "stored_commands content r = (commands, EndOfLog)" "accepting (wp_writer wp)"
  shows "\<exists>wp'. pipeline_loop content r engine k pads n wp = (None, wp') \<and> accepting (wp_writer wp')"
  using assms
proof (induction commands arbitrary: r engine n wp)
  case Nil
  then show ?case by (auto simp: pipeline_loop_end)
next
  case (Cons a as)
  obtain events engine' where g: "engine_apply engine a = (events, engine')" by (cases "engine_apply engine a")
  obtain r' where r': "stored_commands content r' = (as, EndOfLog)"
    and loop: "pipeline_loop content r engine k pads n wp =
      (case pipeline_store k pads n events wp of
         (Some message, wp') \<Rightarrow> (Some message, wp')
       | (None, wp') \<Rightarrow> pipeline_loop content r' engine' k pads (n + length events) wp')"
    by (rule pipeline_loop_command [OF Cons.prems(1) g])
  obtain wp2 where st: "pipeline_store k pads n events wp = (None, wp2)" "accepting (wp_writer wp2)"
    using store_records_accepting [of "wp\<lparr>wp_measurement := (wp_measurement wp)
      \<lparr>ph_command_count := ph_command_count (wp_measurement wp) + 1\<rparr>\<rparr>"] Cons.prems(2)
    by fastforce
  from Cons.IH [OF r' st(2)] show ?case using st(1) by (simp add: loop)
qed


section \<open>Sizes\<close>

lemma length_log_bytes:
  assumes "\<And>pad x. length (encode pad x) = len" "8 dvd len" "len < 2 ^ 32 - 64"
  shows "length (log_bytes s e q (log_entries encode t pads n xs)) = length xs * (56 + len)"
proof -
  have "record_padding (encode pad x) = 0" for pad x
    using record_padding_zero [of "encode pad x"] assms by (simp add: payload_fits_def)
  then show ?thesis
    using assms(1)
    by (induction encode t pads n xs arbitrary: q rule: log_entries.induct) (simp_all add: length_record_bytes)
qed

lemma length_stored_log:
  assumes "\<And>pad x. length (encode pad x) = len" "8 dvd len" "len < 2 ^ 32 - 64"
  shows "length (segment_bytes s e q (log_entries encode t pads n xs)) = 40 + length xs * (56 + len)"
  using length_log_bytes [where encode = encode and len = len, OF assms]
  by (simp add: segment_bytes_def segment_header_codec.length_encode sizeof_segment_header_def)

section \<open>The phases of a run\<close>

lemma new_measurement_tallied:
  "(new_measurement :: ('d :: zero) PhaseMeasurement)\<lparr>ph_name := name\<rparr> = tallied name (of_nat 0, of_nat 0) 0 0"
  by (simp add: new_measurement_def tallied_def)

text \<open>A phase that wrote a log: the file, the other files, the counters.\<close>

lemma write_command_wal_ok:
  assumes run: "write_command_wal elapsed fs outcomes pads p commands k new_measurement = Some (True, m, message, fs')"
    and xs: "commands \<noteq> []" "length commands < 2 ^ 64"
  shows "file_bytes fs' p = Some (segment_bytes bench_command_stream_id benchmark_epoch bench_first_sequence
      (log_entries encode_command order_command_record_type pads 0 commands))"
    "q \<noteq> p \<Longrightarrow> fs q = Some node \<Longrightarrow> fs' q = Some node"
    "m = (tallied ''command_wal_write'' (of_nat (length commands), 0)
        (of_nat (commits_needed k (length commands))) (length commands))
      \<lparr>ph_elapsed_seconds := elapsed, ph_byte_count := of_nat (40 + 136 * length commands)\<rparr>"
proof -
  obtain fs1 w fs2 where rm: "remove_path fs p = Some fs1"
    and new: "new_segment_writer fs1 outcomes p bench_command_stream_id benchmark_epoch bench_first_sequence = Some (w, fs2)"
    using run by (auto simp: write_command_wal_def split: option.splits)
  note e = run [unfolded write_command_wal_def rm new option.case prod.case new_measurement_tallied]
  have len: "length (encode_command pad c) = sizeof_command" for pad c by (rule command_codec.length_encode)
  have e': "end_write_phase elapsed p ''command WAL final commit failed'' (\<lambda>_. None)
      (store_records encode_command order_command_record_type count_command
        (\<lambda>c. ''command WAL append failed at sequence '' @ show_word (c_command_sequence c))
        ''command WAL commit failed'' k pads 0 commands
        \<lparr>wp_files = fs2, wp_writer = w, wp_since = 0,
         wp_measurement = tallied ''command_wal_write'' ((\<lambda>n. (of_nat n, 0)) 0) 0 0\<rparr>) = Some (True, m, message, fs')"
    using e by simp
  note r = write_phase [where tally = "\<lambda>n. (of_nat n, 0)", OF rm new e' len _ count_command_tallied xs]
  show "file_bytes fs' p = Some (segment_bytes bench_command_stream_id benchmark_epoch bench_first_sequence
      (log_entries encode_command order_command_record_type pads 0 commands))"
    by (rule r(1)) (simp add: sizeof_command_def)
  show "q \<noteq> p \<Longrightarrow> fs q = Some node \<Longrightarrow> fs' q = Some node"
    by (rule r(2)) (simp_all add: sizeof_command_def)
  show "m = (tallied ''command_wal_write'' (of_nat (length commands), 0)
        (of_nat (commits_needed k (length commands))) (length commands))
      \<lparr>ph_elapsed_seconds := elapsed, ph_byte_count := of_nat (40 + 136 * length commands)\<rparr>"
    using r(3) length_stored_log [where encode = encode_command, OF len]
    by (simp add: sizeof_command_def mult.commute)
qed

lemma measure_event_wal_append_ok:
  assumes run: "measure_event_wal_append elapsed fs outcomes pads p events k new_measurement = Some (True, m, message, fs')"
    and xs: "events \<noteq> []" "length events < 2 ^ 64"
  shows "file_bytes fs' p = Some (segment_bytes bench_event_stream_id benchmark_epoch bench_first_sequence
      (log_entries encode_event execution_event_record_type pads 0 events))"
    "q \<noteq> p \<Longrightarrow> fs q = Some node \<Longrightarrow> fs' q = Some node"
    "m = (tallied ''event_wal_append'' (0, of_nat (length events))
        (of_nat (commits_needed k (length events))) (length events))
      \<lparr>ph_elapsed_seconds := elapsed, ph_byte_count := of_nat (40 + 152 * length events)\<rparr>"
proof -
  obtain fs1 w fs2 where rm: "remove_path fs p = Some fs1"
    and new: "new_segment_writer fs1 outcomes p bench_event_stream_id benchmark_epoch bench_first_sequence = Some (w, fs2)"
    using run by (auto simp: measure_event_wal_append_def split: option.splits)
  note e = run [unfolded measure_event_wal_append_def rm new option.case prod.case new_measurement_tallied]
  have len: "length (encode_event pad c) = sizeof_event" for pad c by (rule event_codec.length_encode)
  have e': "end_write_phase elapsed p ''event WAL final commit failed'' (\<lambda>_. None)
      (store_records encode_event execution_event_record_type count_event
        (\<lambda>e. ''event WAL append failed at event sequence '' @ show_word (e_event_sequence e))
        ''event WAL commit failed'' k pads 0 events
        \<lparr>wp_files = fs2, wp_writer = w, wp_since = 0,
         wp_measurement = tallied ''event_wal_append'' ((\<lambda>n. (0, of_nat n)) 0) 0 0\<rparr>) = Some (True, m, message, fs')"
    using e by simp
  note r = write_phase [where tally = "\<lambda>n. (0, of_nat n)", OF rm new e' len _ count_event_tallied xs]
  show "file_bytes fs' p = Some (segment_bytes bench_event_stream_id benchmark_epoch bench_first_sequence
      (log_entries encode_event execution_event_record_type pads 0 events))"
    by (rule r(1)) (simp add: sizeof_event_def)
  show "q \<noteq> p \<Longrightarrow> fs q = Some node \<Longrightarrow> fs' q = Some node"
    by (rule r(2)) (simp_all add: sizeof_event_def)
  show "m = (tallied ''event_wal_append'' (0, of_nat (length events))
        (of_nat (commits_needed k (length events))) (length events))
      \<lparr>ph_elapsed_seconds := elapsed, ph_byte_count := of_nat (40 + 152 * length events)\<rparr>"
    using r(3) length_stored_log [where encode = encode_event, OF len]
    by (simp add: sizeof_event_def mult.commute)
qed


lemma pipeline_ok:
  fixes elapsed :: "'d :: zero"
  assumes run: "measure_read_match_event_pipeline elapsed fs outcomes pads cp p expected k new_measurement
      = Some (True, m, message, fs')"
    and commands: "file_bytes fs cp = Some content" "cp \<noteq> p"
      "stored_commands content (new_segment_reader (Some content)) = (commands, EndOfLog)" "commands \<noteq> []"
    and events: "events = fst (run_commands engine_apply (new_instrument_engine bench_first_sequence) commands)"
      "length events < 2 ^ 64"
  shows "file_bytes fs' p = Some (segment_bytes bench_event_stream_id benchmark_epoch bench_first_sequence
      (log_entries encode_event execution_event_record_type pads 0 events))"
    "q \<noteq> p \<Longrightarrow> fs q = Some node \<Longrightarrow> fs' q = Some node"
    "m = (tallied ''read_match_event_pipeline'' (of_nat (length commands), of_nat (length events))
        (of_nat (commits_needed k (length events))) (length events))
      \<lparr>ph_elapsed_seconds := elapsed, ph_byte_count := of_nat (40 + 152 * length events)\<rparr>"
proof -
  let ?rs = "log_entries encode_event execution_event_record_type pads 0 events"
  let ?g = "new_instrument_engine bench_first_sequence"
  obtain fs1 w fs2 where rm: "remove_path fs p = Some fs1"
    and new: "new_segment_writer fs1 outcomes p bench_event_stream_id benchmark_epoch bench_first_sequence = Some (w, fs2)"
    using run by (auto simp: measure_read_match_event_pipeline_def split: option.splits)
  have f1: "fs1 = fs(p := None)" using rm by (auto simp: remove_path_def split: if_splits)
  then have content: "file_content fs1 cp = content" "open_reader fs1 cp = new_segment_reader (Some content)"
    using commands(1,2) by (simp_all add: file_content_def open_reader_def file_bytes_def)
  let ?wp = "\<lparr>wp_files = fs2, wp_writer = w, wp_since = 0,
    wp_measurement = (tallied ''read_match_event_pipeline'' ((\<lambda>n. (of_nat 0, of_nat n)) 0) 0 0 :: 'd PhaseMeasurement)\<rparr>"
  let ?check = "\<lambda>m. if ph_event_count m \<noteq> expected
    then Some (''pipeline emitted '' @ show_word (ph_event_count m) @ '' events, expected '' @ show_word expected @ endl)
    else None"
  obtain result wp where loop: "pipeline_loop content (new_segment_reader (Some content)) ?g k pads 0 ?wp = (result, wp)"
    by (cases "pipeline_loop content (new_segment_reader (Some content)) ?g k pads 0 ?wp")
  have e: "end_write_phase elapsed p ''event WAL pipeline final commit failed'' ?check (result, wp)
      = Some (True, m, message, fs')"
    using run loop unfolding measure_read_match_event_pipeline_def rm new option.case prod.case
      new_measurement_tallied content by simp
  then have ok: "result = None" by (auto simp: end_write_phase_def leave_phase_def split: option.splits)
  note loop' = loop [unfolded ok]
  have "working w" using pipeline_loop_working [OF commands(3,4) engine_inv_new loop'] by simp
  then have "storing p bench_event_stream_id k fs2 ''read_match_event_pipeline'' (\<lambda>n. (of_nat 0, of_nat n)) []
      ?wp (start_session [] fs2 w)"
    by (intro storing_start [OF new]) (simp_all add: f1)
  from pipeline_loop_stores [OF commands(3) this loop']
  obtain x where x: "storing p bench_event_stream_id k fs2 ''read_match_event_pipeline''
      (\<lambda>n. (of_nat 0 + of_nat (length commands), of_nat n)) ?rs wp x"
    by (auto simp: events(1))
  have "length commands \<le> length events"
    using engine.answers_run [OF engine_inv_new [of bench_first_sequence], of commands] by (simp add: events(1))
  then have ne: "?rs \<noteq> []" "length ?rs < 2 ^ 64" using commands(4) events(2) by auto
  note r = end_phase [OF x ne e [unfolded ok]]
  have len: "length (encode_event pad c) = sizeof_event" for pad c by (rule event_codec.length_encode)
  show "file_bytes fs' p = Some (segment_bytes bench_event_stream_id benchmark_epoch bench_first_sequence ?rs)"
    by (rule r(1))
  show "fs' q = Some node" if "q \<noteq> p" "fs q = Some node"
    using r(2) [OF that(1)] new_segment_writer_keeps [OF new, of q node] that by (simp add: f1)
  show "m = (tallied ''read_match_event_pipeline'' (of_nat (length commands), of_nat (length events))
        (of_nat (commits_needed k (length events))) (length events))
      \<lparr>ph_elapsed_seconds := elapsed, ph_byte_count := of_nat (40 + 152 * length events)\<rparr>"
    using r(3) length_stored_log [where encode = encode_event, OF len]
    by (simp add: sizeof_event_def mult.commute)
qed

lemma read_only_ok:
  assumes "file_bytes fs p = Some content"
    and "stored_commands content (new_segment_reader (Some content)) = (commands, EndOfLog)"
  shows "measure_command_wal_read_only elapsed fs p new_measurement =
    Some (True, (tallied ''command_wal_read_only'' (of_nat (length commands), 0) 0 (length commands))
      \<lparr>ph_elapsed_seconds := elapsed, ph_byte_count := of_nat (length content)\<rparr>, [], fs)"
proof -
  have c: "file_content fs p = content" "open_reader fs p = new_segment_reader (Some content)"
    using assms(1) by (simp_all add: file_content_def open_reader_def)
  show ?thesis
    unfolding measure_command_wal_read_only_def c new_measurement_tallied
    by (simp add: file_size_of [OF assms(1)] read_only_loop_stored [OF assms(2), of _ 0, simplified])
qed

lemma matcher_only_ok:
  assumes "length commands * 3 \<le> vector_max_size sizeof_event"
    and "events = fst (run_commands engine_apply (new_instrument_engine bench_first_sequence) commands)"
  shows "measure_matcher_only elapsed commands =
    Some \<lparr>mat_events = events,
      mat_measurement = (tallied ''matcher_only_without_event_wal'' (of_nat (length commands), of_nat (length events)) 0 0)
        \<lparr>ph_elapsed_seconds := elapsed\<rparr>\<rparr>"
  using assms
  by (simp add: measure_matcher_only_def matcher_loop_run new_measurement_tallied Let_def) (simp add: tallied_def)

end
