(* ===== verification/BenchmarkReport.thy ===== *)
theory BenchmarkReport
  imports Benchmark
begin

text \<open>
  The report of the benchmark: its three tables, and the whole program with its output. The values
  of type \<open>double\<close> are of any type with a zero, an order and a division; the conversion from
  \<open>std::uint64_t\<close> and the fixed-point text with a number of digits are the parameters \<open>to_double\<close> and
  \<open>show_fixed\<close>.
\<close>

section \<open>Columns\<close>

text \<open>\<open>std::setw\<close> with \<open>std::left\<close> or \<open>std::right\<close>: blanks up to the width; a longer text is not cut.\<close>

definition left_column :: "nat \<Rightarrow> string \<Rightarrow> string" where
  "left_column width s = s @ replicate (width - length s) CHR '' ''"

definition right_column :: "nat \<Rightarrow> string \<Rightarrow> string" where
  "right_column width s = replicate (width - length s) CHR '' '' @ s"

lemma length_columns [simp]:
  "length (left_column width s) = max width (length s)"
  "length (right_column width s) = max width (length s)"
  by (simp_all add: left_column_def right_column_def max_def)

section \<open>Rates\<close>

definition rate_per_second :: "(u64 \<Rightarrow> 'd) \<Rightarrow> u64 \<Rightarrow> 'd \<Rightarrow> ('d :: {zero, ord, inverse})" where
  "rate_per_second to_double records elapsed_seconds =
     (if elapsed_seconds \<le> 0 then 0 else to_double records / elapsed_seconds)"

definition ratio :: "(u64 \<Rightarrow> 'd) \<Rightarrow> u64 \<Rightarrow> u64 \<Rightarrow> ('d :: {zero, inverse})" where
  "ratio to_double numerator denominator =
     (if denominator = 0 then 0 else to_double numerator / to_double denominator)"

section \<open>Tables\<close>

definition print_counter_table :: "'d PhaseMeasurement list \<Rightarrow> string" where
  "print_counter_table phases =
     ''counters'' @ endl
     @ left_column 32 ''phase'' @ right_column 12 ''commands'' @ right_column 12 ''events''
     @ right_column 12 ''records'' @ right_column 12 ''commits'' @ right_column 14 ''bytes'' @ endl
     @ concat (map (\<lambda>phase.
         left_column 32 (ph_name phase)
         @ right_column 12 (show_word (ph_command_count phase))
         @ right_column 12 (show_word (ph_event_count phase))
         @ right_column 12 (show_word (ph_record_count phase))
         @ right_column 12 (show_word (ph_commit_count phase))
         @ right_column 14 (show_word (ph_byte_count phase)) @ endl) phases)"

definition print_timing_table ::
  "(u64 \<Rightarrow> 'd) \<Rightarrow> (nat \<Rightarrow> 'd \<Rightarrow> string) \<Rightarrow> ('d :: {zero, ord, inverse}) PhaseMeasurement list \<Rightarrow> string" where
  "print_timing_table to_double show_fixed phases =
     ''phase timings'' @ endl
     @ left_column 32 ''phase'' @ right_column 14 ''seconds'' @ right_column 16 ''commands/sec''
     @ right_column 16 ''events/sec'' @ right_column 16 ''records/sec'' @ endl
     @ concat (map (\<lambda>phase.
         left_column 32 (ph_name phase)
         @ right_column 14 (show_fixed 3 (ph_elapsed_seconds phase))
         @ right_column 16 (show_fixed 0
             (rate_per_second to_double (ph_command_count phase) (ph_elapsed_seconds phase)))
         @ right_column 16 (show_fixed 0
             (rate_per_second to_double (ph_event_count phase) (ph_elapsed_seconds phase)))
         @ right_column 16 (show_fixed 0
             (rate_per_second to_double (ph_record_count phase) (ph_elapsed_seconds phase))) @ endl) phases)"

definition print_derived_ratio_table ::
  "(u64 \<Rightarrow> 'd) \<Rightarrow> (nat \<Rightarrow> 'd \<Rightarrow> string) \<Rightarrow> ('d :: {zero, inverse}) PhaseMeasurement list \<Rightarrow> string" where
  "print_derived_ratio_table to_double show_fixed phases =
     ''derived ratios'' @ endl
     @ left_column 32 ''phase'' @ right_column 18 ''events/command'' @ right_column 18 ''commits/command''
     @ right_column 18 ''records/commit'' @ right_column 18 ''bytes/record'' @ endl
     @ concat (map (\<lambda>phase.
         left_column 32 (ph_name phase)
         @ right_column 18 (show_fixed 6 (ratio to_double (ph_event_count phase) (ph_command_count phase)))
         @ right_column 18 (show_fixed 6 (ratio to_double (ph_commit_count phase) (ph_command_count phase)))
         @ right_column 18 (show_fixed 6 (ratio to_double (ph_record_count phase) (ph_commit_count phase)))
         @ right_column 18 (show_fixed 6 (ratio to_double (ph_byte_count phase) (ph_record_count phase)))
         @ endl) phases)"

definition print_measurements ::
  "(u64 \<Rightarrow> 'd) \<Rightarrow> (nat \<Rightarrow> 'd \<Rightarrow> string) \<Rightarrow> BenchmarkConfig \<Rightarrow> ('d :: {zero, ord, inverse}) PhaseMeasurement list \<Rightarrow>
   string" where
  "print_measurements to_double show_fixed config phases =
     ''load_pipeline_benchmark'' @ endl
     @ ''commands_requested='' @ show_word (cfg_command_count config) @ endl
     @ ''commit_every='' @ show_word (cfg_commit_every config) @ endl @ endl
     @ print_counter_table phases @ endl
     @ print_timing_table to_double show_fixed phases @ endl
     @ print_derived_ratio_table to_double show_fixed phases"

section \<open>The program and its output\<close>

text \<open>\<open>main\<close> prints the report when all phases have succeeded: exit code, output, errors, files.\<close>

definition benchmark_program ::
  "(u64 \<Rightarrow> ('d :: {zero, ord, inverse})) \<Rightarrow> (nat \<Rightarrow> 'd \<Rightarrow> string) \<Rightarrow> (string \<Rightarrow> path) \<Rightarrow> (nat \<Rightarrow> 'd) \<Rightarrow> file_system \<Rightarrow> bench_writers \<Rightarrow>
   string list \<Rightarrow> (int \<times> string \<times> string \<times> file_system) option" where
  "benchmark_program to_double show_fixed path_of elapsed fs writers args =
     (case parse_config path_of args of
        None \<Rightarrow> None
      | Some config \<Rightarrow>
          (case benchmark_main path_of elapsed fs writers args of
             None \<Rightarrow> None
           | Some (exit_code, phases, errors, fs') \<Rightarrow>
               Some (exit_code,
                 if exit_code = 0
                 then print_measurements to_double show_fixed config phases
                 else [],
                 errors, fs')))"

end
