(* ===== verification/BenchmarkProperties.thy ===== *)
theory BenchmarkProperties
  imports BenchmarkFacts BenchmarkReport CliProperties
begin

text \<open>
  The properties of the load benchmark: its command stream keeps the book small, its commit
  interval bounds what is not committed, and a run that ends well has stored the same events in
  both event logs and counted them right.
\<close>

section \<open>The book\<close>

text \<open>
  The benchmark's command stream keeps the book small. Whatever number of commands is generated,
  after any prefix of them the book holds at most one order, and none after an even number; the
  engine has emitted two events for every passive and three for every aggressive command, and
  executed one trade for every aggressive command.
\<close>

lemma benchmark_book_stays_small:
  assumes "generate_commands elapsed command_count = Some generated" "m \<le> unat command_count"
  shows "let (events, engine) = run_commands engine_apply (new_instrument_engine bench_first_sequence)
       (take m (gen_commands generated))
     in length (book_orders (engine_order_book engine)) = m mod 2 \<and>
       length events = 2 * m + m div 2 \<and> length (trades_of events) = m div 2"
proof -
  note g = generated_commands [OF assms(1)]
  obtain events engine where run: "run_commands engine_apply (new_instrument_engine 1) (bench_commands m) = (events, engine)"
    by (cases "run_commands engine_apply (new_instrument_engine 1) (bench_commands m)")
  have "m < 2 ^ 64" using assms(2) g(3) by simp
  then show ?thesis
    using bench_run [OF _ run] assms(2) run
    by (cases "even m")
      (auto simp: g(1) take_bench_commands bench_first_sequence_def book_orders_def quiet_def one_sell_def
        flat_def mod2_eq_if)
qed

lemma benchmark_book_stays_small_witness:
  "let (events, engine) = run_commands engine_apply (new_instrument_engine bench_first_sequence) (bench_commands 3)
   in length (book_orders (engine_order_book engine)) = 1 \<and> length events = 7 \<and> length (trades_of events) = 1"
  using benchmark_book_stays_small [OF generate_commands_returns [of 3 "0 :: nat"], of 3]
  by (simp add: vector_max_size_def sizeof_command_def)

section \<open>What can be lost\<close>

lemma take_log_entries: "take j (log_entries encode t pads n xs) = log_entries encode t pads n (take j xs)"
  by (induction encode t pads n xs arbitrary: j rule: log_entries.induct) (simp_all add: take_Cons split: nat.splits)

text \<open>
  C32: The commit interval bounds what a crash can take. While a phase with the commit interval
  \<open>k > 0\<close> appends events to a new event log, on a device that may stop at any operation, fewer than
  \<open>k\<close> appended records are waiting for a commit after each step that did not fail, and the file
  starts with the log of all complete batches of \<open>k\<close> records.
\<close>

theorem commit_interval_bounds_loss:
  assumes "new_segment_writer fs outcomes p s benchmark_epoch bench_first_sequence = Some (w, fs1)" "fs p = None"
    and "store_records encode_event execution_event_record_type count_event append_failure commit_failure k pads 0
        events \<lparr>wp_files = fs1, wp_writer = w, wp_since = 0, wp_measurement = new_measurement\<rparr> = (None, wp)"
    and "events \<noteq> []" "k \<noteq> 0"
  shows "pending_count (wp_writer wp) < unat k \<and>
    (unat k \<le> length events \<longrightarrow>
      (\<exists>disk. file_bytes (wp_files wp) p = Some disk \<and>
        prefix (segment_bytes s benchmark_epoch bench_first_sequence
          (log_entries encode_event execution_event_record_type pads 0
             (take (unat k * (length events div unat k)) events))) disk))"
proof -
  let ?rs = "log_entries encode_event execution_event_record_type pads 0 events"
  let ?wp0 = "\<lparr>wp_files = fs1, wp_writer = w, wp_since = 0, wp_measurement = new_measurement\<rparr>"
  have "working w" using store_records_working [OF assms(3,4)] by simp
  then have "storing p s k fs1 [] (\<lambda>n. (0, of_nat n)) [] ?wp0 (start_session [] fs1 w)"
    by (intro storing_start [OF assms(1,2)]) (simp_all add: new_measurement_def tallied_def)
  from store_records_stores [OF this assms(3) event_codec.length_encode _ count_event_tallied]
  obtain x where x: "storing p s k fs1 [] (\<lambda>n. (0, of_nat n)) ?rs wp x" by (auto simp: sizeof_event_def)
  then have ok: "session_ok record_fits 0 p s benchmark_epoch bench_first_sequence x"
    and xw: "wp_writer wp = ses_writer x" "wp_files wp = ses_files x" "ses_accepted x = ?rs"
    and pending: "length ?rs - length (ses_committed x) = length events mod unat k"
    using assms(5) by (simp_all add: storing_def rest_of_batch_def)
  have "w_pending_positions (ses_writer x) =
      positions s benchmark_epoch (bench_first_sequence + of_nat (length (ses_committed x)))
        (length (ses_accepted x) - length (ses_committed x))"
    using ok unfolding session_ok_def counters_ok_def Let_def by blast
  then have "pending_count (wp_writer wp) = length events mod unat k"
    using pending xw by (simp add: pending_count_def positions_def)
  moreover have "\<exists>disk. file_bytes (wp_files wp) p = Some disk \<and>
      prefix (segment_bytes s benchmark_epoch bench_first_sequence
        (log_entries encode_event execution_event_record_type pads 0
           (take (unat k * (length events div unat k)) events))) disk" if "unat k \<le> length events"
  proof -
    have pre: "prefix (ses_committed x) ?rs" using committed_prefix [OF ok] xw(3) by simp
    then have "length (ses_committed x) \<le> length events" using prefix_length_le by fastforce
    then have len: "length (ses_committed x) = unat k * (length events div unat k)"
      using pending minus_mod_eq_mult_div [of "length events" "unat k"] by simp
    have "ses_committed x = take (length (ses_committed x)) ?rs" using pre by (auto simp: prefix_def)
    then have c: "ses_committed x = log_entries encode_event execution_event_record_type pads 0
        (take (unat k * (length events div unat k)) events)"
      unfolding len take_log_entries .
    have "0 < unat k * (length events div unat k)"
      using that assms(5) by (simp add: div_greater_zero_iff unat_gt_0)
    then have "ses_committed x \<noteq> []" using len by auto
    then show ?thesis
      using ok unfolding session_ok_def on_disk_def xw(2) c [symmetric] by blast
  qed
  ultimately show ?thesis using assms(5) by (simp add: unat_gt_0)
qed

lemma event_store_witness:
  obtains w fs1 wp where
    "new_segment_writer (\<lambda>_. None) [] [''e''] 201 benchmark_epoch bench_first_sequence = Some (w, fs1)"
    "store_records encode_event execution_event_record_type count_event (\<lambda>_. []) [] 2 (\<lambda>_. (0, 0)) 0
      [empty_event, empty_event, empty_event]
      \<lparr>wp_files = fs1, wp_writer = w, wp_since = 0, wp_measurement = (new_measurement :: nat PhaseMeasurement)\<rparr>
      = (None, wp)"
proof -
  obtain w fs1 where new: "new_segment_writer (\<lambda>_. None) [] [''e''] 201 benchmark_epoch bench_first_sequence
      = Some (w, fs1)" "accepting w"
    using new_writer_accepting [of "\<lambda>_. None" "[''e'']" "\<lambda>_. None" 201 benchmark_epoch bench_first_sequence]
    by (auto simp: ensure_parent_directory_exists_def)
  let ?wp = "\<lparr>wp_files = fs1, wp_writer = w, wp_since = 0,
    wp_measurement = (new_measurement :: nat PhaseMeasurement)\<rparr>"
  have "accepting (wp_writer ?wp)" using new(2) by simp
  from store_records_accepting [OF this] new(1) show ?thesis using that by blast
qed

lemma commit_interval_bounds_loss_witness:
  "\<exists>fs disk. file_bytes fs [''e''] = Some disk \<and>
     prefix (segment_bytes 201 benchmark_epoch bench_first_sequence
       (log_entries encode_event execution_event_record_type (\<lambda>_. (0, 0)) 0 [empty_event, empty_event])) disk"
proof -
  obtain w fs1 wp where
    "new_segment_writer (\<lambda>_. None) [] [''e''] 201 benchmark_epoch bench_first_sequence = Some (w, fs1)"
    "store_records encode_event execution_event_record_type count_event (\<lambda>_. []) [] 2 (\<lambda>_. (0, 0)) 0
      [empty_event, empty_event, empty_event]
      \<lparr>wp_files = fs1, wp_writer = w, wp_since = 0, wp_measurement = (new_measurement :: nat PhaseMeasurement)\<rparr>
      = (None, wp)"
    by (rule event_store_witness)
  from commit_interval_bounds_loss [OF this(1) refl this(2)] show ?thesis
    by auto
qed

section \<open>Runs\<close>

lemma after_phase_ok:
  assumes "after_phase result code phases continue = Some (0, phases', err, fs')" "code \<noteq> 0"
  obtains m message fs where "result = Some (True, m, message, fs)"
    "continue fs (phases @ [m]) = Some (0, phases', err, fs')"
  using assms by (auto simp: after_phase_def split: option.splits bool.splits)

lemma benchmark_main_ok:
  assumes config: "parse_config path_of args = Some config"
    and run: "benchmark_main path_of elapsed fs writers args = Some (0, phases, err, fs')"
  obtains fs0 generated m1 t1 fs1 m2 t2 fs2 collected m3 t3 fs3 m4 t4 where
    "cfg_command_count config \<noteq> 0" "create_directories fs (cfg_output_directory config) = Some fs0"
    "generate_commands (elapsed 0) (cfg_command_count config) = Some generated"
    "write_command_wal (elapsed 1) fs0 (bw_outcomes writers 0) (bw_pads writers 0)
       (bp_command_wal (make_paths config)) (gen_commands generated) (cfg_commit_every config) new_measurement
       = Some (True, m1, t1, fs1)"
    "measure_command_wal_read_only (elapsed 2) fs1 (bp_command_wal (make_paths config)) new_measurement
       = Some (True, m2, t2, fs2)"
    "measure_matcher_only (elapsed 3) (gen_commands generated) = Some collected"
    "measure_event_wal_append (elapsed 4) fs2 (bw_outcomes writers 1) (bw_pads writers 1)
       (bp_phase_event_wal (make_paths config)) (mat_events collected) (cfg_commit_every config) new_measurement
       = Some (True, m3, t3, fs3)"
    "measure_read_match_event_pipeline (elapsed 5) fs3 (bw_outcomes writers 2) (bw_pads writers 2)
       (bp_command_wal (make_paths config)) (bp_event_wal (make_paths config))
       (of_nat (length (mat_events collected))) (cfg_commit_every config) new_measurement
       = Some (True, m4, t4, fs')"
    "phases = [gen_measurement generated, m1, m2, mat_measurement collected, m3, m4]"
proof (cases "cfg_command_count config = 0 \<or> \<not> has_supported_commit_interval (cfg_commit_every config)")
  case True
  then show ?thesis using run config by (auto simp: benchmark_main_def split: if_splits)
next
  case False
  note main = run [unfolded benchmark_main_def config option.case Let_def]
  obtain fs0 where dirs: "create_directories fs (cfg_output_directory config) = Some fs0"
    using main False by (cases "create_directories fs (cfg_output_directory config)") auto
  obtain generated where gen: "generate_commands (elapsed 0) (cfg_command_count config) = Some generated"
    using main False dirs by (cases "generate_commands (elapsed 0) (cfg_command_count config)") auto
  note main1 = main [unfolded dirs gen option.case]
  have main2: "after_phase
      (write_command_wal (elapsed 1) fs0 (bw_outcomes writers 0) (bw_pads writers 0)
        (bp_command_wal (make_paths config)) (gen_commands generated) (cfg_commit_every config) new_measurement)
      2 [gen_measurement generated]
      (\<lambda>fs1 phases1. after_phase
        (measure_command_wal_read_only (elapsed 2) fs1 (bp_command_wal (make_paths config)) new_measurement) 3 phases1
        (\<lambda>fs2 phases2.
          case measure_matcher_only (elapsed 3) (gen_commands generated) of
            None \<Rightarrow> None
          | Some collected \<Rightarrow>
              after_phase
                (measure_event_wal_append (elapsed 4) fs2 (bw_outcomes writers 1) (bw_pads writers 1)
                   (bp_phase_event_wal (make_paths config)) (mat_events collected) (cfg_commit_every config)
                   new_measurement) 4 (phases2 @ [mat_measurement collected])
                (\<lambda>fs3 phases3. after_phase
                  (measure_read_match_event_pipeline (elapsed 5) fs3 (bw_outcomes writers 2) (bw_pads writers 2)
                     (bp_command_wal (make_paths config)) (bp_event_wal (make_paths config))
                     (of_nat (length (mat_events collected))) (cfg_commit_every config) new_measurement) 5 phases3
                  (\<lambda>fs4 phases4. Some (0, phases4, [], fs4))))) = Some (0, phases, err, fs')"
    using main1 False by simp
  show ?thesis
  proof (rule after_phase_ok [OF main2], goal_cases)
    case (2 m1 t1 fs1)
    note p1 = 2(1)
    show ?case
    proof (rule after_phase_ok [OF 2(2)], goal_cases)
      case (2 m2 t2 fs2)
      note p2 = 2(1)
      obtain collected where col: "measure_matcher_only (elapsed 3) (gen_commands generated) = Some collected"
        using 2(2) by (cases "measure_matcher_only (elapsed 3) (gen_commands generated)") auto
      show ?case
      proof (rule after_phase_ok [OF 2(2) [unfolded col option.case]], goal_cases)
        case (2 m3 t3 fs3)
        note p3 = 2(1)
        show ?case
        proof (rule after_phase_ok [OF 2(2)], goal_cases)
          case (2 m4 t4 fs4)
          then have p4: "measure_read_match_event_pipeline (elapsed 5) fs3 (bw_outcomes writers 2) (bw_pads writers 2)
              (bp_command_wal (make_paths config)) (bp_event_wal (make_paths config))
              (of_nat (length (mat_events collected))) (cfg_commit_every config) new_measurement
              = Some (True, m4, t4, fs')"
            and ph: "phases = [gen_measurement generated, m1, m2, mat_measurement collected, m3, m4]"
            by auto
          show ?case by (rule that [OF _ dirs gen p1 p2 col p3 p4 ph]) (use False in simp)
        qed simp
      qed simp
    qed simp
  qed simp
qed

lemma stored_command_log:
  assumes "file_bytes fs p = Some (segment_bytes bench_command_stream_id benchmark_epoch bench_first_sequence
      (log_entries encode_command order_command_record_type pads 0 commands))" "length commands < 2 ^ 64"
  shows "stored_commands (file_content fs p) (open_reader fs p) = (commands, EndOfLog)"
  unfolding stored_commands_def
  by (rule stored_log [OF assms(1)])
    (use assms(2) command_codec.codec_axioms in \<open>simp_all add: bench_command_stream_id_def benchmark_epoch_def
      bench_first_sequence_def sizeof_command_def\<close>)

lemma stored_event_log:
  assumes "file_bytes fs p = Some (segment_bytes bench_event_stream_id benchmark_epoch bench_first_sequence
      (log_entries encode_event execution_event_record_type pads 0 events))" "length events < 2 ^ 64"
  shows "stored_events (file_content fs p) (open_reader fs p) = (events, EndOfLog)"
  unfolding stored_events_def
  by (rule stored_log [OF assms(1)])
    (use assms(2) event_codec.codec_axioms in \<open>simp_all add: bench_event_stream_id_def benchmark_epoch_def
      bench_first_sequence_def sizeof_event_def\<close>)

lemma bench_events:
  assumes "n < 2 ^ 64"
  shows "length (run_engine (bench_commands n)) = 2 * n + n div 2"
    "run_engine (bench_commands n) =
      fst (run_commands engine_apply (new_instrument_engine bench_first_sequence) (bench_commands n))"
proof -
  obtain events g where "run_commands engine_apply (new_instrument_engine 1) (bench_commands n) = (events, g)"
    by (cases "run_commands engine_apply (new_instrument_engine 1) (bench_commands n)")
  then show "length (run_engine (bench_commands n)) = 2 * n + n div 2"
    using bench_run [OF assms] by (simp add: run_engine_def first_sequence_number_def)
qed (simp add: run_engine_def first_sequence_number_def bench_first_sequence_def)

definition counters :: "'d PhaseMeasurement \<Rightarrow> u64 \<times> u64 \<times> u64 \<times> u64 \<times> u64" where
  "counters m = (ph_command_count m, ph_event_count m, ph_record_count m, ph_commit_count m, ph_byte_count m)"

lemma counters_tallied [simp]:
  "counters ((tallied name (c, e) k n)\<lparr>ph_elapsed_seconds := t\<rparr>) = (c, e, of_nat n, k, 0)"
  "counters ((tallied name (c, e) k n)\<lparr>ph_elapsed_seconds := t, ph_byte_count := b\<rparr>) = (c, e, of_nat n, k, b)"
  by (simp_all add: counters_def tallied_def)

lemma path_names:
  "bp_command_wal (make_paths config) \<noteq> bp_event_wal (make_paths config)"
  "bp_command_wal (make_paths config) \<noteq> bp_phase_event_wal (make_paths config)"
  "bp_event_wal (make_paths config) \<noteq> bp_phase_event_wal (make_paths config)"
  by (simp_all add: make_paths_def)

text \<open>The measurements of a successful run on \<open>n\<close> commands with commit interval \<open>k\<close>.\<close>

definition expected_phases :: "(nat \<Rightarrow> 'd) \<Rightarrow> u64 \<Rightarrow> nat \<Rightarrow> 'd PhaseMeasurement list" where
  "expected_phases elapsed k n =
     (let e = 2 * n + n div 2;
          phase = (\<lambda>i name commands events records commits size_in_bytes.
            \<lparr>ph_name = name, ph_command_count = of_nat commands, ph_event_count = of_nat events,
             ph_record_count = of_nat records, ph_commit_count = of_nat commits,
             ph_byte_count = of_nat size_in_bytes, ph_elapsed_seconds = elapsed i\<rparr>)
      in [phase 0 ''generate_commands'' n 0 0 0 0,
          phase 1 ''command_wal_write'' n 0 n (commits_needed k n) (40 + 136 * n),
          phase 2 ''command_wal_read_only'' n 0 n 0 (40 + 136 * n),
          phase 3 ''matcher_only_without_event_wal'' n e 0 0 0,
          phase 4 ''event_wal_append'' 0 e e (commits_needed k e) (40 + 152 * e),
          phase 5 ''read_match_event_pipeline'' n e e (commits_needed k e) (40 + 152 * e)])"

lemma counters_expected_phases:
  "map counters (expected_phases elapsed k n) =
     (let e = 2 * n + n div 2 in
      [(of_nat n, 0, 0, 0, 0),
       (of_nat n, 0, of_nat n, of_nat (commits_needed k n), of_nat (40 + 136 * n)),
       (of_nat n, 0, of_nat n, 0, of_nat (40 + 136 * n)),
       (of_nat n, of_nat e, 0, 0, 0),
       (0, of_nat e, of_nat e, of_nat (commits_needed k e), of_nat (40 + 152 * e)),
       (of_nat n, of_nat e, of_nat e, of_nat (commits_needed k e), of_nat (40 + 152 * e))])"
  by (simp add: expected_phases_def counters_def Let_def)

abbreviation bench_command_log :: "(nat \<Rightarrow> u32 \<times> u32) \<Rightarrow> nat \<Rightarrow> bytes" where
  "bench_command_log pads n \<equiv> segment_bytes bench_command_stream_id benchmark_epoch bench_first_sequence
     (log_entries encode_command order_command_record_type pads 0 (bench_commands n))"

lemma bench_command_log:
  assumes "file_bytes fs p = Some (bench_command_log pads n)" "n < 2 ^ 64"
  shows "stored_commands (bench_command_log pads n) (new_segment_reader (Some (bench_command_log pads n))) =
      (bench_commands n, EndOfLog)"
    "length (bench_command_log pads n) = 40 + 136 * n"
proof -
  have "length (bench_commands n) < 2 ^ 64" using assms(2) by simp
  from stored_command_log [OF assms(1) this]
  show "stored_commands (bench_command_log pads n) (new_segment_reader (Some (bench_command_log pads n))) =
      (bench_commands n, EndOfLog)"
    using assms(1) by (simp add: file_content_def open_reader_def)
  show "length (bench_command_log pads n) = 40 + 136 * n"
    using length_stored_log [where encode = encode_command and len = sizeof_command]
    by (simp add: command_codec.length_encode sizeof_command_def)
qed

text \<open>The phases up to the matcher: what they leave and measure.\<close>

lemma phases_before_events:
  assumes gen: "generate_commands (elapsed 0) command_count = Some generated" and n0: "command_count \<noteq> 0"
    and p1: "write_command_wal (elapsed 1) fs0 outcomes pads cw (gen_commands generated) k new_measurement
       = Some (True, m1, t1, fs1)"
    and p2: "measure_command_wal_read_only (elapsed 2) fs1 cw new_measurement = Some (True, m2, t2, fs2)"
    and col: "measure_matcher_only (elapsed 3) (gen_commands generated) = Some collected"
    and n: "n = unat command_count"
  shows "file_bytes fs2 cw = Some (bench_command_log pads n)" "mat_events collected = run_engine (bench_commands n)"
    "[gen_measurement generated, m1, m2, mat_measurement collected] = take 4 (expected_phases elapsed k n)"
proof -
  note g = generated_commands [OF gen]
  have cs: "n < 2 ^ 64" "bench_commands n \<noteq> []" "length (bench_commands n) < 2 ^ 64"
    using n0 g(3) by (auto simp: n unat_gt_0 simp flip: length_greater_0_conv)
  note es = bench_events [OF cs(1)]
  note w = write_command_wal_ok [OF p1 [unfolded g(1)] cs(2,3) [unfolded n], folded n]
  note r = read_only_ok [OF w(1) bench_command_log(1) [OF w(1) cs(1)], of "elapsed 2"]
  have "n * 3 \<le> vector_max_size sizeof_event"
    using col by (auto simp: measure_matcher_only_def g(1) n split: if_splits)
  then have c: "mat_events collected = run_engine (bench_commands n)" "mat_measurement collected =
      (tallied ''matcher_only_without_event_wal'' (of_nat n, of_nat (2 * n + n div 2)) 0 0)
        \<lparr>ph_elapsed_seconds := elapsed 3\<rparr>"
    using col matcher_only_ok [of "bench_commands n" "run_engine (bench_commands n)" "elapsed 3"] es
    by (auto simp: g(1) n)
  show "mat_events collected = run_engine (bench_commands n)" by (rule c(1))
  show "file_bytes fs2 cw = Some (bench_command_log pads n)" using w(1) r p2 by simp
  show "[gen_measurement generated, m1, m2, mat_measurement collected] = take 4 (expected_phases elapsed k n)"
    using r p2 bench_command_log(2) [OF w(1) cs(1)]
    by (simp add: g(2) w(3) c(2) expected_phases_def Let_def new_measurement_def tallied_def n)
qed

lemma successful_run:
  assumes config: "parse_config path_of args = Some config"
    and run: "benchmark_main path_of elapsed fs writers args = Some (0, phases, err, fs')"
  defines "n \<equiv> unat (cfg_command_count config)" and "paths \<equiv> make_paths config"
  shows "stored_commands (file_content fs' (bp_command_wal paths)) (open_reader fs' (bp_command_wal paths))
      = (bench_commands n, EndOfLog)" (is ?commands)
    "p = bp_phase_event_wal paths \<or> p = bp_event_wal paths \<Longrightarrow>
      stored_events (file_content fs' p) (open_reader fs' p) = (run_engine (bench_commands n), EndOfLog)"
    "phases = expected_phases elapsed (cfg_commit_every config) n" "n < 2 ^ 57"
proof -
  let ?cs = "bench_commands n" and ?es = "run_engine (bench_commands n)" and ?k = "cfg_commit_every config"
  let ?cw = "bp_command_wal paths" and ?ew = "bp_event_wal paths" and ?pw = "bp_phase_event_wal paths"
  let ?clog = "bench_command_log (bw_pads writers 0) n"
  obtain fs0 generated m1 t1 fs1 m2 t2 fs2 collected m3 t3 fs3 m4 t4 where
    n0: "cfg_command_count config \<noteq> 0"
    and gen: "generate_commands (elapsed 0) (cfg_command_count config) = Some generated"
    and p1: "write_command_wal (elapsed 1) fs0 (bw_outcomes writers 0) (bw_pads writers 0) ?cw
       (gen_commands generated) ?k new_measurement = Some (True, m1, t1, fs1)"
    and p2: "measure_command_wal_read_only (elapsed 2) fs1 ?cw new_measurement = Some (True, m2, t2, fs2)"
    and col: "measure_matcher_only (elapsed 3) (gen_commands generated) = Some collected"
    and p3: "measure_event_wal_append (elapsed 4) fs2 (bw_outcomes writers 1) (bw_pads writers 1) ?pw
       (mat_events collected) ?k new_measurement = Some (True, m3, t3, fs3)"
    and p4: "measure_read_match_event_pipeline (elapsed 5) fs3 (bw_outcomes writers 2) (bw_pads writers 2) ?cw ?ew
       (of_nat (length (mat_events collected))) ?k new_measurement = Some (True, m4, t4, fs')"
    and ph: "phases = [gen_measurement generated, m1, m2, mat_measurement collected, m3, m4]"
    unfolding paths_def by (rule benchmark_main_ok [OF config run])
  note names = path_names [of config, folded paths_def]
  show n: "n < 2 ^ 57" using generated_commands(3) [OF gen] by (simp add: n_def)
  then have n64: "n < 2 ^ 64" "length ?cs < 2 ^ 64" by simp_all
  note es = bench_events [OF n64(1)]
  have ne: "?cs \<noteq> []" "?es \<noteq> []" "length ?es < 2 ^ 64"
    using n0 n es(1) by (auto simp: n_def unat_gt_0 simp flip: length_greater_0_conv)
  note b = phases_before_events [OF gen n0 p1 p2 col meta_eq_to_obj_eq [OF n_def]]
  note w3 = measure_event_wal_append_ok [OF p3 [unfolded b(2)] ne(2,3)]
  have c3: "file_bytes fs3 ?cw = Some ?clog"
    by (rule file_kept [OF b(1)]) (use w3(2) names in auto)
  note w4 = pipeline_ok [OF p4 c3 names(1) bench_command_log(1) [OF c3 n64(1)] ne(1) es(2) ne(3)]
  have c4: "file_bytes fs' ?cw = Some ?clog"
    by (rule file_kept [OF c3]) (use w4(2) names in auto)
  then show ?commands by (rule stored_command_log) (rule n64(2))
  have "file_bytes fs' ?pw = Some (segment_bytes bench_event_stream_id benchmark_epoch bench_first_sequence
      (log_entries encode_event execution_event_record_type (bw_pads writers 1) 0 ?es))"
    by (rule file_kept [OF w3(1)]) (rule w4(2) [OF names(3) [symmetric]])
  then show "stored_events (file_content fs' p) (open_reader fs' p) = (?es, EndOfLog)"
    if "p = ?pw \<or> p = ?ew"
    using that stored_event_log [OF _ ne(3)] w4(1) by blast
  have "[m3, m4] = drop 4 (expected_phases elapsed ?k n)"
    by (simp add: w3(3) w4(3) es(1) expected_phases_def Let_def tallied_def)
  then have "[gen_measurement generated, m1, m2, mat_measurement collected] @ [m3, m4] =
      take 4 (expected_phases elapsed ?k n) @ drop 4 (expected_phases elapsed ?k n)"
    unfolding b(3) by simp
  then show "phases = expected_phases elapsed ?k n" unfolding ph append_take_drop_id by simp
qed

text \<open>
  C31: The phases of the benchmark agree. If a run ends with exit code 0, on any devices, then the
  command WAL holds the generated commands, and both event WALs (the one written from memory and
  the one the pipeline wrote while reading commands) hold exactly the events a fresh engine
  generates for them; the counters of the six phases are those of \<open>n\<close> commands and
  \<open>2 * n + n div 2\<close> events, with one commit per full interval and one for the rest, and the byte
  counts are the sizes of the files.
\<close>

theorem benchmark_phases_agree:
  assumes config: "parse_config path_of args = Some config"
    and run: "benchmark_main path_of elapsed fs writers args = Some (0, phases, err, fs')"
  shows "let n = unat (cfg_command_count config); k = cfg_commit_every config; paths = make_paths config;
       events = run_engine (bench_commands n); e = 2 * n + n div 2
     in stored_commands (file_content fs' (bp_command_wal paths)) (open_reader fs' (bp_command_wal paths))
          = (bench_commands n, EndOfLog) \<and>
        stored_events (file_content fs' (bp_phase_event_wal paths)) (open_reader fs' (bp_phase_event_wal paths))
          = (events, EndOfLog) \<and>
        stored_events (file_content fs' (bp_event_wal paths)) (open_reader fs' (bp_event_wal paths))
          = (events, EndOfLog) \<and>
        map counters phases =
          [(of_nat n, 0, 0, 0, 0),
           (of_nat n, 0, of_nat n, of_nat (commits_needed k n), of_nat (40 + 136 * n)),
           (of_nat n, 0, of_nat n, 0, of_nat (40 + 136 * n)),
           (of_nat n, of_nat e, 0, 0, 0),
           (0, of_nat e, of_nat e, of_nat (commits_needed k e), of_nat (40 + 152 * e)),
           (of_nat n, of_nat e, of_nat e, of_nat (commits_needed k e), of_nat (40 + 152 * e))]"
  using successful_run [OF assms] by (simp add: Let_def counters_expected_phases)

text \<open>
  The output of the whole program: a run with exit code 0 prints the report of its exact counters
  and no error, any other run prints no report.
\<close>

lemma benchmark_program_output:
  assumes "parse_config path_of args = Some config"
    and "benchmark_program to_double show_fixed path_of elapsed fs writers args = Some (exit_code, out, err, fs')"
  shows "out = (if exit_code = 0 then print_measurements to_double show_fixed config
      (expected_phases elapsed (cfg_commit_every config) (unat (cfg_command_count config))) else [])"
  using assms(2)
  by (auto simp: benchmark_program_def assms(1) dest!: successful_run(3) [OF assms(1)] split: option.splits if_splits)

section \<open>A run on accepting devices\<close>

lemma accepting_start:
  assumes "path_ready fs p"
  obtains w where "remove_path fs p = Some (fs(p := None))"
    "new_segment_writer (fs(p := None)) [] p s e first = Some (w, fs(p \<mapsto> RegularFile []))" "accepting w"
proof -
  have rm: "remove_path fs p = Some (fs(p := None))" by (rule ready_remove [OF assms])
  have "create_directories fs (butlast p) = Some fs" using assms by (simp add: path_ready_def)
  from new_writer_accepting [OF _ ensure_parent_again [OF this], of s e first] that [OF rm]
  show ?thesis by auto
qed

lemma end_phase_accepting:
  assumes st: "storing p s k fs0 name tally rs wp x" "rs \<noteq> []" "length rs < 2 ^ 64"
    and acc: "accepting (wp_writer wp)"
    and check: "check (tallied name (tally (length rs)) (of_nat (commits_needed k (length rs))) (length rs)) = None"
  shows "\<exists>m fs'. end_write_phase elapsed p final_failure check (None, wp) = Some (True, m, [], fs') \<and>
    (\<forall>q. q \<noteq> p \<longrightarrow> fs' q = fs0 q) \<and> fs' p \<noteq> Some Directory"
proof -
  have "fst (commit_remaining_records final_failure wp) = None"
    using commit_accepting(1) [OF acc, of "wp_files wp"]
    by (simp add: commit_remaining_records_def wal_commit_def split_beta)
  then obtain wp' where c: "commit_remaining_records final_failure wp = (None, wp')" by (metis prod.collapse)
  note r = commit_remaining [OF st c]
  have e: "\<exists>m fs'. end_write_phase elapsed p final_failure check (None, wp) = Some (True, m, [], fs')"
    using c file_size_of [OF r(1)] check by (simp add: end_write_phase_def leave_phase_def r(5))
  then obtain m fs' where e: "end_write_phase elapsed p final_failure check (None, wp) = Some (True, m, [], fs')"
    by blast
  from end_phase [OF st e] have "file_bytes fs' p \<noteq> None" "\<forall>q. q \<noteq> p \<longrightarrow> fs' q = fs0 q" by simp_all
  then have "fs' p \<noteq> Some Directory" by (auto simp: file_bytes_def)
  then show ?thesis using e \<open>\<forall>q. q \<noteq> p \<longrightarrow> fs' q = fs0 q\<close> by blast
qed

lemma accepting_working: "accepting w \<Longrightarrow> working w"
  by (simp add: accepting_def working_def)

text \<open>A writing phase leaves its file, and the other paths as they were.\<close>

lemma write_phase_accepting:
  assumes ready: "path_ready fs p" and xs: "xs \<noteq> []" "length xs < 2 ^ 64"
    and len: "\<And>pad x. length (encode pad x) = len" "len < 2 ^ 32 - 64"
    and bump: "\<And>c n. bump (tallied name (tally n) c n) = tallied name (tally (Suc n)) c (Suc n)"
  obtains w m fs' where "remove_path fs p = Some (fs(p := None))"
    "new_segment_writer (fs(p := None)) [] p s benchmark_epoch bench_first_sequence = Some (w, fs(p \<mapsto> RegularFile []))"
    "end_write_phase elapsed p final_failure (\<lambda>_. None)
      (store_records encode t bump append_failure commit_failure k pads 0 xs
        \<lparr>wp_files = fs(p \<mapsto> RegularFile []), wp_writer = w, wp_since = 0, wp_measurement = tallied name (tally 0) 0 0\<rparr>)
      = Some (True, m, [], fs')"
    "\<And>q. q \<noteq> p \<Longrightarrow> fs' q = fs q" "fs' p \<noteq> Some Directory"
proof -
  obtain w where rm: "remove_path fs p = Some (fs(p := None))"
    and new: "new_segment_writer (fs(p := None)) [] p s benchmark_epoch bench_first_sequence
      = Some (w, fs(p \<mapsto> RegularFile []))" and acc: "accepting w"
    by (rule accepting_start [OF ready])
  let ?wp = "\<lparr>wp_files = fs(p \<mapsto> RegularFile []), wp_writer = w, wp_since = 0,
    wp_measurement = tallied name (tally 0) 0 0\<rparr>"
  obtain wp where st: "store_records encode t bump append_failure commit_failure k pads 0 xs ?wp = (None, wp)"
    and acc': "accepting (wp_writer wp)"
    using store_records_accepting [of ?wp] acc by fastforce
  have "storing p s k (fs(p \<mapsto> RegularFile [])) name tally [] ?wp (start_session [] (fs(p \<mapsto> RegularFile [])) w)"
    by (rule storing_start [OF new]) (simp_all add: accepting_working [OF acc])
  from store_records_stores [OF this st len bump]
  obtain x where x: "storing p s k (fs(p \<mapsto> RegularFile [])) name tally (log_entries encode t pads 0 xs) wp x" by auto
  have "log_entries encode t pads 0 xs \<noteq> []" "length (log_entries encode t pads 0 xs) < 2 ^ 64" using xs by simp_all
  from end_phase_accepting [where check = "\<lambda>_. None", OF x this acc' refl, of elapsed final_failure]
  obtain m fs' where "end_write_phase elapsed p final_failure (\<lambda>_. None) (None, wp) = Some (True, m, [], fs')"
    "\<forall>q. q \<noteq> p \<longrightarrow> fs' q = (fs(p \<mapsto> RegularFile [])) q" "fs' p \<noteq> Some Directory"
    by blast
  then show ?thesis by (intro that [OF rm new]) (simp_all add: st)
qed


lemma write_command_wal_accepting:
  fixes elapsed :: "'d :: zero"
  assumes "path_ready fs p" "commands \<noteq> []" "length commands < 2 ^ 64"
  shows "\<exists>m fs'. write_command_wal elapsed fs [] pads p commands k new_measurement = Some (True, m, [], fs') \<and>
    (\<forall>q. q \<noteq> p \<longrightarrow> fs' q = fs q) \<and> fs' p \<noteq> Some Directory"
proof -
  have len: "length (encode_command pad c) = sizeof_command" for pad c by (rule command_codec.length_encode)
  have small: "sizeof_command < 2 ^ 32 - 64" by (simp add: sizeof_command_def)
  obtain w m fs' where w: "remove_path fs p = Some (fs(p := None))"
    "new_segment_writer (fs(p := None)) [] p bench_command_stream_id benchmark_epoch bench_first_sequence
      = Some (w, fs(p \<mapsto> RegularFile []))"
    and e: "end_write_phase elapsed p ''command WAL final commit failed'' (\<lambda>_. None)
      (store_records encode_command order_command_record_type count_command
        (\<lambda>c. ''command WAL append failed at sequence '' @ show_word (c_command_sequence c))
        ''command WAL commit failed'' k pads 0 commands
        \<lparr>wp_files = fs(p \<mapsto> RegularFile []), wp_writer = w, wp_since = 0,
         wp_measurement = tallied ''command_wal_write'' ((\<lambda>n. (of_nat n, 0)) 0) 0 0\<rparr>)
      = Some (True, m, [], fs')"
    and fs': "\<And>q. q \<noteq> p \<Longrightarrow> fs' q = fs q" "fs' p \<noteq> Some Directory"
    by (rule write_phase_accepting [where encode = encode_command and tally = "\<lambda>n. (of_nat n, 0)"
          and s = bench_command_stream_id and elapsed = elapsed and t = order_command_record_type
          and final_failure = "''command WAL final commit failed''"
          and append_failure = "\<lambda>c. ''command WAL append failed at sequence '' @ show_word (c_command_sequence c)"
          and commit_failure = "''command WAL commit failed''" and k = k and pads = pads
          and name = "''command_wal_write''", OF assms len small count_command_tallied]) (rule that, assumption+)
  have "write_command_wal elapsed fs [] pads p commands k new_measurement = Some (True, m, [], fs')"
    unfolding write_command_wal_def w option.case prod.case new_measurement_tallied using e by simp
  then show ?thesis using fs' by blast
qed

lemma measure_event_wal_append_accepting:
  fixes elapsed :: "'d :: zero"
  assumes "path_ready fs p" "events \<noteq> []" "length events < 2 ^ 64"
  shows "\<exists>m fs'. measure_event_wal_append elapsed fs [] pads p events k new_measurement = Some (True, m, [], fs') \<and>
    (\<forall>q. q \<noteq> p \<longrightarrow> fs' q = fs q) \<and> fs' p \<noteq> Some Directory"
proof -
  have len: "length (encode_event pad c) = sizeof_event" for pad c by (rule event_codec.length_encode)
  have small: "sizeof_event < 2 ^ 32 - 64" by (simp add: sizeof_event_def)
  obtain w m fs' where w: "remove_path fs p = Some (fs(p := None))"
    "new_segment_writer (fs(p := None)) [] p bench_event_stream_id benchmark_epoch bench_first_sequence
      = Some (w, fs(p \<mapsto> RegularFile []))"
    and e: "end_write_phase elapsed p ''event WAL final commit failed'' (\<lambda>_. None)
      (store_records encode_event execution_event_record_type count_event
        (\<lambda>e. ''event WAL append failed at event sequence '' @ show_word (e_event_sequence e))
        ''event WAL commit failed'' k pads 0 events
        \<lparr>wp_files = fs(p \<mapsto> RegularFile []), wp_writer = w, wp_since = 0,
         wp_measurement = tallied ''event_wal_append'' ((\<lambda>n. (0, of_nat n)) 0) 0 0\<rparr>)
      = Some (True, m, [], fs')"
    and fs': "\<And>q. q \<noteq> p \<Longrightarrow> fs' q = fs q" "fs' p \<noteq> Some Directory"
    by (rule write_phase_accepting [where encode = encode_event and tally = "\<lambda>n. (0, of_nat n)"
          and s = bench_event_stream_id and elapsed = elapsed and t = execution_event_record_type
          and final_failure = "''event WAL final commit failed''"
          and append_failure = "\<lambda>e. ''event WAL append failed at event sequence '' @ show_word (e_event_sequence e)"
          and commit_failure = "''event WAL commit failed''" and k = k and pads = pads
          and name = "''event_wal_append''", OF assms len small count_event_tallied]) (rule that, assumption+)
  have "measure_event_wal_append elapsed fs [] pads p events k new_measurement = Some (True, m, [], fs')"
    unfolding measure_event_wal_append_def w option.case prod.case new_measurement_tallied using e by simp
  then show ?thesis using fs' by blast
qed

lemma pipeline_accepting:
  fixes elapsed :: "'d :: zero"
  assumes "path_ready fs p" and commands: "file_bytes fs cp = Some content" "cp \<noteq> p"
      "stored_commands content (new_segment_reader (Some content)) = (commands, EndOfLog)" "commands \<noteq> []"
    and events: "events = fst (run_commands engine_apply (new_instrument_engine bench_first_sequence) commands)"
      "length events < 2 ^ 64"
  shows "\<exists>m fs'. measure_read_match_event_pipeline elapsed fs [] pads cp p (of_nat (length events)) k new_measurement
      = Some (True, m, [], fs')"
proof -
  let ?fs1 = "fs(p := None)" and ?fs2 = "fs(p \<mapsto> RegularFile [])"
  obtain w where rm: "remove_path fs p = Some ?fs1"
    and new: "new_segment_writer ?fs1 [] p bench_event_stream_id benchmark_epoch bench_first_sequence = Some (w, ?fs2)"
    and acc: "accepting w"
    by (rule accepting_start [OF assms(1)])
  have content: "file_content ?fs1 cp = content" "open_reader ?fs1 cp = new_segment_reader (Some content)"
    using commands(1,2) by (simp_all add: file_content_def open_reader_def file_bytes_def)
  let ?wp = "\<lparr>wp_files = ?fs2, wp_writer = w, wp_since = 0,
    wp_measurement = (tallied ''read_match_event_pipeline'' ((\<lambda>n. (of_nat 0, of_nat n)) 0) 0 0 :: 'd PhaseMeasurement)\<rparr>"
  let ?g = "new_instrument_engine bench_first_sequence"
  obtain wp where loop: "pipeline_loop content (new_segment_reader (Some content)) ?g k pads 0 ?wp = (None, wp)"
    and acc': "accepting (wp_writer wp)"
    using pipeline_loop_accepting [OF commands(3), of ?wp] acc by fastforce
  have "storing p bench_event_stream_id k ?fs2 ''read_match_event_pipeline'' (\<lambda>n. (of_nat 0, of_nat n)) []
      ?wp (start_session [] ?fs2 w)"
    by (rule storing_start [OF new]) (simp_all add: accepting_working [OF acc])
  from pipeline_loop_stores [OF commands(3) this loop]
  obtain x where x: "storing p bench_event_stream_id k ?fs2 ''read_match_event_pipeline''
      (\<lambda>n. (of_nat 0 + of_nat (length commands), of_nat n))
      (log_entries encode_event execution_event_record_type pads 0 events) wp x"
    by (auto simp: events(1))
  have "length commands \<le> length events"
    using engine.answers_run [OF engine_inv_new [of bench_first_sequence], of commands] by (simp add: events(1))
  then have ne: "log_entries encode_event execution_event_record_type pads 0 events \<noteq> []"
    "length (log_entries encode_event execution_event_record_type pads 0 events) < 2 ^ 64"
    using commands(4) events(2) by auto
  let ?check = "\<lambda>m. if ph_event_count m \<noteq> of_nat (length events)
    then Some (''pipeline emitted '' @ show_word (ph_event_count m) @ '' events, expected ''
      @ show_word (of_nat (length events) :: u64) @ endl) else None"
  have "\<exists>m fs'. end_write_phase elapsed p ''event WAL pipeline final commit failed'' ?check (None, wp)
      = Some (True, m, [], fs')"
    using end_phase_accepting [OF x ne acc', of ?check elapsed "''event WAL pipeline final commit failed''"]
    by (auto simp: tallied_def)
  then show ?thesis
    using loop unfolding measure_read_match_event_pipeline_def rm new option.case prod.case
      new_measurement_tallied content by simp
qed

text \<open>With the directory and without other obstacles, a run on accepting devices ends well.\<close>

lemma benchmark_accepting:
  assumes config: "parse_config path_of args = Some config"
    and n0: "cfg_command_count config \<noteq> 0" and k: "has_supported_commit_interval (cfg_commit_every config)"
    and few: "unat (cfg_command_count config) * 3 \<le> vector_max_size sizeof_event"
    and dirs: "create_directories fs (cfg_output_directory config) = Some fs0"
    and ready: "path_ready fs0 (bp_command_wal (make_paths config))" "path_ready fs0 (bp_event_wal (make_paths config))"
      "path_ready fs0 (bp_phase_event_wal (make_paths config))"
    and devices: "\<And>i. bw_outcomes writers i = []"
  shows "\<exists>phases fs'. benchmark_main path_of elapsed fs writers args = Some (0, phases, [], fs')"
proof -
  let ?n = "unat (cfg_command_count config)" and ?k = "cfg_commit_every config"
  let ?cs = "bench_commands ?n" and ?es = "run_engine (bench_commands ?n)"
  let ?cw = "bp_command_wal (make_paths config)" and ?ew = "bp_event_wal (make_paths config)"
    and ?pw = "bp_phase_event_wal (make_paths config)"
  let ?clog = "segment_bytes bench_command_stream_id benchmark_epoch bench_first_sequence
      (log_entries encode_command order_command_record_type (bw_pads writers 0) 0 ?cs)"
  have small: "?n \<le> vector_max_size sizeof_command"
    using few by (simp add: vector_max_size_def sizeof_event_def sizeof_command_def)
  note gen = generate_commands_returns [OF small, of "elapsed 0"]
  have n: "?n < 2 ^ 62" "?cs \<noteq> []"
    using n0 few by (auto simp: unat_gt_0 vector_max_size_def sizeof_event_def simp flip: length_greater_0_conv)
  have n64: "?n < 2 ^ 64" using n(1) by simp
  note es = bench_events [OF n64]
  have e: "length ?es < 2 ^ 64" "?es \<noteq> []"
    using n es(1) n0 by (auto simp: unat_gt_0 simp flip: length_greater_0_conv)
  have len: "length ?cs < 2 ^ 64" using n64 by simp
  obtain m1 fs1 where p1: "write_command_wal (elapsed 1) fs0 [] (bw_pads writers 0) ?cw ?cs ?k new_measurement
      = Some (True, m1, [], fs1)" and f1: "\<And>q. q \<noteq> ?cw \<Longrightarrow> fs1 q = fs0 q"
    using write_command_wal_accepting [OF ready(1) n(2) len] by blast
  note w1 = write_command_wal_ok [OF p1 n(2) len]
  have sc1: "stored_commands ?clog (new_segment_reader (Some ?clog)) = (?cs, EndOfLog)"
    using stored_command_log [OF w1(1) len] w1(1) by (simp add: file_content_def open_reader_def)
  note p2 = read_only_ok [OF w1(1) sc1, of "elapsed 2"]
  have "length ?cs * 3 \<le> vector_max_size sizeof_event" using few by simp
  note col = matcher_only_ok [OF this es(2), of "elapsed 3"]
  have r1: "path_ready fs1 ?pw" "path_ready fs1 ?ew"
    using ready_stays [OF ready(1,3) path_names(2)] ready_stays [OF ready(1,2) path_names(1)] f1 by blast+
  obtain m3 fs3 where p3: "measure_event_wal_append (elapsed 4) fs1 [] (bw_pads writers 1) ?pw ?es ?k new_measurement
      = Some (True, m3, [], fs3)" and f3: "\<And>q. q \<noteq> ?pw \<Longrightarrow> fs3 q = fs1 q"
    using measure_event_wal_append_accepting [OF r1(1) e(2,1)] by blast
  have r3: "path_ready fs3 ?ew" using ready_stays [OF r1(1,2) path_names(3) [symmetric]] f3 by blast
  have c3: "file_bytes fs3 ?cw = Some ?clog" using w1(1) f3 path_names(2) by (simp add: file_bytes_def)
  obtain m4 fs4 where p4: "measure_read_match_event_pipeline (elapsed 5) fs3 [] (bw_pads writers 2) ?cw ?ew
      (of_nat (length ?es)) ?k new_measurement = Some (True, m4, [], fs4)"
    using pipeline_accepting [OF r3 c3 path_names(1) sc1 n(2) es(2) e(1)] by blast
  show ?thesis
    using n0 k
    by (simp add: benchmark_main_def config dirs gen devices Let_def after_phase_def p1 p2 col p3 p4
        del: One_nat_def)
qed

lemma one_directory:
  "create_directories ((\<lambda>_. None)([d] \<mapsto> Directory)) [d] = Some ((\<lambda>_. None)([d] \<mapsto> Directory))"
  "create_directories (\<lambda>_. None) [d] = Some ((\<lambda>_. None)([d] \<mapsto> Directory))"
  unfolding create_directories_def create_directories_from.simps
  by (simp_all only: append_Nil fun_upd_same option.case fs_node.case)

lemma path_ready_in_directory: "path_ready ((\<lambda>_. None)([d] \<mapsto> Directory)) [d, name]"
  by (simp add: path_ready_def one_directory)

lemma sample_arguments: "stoull ''5'' = Some 5" "stoull ''16'' = Some 16"
  by (simp_all add: stoull_def is_space_def digits_value_def is_digit_def digit_value_def)

lemma benchmark_phases_agree_witness:
  "\<exists>phases fs'. benchmark_main (\<lambda>s. [s]) (\<lambda>_. 0 :: nat) (\<lambda>_. None)
       \<lparr>bw_outcomes = \<lambda>_. [], bw_pads = \<lambda>_ _. (0, 0)\<rparr> [''5'', ''b'', ''16''] = Some (0, phases, [], fs') \<and>
     stored_commands (file_content fs' [''b'', ''load_commands.wal'']) (open_reader fs' [''b'', ''load_commands.wal''])
       = (bench_commands 5, EndOfLog)"
proof -
  let ?config = "\<lparr>cfg_command_count = 5, cfg_output_directory = [''b''], cfg_commit_every = 16\<rparr>"
  let ?fs0 = "(\<lambda>_. None)([''b''] \<mapsto> Directory)"
  have paths: "bp_command_wal (make_paths ?config) = [''b'', ''load_commands.wal'']"
    "bp_event_wal (make_paths ?config) = [''b'', ''load_events.wal'']"
    "bp_phase_event_wal (make_paths ?config) = [''b'', ''load_events_phase_only.wal'']"
    by (simp_all add: make_paths_def)
  have config: "parse_config (\<lambda>s. [s]) [''5'', ''b'', ''16''] = Some ?config"
    by (simp add: parse_config_def sample_arguments)
  have "\<exists>phases fs'. benchmark_main (\<lambda>s. [s]) (\<lambda>_. 0 :: nat) (\<lambda>_. None)
       \<lparr>bw_outcomes = \<lambda>_. [], bw_pads = \<lambda>_ _. (0, 0)\<rparr> [''5'', ''b'', ''16''] = Some (0, phases, [], fs')"
    by (rule benchmark_accepting [where fs = "\<lambda>_. None" and fs0 = ?fs0 and elapsed = "\<lambda>_. 0 :: nat"
          and writers = "\<lparr>bw_outcomes = \<lambda>_. [], bw_pads = \<lambda>_ _. (0, 0)\<rparr>", OF config])
      (use one_directory path_ready_in_directory paths in \<open>simp_all add: has_supported_commit_interval_def
         vector_max_size_def sizeof_event_def del: fun_upd_apply\<close>)
  then obtain phases fs' where run: "benchmark_main (\<lambda>s. [s]) (\<lambda>_. 0 :: nat) (\<lambda>_. None)
       \<lparr>bw_outcomes = \<lambda>_. [], bw_pads = \<lambda>_ _. (0, 0)\<rparr> [''5'', ''b'', ''16''] = Some (0, phases, [], fs')"
    by blast
  from benchmark_phases_agree [OF config run]
  have "stored_commands (file_content fs' (bp_command_wal (make_paths ?config)))
      (open_reader fs' (bp_command_wal (make_paths ?config)))
      = (bench_commands (unat (cfg_command_count ?config)), EndOfLog)"
    unfolding Let_def by (rule conjunct1)
  then show ?thesis using run by (auto simp: make_paths_def)
qed

end
