(* ===== verification/WalLifecycle.thy ===== *)
theory WalLifecycle
  imports WalFacade WalOrder
begin

text \<open>
  The life of a segment file over any number of writers: it is opened, written to, left behind by a
  crash or closed, recovered and opened again, as \<open>recover_wal_segment\<close> and the constructor of
  \<open>WalSegmentWriter\<close> do it. The invariant says what is in the file while nobody writes to it.
\<close>

section \<open>The bytes of a log determine it\<close>

lemma record_bytes_prefix:
  assumes eq: "record_bytes s e pb t payload q @ xs = record_bytes s e pb' t' payload' q @ ys"
    and fits: "payload_fits payload" "payload_fits payload'"
  shows "pb = pb' \<and> t = t' \<and> payload = payload' \<and> xs = ys"
proof -
  let ?h = "make_header s e pb t payload q" and ?h' = "make_header s e pb' t' payload' q"
  have len: "length (encode_record_header ?h) = length (encode_record_header ?h')"
    by (simp add: record_header_codec.length_encode)
  then have enc: "encode_record_header ?h = encode_record_header ?h'"
    and rest: "payload @ replicate (unat (record_padding payload)) 0 @ xs =
      payload' @ replicate (unat (record_padding payload')) 0 @ ys"
    using eq by (simp_all add: record_bytes_def)
  have "?h = ?h'" using enc by (metis record_header_codec.decode_encode)
  then have "rh_padding ?h = rh_padding ?h'" "rh_record_type ?h = rh_record_type ?h'"
    "unat (rh_payload_length ?h) = unat (rh_payload_length ?h')" by simp_all
  then have h: "pb = pb'" "t = t'" "length payload = length payload'"
    using record_lengths(1) [OF fits(1)] record_lengths(1) [OF fits(2)]
    by (simp_all add: make_header_def Let_def)
  then have "payload = payload'" using rest by simp
  then show ?thesis using h rest by simp
qed

lemma log_bytes_prefix:
  assumes "prefix (log_bytes s e q c) (log_bytes s e q rs)" "list_all record_fits c" "list_all record_fits rs"
  shows "prefix c rs"
  using assms
proof (induction c arbitrary: q rs)
  case (Cons r c)
  obtain pb t payload where r: "r = (pb, t, payload)" by (cases r)
  obtain zs where z: "log_bytes s e q rs = log_bytes s e q (r # c) @ zs"
    using Cons.prems(1) by (auto simp: prefix_def)
  have "log_bytes s e q rs \<noteq> []"
    using z length_record_bytes [of s e pb t payload q] by (auto simp: r)
  then obtain pb' t' payload' rs' where rs: "rs = (pb', t', payload') # rs'" by (cases rs) auto
  have "pb = pb' \<and> t = t' \<and> payload = payload' \<and>
      log_bytes s e (q + 1) c @ zs = log_bytes s e (q + 1) rs'"
    by (rule record_bytes_prefix [of s e _ _ _ q])
      (use z Cons.prems in \<open>simp_all add: r rs record_fits_def\<close>)
  moreover from this have "prefix (log_bytes s e (q + 1) c) (log_bytes s e (q + 1) rs')"
    by (metis prefixI)
  ultimately show ?case using Cons.IH Cons.prems by (auto simp: r rs)
qed simp

lemma segment_bytes_prefix:
  assumes "prefix (segment_bytes s e first c) (segment_bytes s e first rs)"
    and "list_all record_fits c" "list_all record_fits rs"
  shows "prefix c rs"
  using assms log_bytes_prefix by (simp add: segment_bytes_def)

lemma segment_bytes_inject:
  assumes "segment_bytes s e first c = segment_bytes s e first rs"
    and "list_all record_fits c" "list_all record_fits rs"
  shows "c = rs"
  using segment_bytes_prefix [of s e first c rs] segment_bytes_prefix [of s e first rs c] assms
  by (simp add: prefix_order.antisym)

section \<open>Steps\<close>

text \<open>
  Nobody has the file open, or a writer does. Beside the files and the writer a state remembers, for
  the specification only, which records are known to be committed (reported as committed, or found
  in the file when it was opened) and which ones were tried since: the records the last writer
  found, followed by those it was asked to append.
\<close>

datatype segment_life =
    Stopped file_system "log_record list" "log_record list"
  | Running wal_session "log_record list"

fun life_files :: "segment_life \<Rightarrow> file_system" where
  "life_files (Stopped fs log tried) = fs"
| "life_files (Running x tried) = ses_files x"

fun known_committed :: "segment_life \<Rightarrow> log_record list" where
  "known_committed (Stopped fs log tried) = log"
| "known_committed (Running x tried) = ses_committed x"

text \<open>File offsets are signed 64-bit integers.\<close>

definition file_in_range :: "file_system \<Rightarrow> path \<Rightarrow> bool" where
  "file_in_range fs p \<longleftrightarrow> (\<forall>disk. file_bytes fs p = Some disk \<longrightarrow> length disk < 2 ^ 63)"

text \<open>How many records a writer that was just opened says it found.\<close>

definition found_records :: "u64 \<Rightarrow> WalSegmentWriter \<Rightarrow> nat" where
  "found_records first w = unat (w_next_sequence w - first)"

text \<open>
  Whatever the device does, a constructor may end well or in error; then its object is destroyed, or
  a crash comes first. Opening is not conditioned on what the constructor leaves in the file. \<open>good\<close>
  is what is known of the records the program appends; the theorems on lives take \<open>unpadded\<close>,
  payloads that are a multiple of eight bytes long: a record with padding may be torn inside it,
  which neither the constructor nor recovery notices. A crash leaves any part of the buffer.
\<close>

inductive life_step ::
  "(log_record \<Rightarrow> bool) \<Rightarrow> path \<Rightarrow> u64 \<Rightarrow> u64 \<Rightarrow> u64 \<Rightarrow> segment_life \<Rightarrow> segment_life \<Rightarrow> bool"
  for good :: "log_record \<Rightarrow> bool" and p :: path and s :: u64 and e :: u64 and first :: u64 where
  open_segment: "new_segment_writer fs outcomes p s e first = Some (w, fs') \<Longrightarrow>
    w_writer_error w = NoError \<Longrightarrow> file_in_range fs p \<Longrightarrow>
    kept = take (found_records first w) tried \<Longrightarrow>
    life_step good p s e first (Stopped fs log tried) (Running (start_session kept fs' w) kept)"
| open_failed: "new_segment_writer fs outcomes p s e first = Some (w, fs') \<Longrightarrow>
    w_writer_error w \<noteq> NoError \<Longrightarrow> file_in_range fs p \<Longrightarrow>
    files = fs' \<or> files = close_segment_writer fs' w \<Longrightarrow>
    life_step good p s e first (Stopped fs log tried) (Stopped files log tried)"
| operate: "op_good good op \<Longrightarrow>
    life_step good p s e first (Running x tried) (Running (session_step op x) (tried @ appended_records [op]))"
| close_writer: "life_step good p s e first (Running x tried)
    (Stopped (close_segment_writer (ses_files x) (ses_writer x)) (ses_committed x) tried)"
| crash: "files = append_to_file (ses_files x) p (take n (o_buffer (w_file (ses_writer x)))) \<Longrightarrow>
    life_step good p s e first (Running x tried) (Stopped files (ses_committed x) tried)"
| recover_segment: "recover_wal_segment fs p = Some (result, fs') \<Longrightarrow> file_in_range fs p \<Longrightarrow>
    life_step good p s e first (Stopped fs log tried) (Stopped fs' log tried)"

inductive_cases life_step_stopped: "life_step good p s e first (Stopped fs log tried) st"
inductive_cases life_step_running: "life_step good p s e first (Running x tried) st"

section \<open>The invariant\<close>

definition segment_state ::
  "path \<Rightarrow> u64 \<Rightarrow> u64 \<Rightarrow> u64 \<Rightarrow> log_record list \<Rightarrow> log_record list \<Rightarrow> file_system \<Rightarrow> bool" where
  "segment_state p s e first log tried fs \<longleftrightarrow>
     list_all unpadded tried \<and> prefix log tried \<and>
     (fs p = None \<and> log = [] \<or>
      (\<exists>disk. fs p = Some (RegularFile disk) \<and> prefix disk (segment_bytes s e first tried) \<and>
        (log \<noteq> [] \<longrightarrow> prefix (segment_bytes s e first log) disk)))"

fun life_ok :: "path \<Rightarrow> u64 \<Rightarrow> u64 \<Rightarrow> u64 \<Rightarrow> segment_life \<Rightarrow> bool" where
  "life_ok p s e first (Stopped fs log tried) = segment_state p s e first log tried fs"
| "life_ok p s e first (Running x tried) =
     ((\<exists>base. session_ok unpadded base p s e first x) \<and> log_in_order p s e first tried x \<and>
      list_all unpadded tried)"

lemma file_bytes_Some: "file_bytes fs p = Some bs \<longleftrightarrow> fs p = Some (RegularFile bs)"
  by (cases "fs p"; cases "the (fs p)") (auto simp: file_bytes_def)

lemma segment_stateI:
  assumes "file_bytes fs p = Some disk" "list_all unpadded tried" "prefix log tried"
    and "prefix disk (segment_bytes s e first tried)"
    and "log \<noteq> [] \<Longrightarrow> prefix (segment_bytes s e first log) disk"
  shows "segment_state p s e first log tried fs"
  using assms unfolding segment_state_def by (auto simp: file_bytes_Some)

lemma segment_stateE:
  assumes "segment_state p s e first log tried fs"
  obtains (missing) "fs p = None" "log = []" "list_all unpadded tried"
  | (there) disk where "file_bytes fs p = Some disk" "list_all unpadded tried" "prefix log tried"
      "prefix disk (segment_bytes s e first tried)"
      "log \<noteq> [] \<Longrightarrow> prefix (segment_bytes s e first log) disk"
  using assms unfolding segment_state_def file_bytes_Some by metis

lemma committed_log_nonempty:
  "prefix (segment_bytes s e first log) disk \<Longrightarrow> sizeof_segment_header \<le> length disk"
  using prefix_length_le [of "segment_bytes s e first log" disk]
  by (simp add: segment_bytes_def segment_header_codec.length_encode)

section \<open>A torn segment header\<close>

text \<open>A file with some bytes and no complete header: no writer and no recovery touches it.\<close>

definition header_torn :: "file_system \<Rightarrow> path \<Rightarrow> bool" where
  "header_torn fs p \<longleftrightarrow>
     (\<exists>disk. file_bytes fs p = Some disk \<and> disk \<noteq> [] \<and> length disk < sizeof_segment_header)"

lemma scan_torn_header:
  assumes "length disk < sizeof_segment_header"
  shows "scan_segment (Some disk) = empty_scan_result\<lparr>scan_error := InvalidSegmentHeader\<rparr>"
  using assms by (simp add: scan_segment_def stream_read_short ifstream_open_def Let_def)

lemma recover_torn_header:
  assumes "header_torn fs p"
  shows "\<exists>result. recover_wal_segment fs p = Some (result, fs) \<and> \<not> recovery_ok result \<and>
    recovery_error result = InvalidSegmentHeader"
  using assms by (auto simp: header_torn_def recover_wal_segment_def scan_torn_header empty_scan_result_def)

lemma new_writer_torn_header:
  assumes "header_torn fs p" "new_segment_writer fs outcomes p s e first = Some (w, fs')"
  shows "w_writer_error w = InvalidSegmentHeader \<and> fs' p = fs p \<and> \<not> o_open (w_file w) \<and> w_file_path w = p"
proof -
  obtain disk where d: "fs p = Some (RegularFile disk)" "disk \<noteq> []" "length disk < sizeof_segment_header"
    using assms(1) by (auto simp: header_torn_def file_bytes_Some)
  obtain fs0 where dirs: "ensure_parent_directory_exists fs p = Some fs0"
    using assms(2) by (auto simp: new_segment_writer_def Let_def split: option.splits)
  have same: "fs0 p = fs p" by (rule ensure_parent_other [OF dirs])
  then have fb: "file_bytes fs0 p = Some disk" using d by (simp add: file_bytes_Some)
  have facts: "\<not> is_directory fs0 p" "wal_file_exists fs0 p" "wal_file_size fs0 p \<noteq> Some 0"
    using d same fb by (simp_all add: is_directory_def wal_file_exists_def wal_file_size_def)
  have "read_existing_segment_header (Some disk) = (InvalidSegmentHeader, default_segment_header)"
    using d(3) by (simp add: read_existing_segment_header_def stream_read_short ifstream_open_def)
  then show ?thesis
    using assms(2) facts same
    by (auto simp: new_segment_writer_def dirs prepare_existing_segment_def fb closed_ofstream_def Let_def)
qed

lemma close_unopened: "\<not> o_open (w_file w) \<Longrightarrow> close_segment_writer fs w = fs"
  by (simp add: close_segment_writer_def stream_close_def)

section \<open>Opening\<close>

text \<open>A file behind a complete header is cut to its complete records, and the writer goes on there.\<close>

lemma open_stored_segment:
  assumes nz: "s \<noteq> 0" "e \<noteq> 0" "first \<noteq> 0" "unat first \<le> 2 ^ 63"
    and disk: "file_bytes fs p = Some disk" "sizeof_segment_header \<le> length disk" "length disk < 2 ^ 63"
    and rs: "list_all unpadded tried" "prefix log tried" "prefix disk (segment_bytes s e first tried)"
    and log: "log \<noteq> [] \<Longrightarrow> prefix (segment_bytes s e first log) disk"
    and dirs: "ensure_parent_directory_exists fs p = Some fs0"
  obtains kept w fs1 where "prefix log kept" "prefix kept tried" "found_records first w = length kept"
    "new_segment_writer fs outcomes p s e first = Some (w, fs1)" "w_writer_error w = NoError"
    "file_bytes fs1 p = Some (segment_bytes s e first kept)" "o_buffer (w_file w) = []"
    "session_ok unpadded (length kept) p s e first (start_session kept fs1 w)"
    "outcomes = [] \<Longrightarrow> o_open (w_file w) \<and> \<not> o_fail (w_file w) \<and> o_outcomes (w_file w) = []"
proof -
  obtain kept rest tail where k: "tried = kept @ rest" "disk = segment_bytes s e first kept @ tail"
    and tail: "tail = [] \<or> (\<exists>pb t payload rest'. rest = (pb, t, payload) # rest' \<and>
       prefix tail (record_bytes s e pb t payload (first + of_nat (length kept))) \<and>
       length tail < 56 + length payload \<and> payload_fits payload)"
    by (rule segment_prefix [OF rs(3) disk(2) rs(1)])
  have pre: "prefix log kept" "prefix kept tried"
    using kept_is_longest [OF k(2,1) tail rs(2)] log k(1) by (cases "log = []", simp_all)
  have un: "list_all unpadded kept" using rs(1) k(1) by simp
  have "length kept \<le> length (log_bytes s e first kept)"
  proof (induction kept arbitrary: first)
    case (Cons r kept)
    obtain pb t payload where r: "r = (pb, t, payload)" by (cases r)
    show ?case using Cons [of "first + 1"] by (simp add: r length_record_bytes)
  qed simp
  then have len: "length kept < 2 ^ 63" using k(2) disk(3) by (simp add: segment_bytes_def)
  then have "unat first + length kept \<le> 2 ^ 64" "length (segment_bytes s e first kept) < 2 ^ 64"
    using nz(4) disk(3) k(2) by simp_all
  moreover have "fs p = Some (RegularFile (segment_bytes s e first kept @ tail))"
    using disk(1) k(2) by (simp add: file_bytes_Some)
  moreover obtain pb t payload where "tail = [] \<or>
      (prefix tail (record_bytes s e pb t payload (first + of_nat (length kept)))
        \<and> length tail < 56 + length payload \<and> payload_fits payload)"
    using tail by blast
  ultimately obtain w fs1 where w: "new_segment_writer fs outcomes p s e first = Some (w, fs1)"
    "w_writer_error w = NoError" "file_bytes fs1 p = Some (segment_bytes s e first kept)"
    "o_buffer (w_file w) = []" "session_ok unpadded (length kept) p s e first (start_session kept fs1 w)"
    "outcomes = [] \<longrightarrow> o_open (w_file w) \<and> \<not> o_fail (w_file w) \<and> o_outcomes (w_file w) = []"
    using reopened_writer_session [OF nz(1-3) unpadded_fits [OF un] un _ _ _ dirs] by blast
  have "w_next_sequence w = first + of_nat (length kept)"
    using session_ok_fields(4) [OF w(5)] by (simp add: start_session_def)
  then have "found_records first w = length kept" using len by (simp add: found_records_def unat_of_nat)
  from that [OF pre this w(1-5)] w(6) show ?thesis by blast
qed

lemma fresh_writer_facts:
  assumes "new_segment_writer fs outcomes p s e first = Some (w, fs')"
    and "fs p = None \<or> fs p = Some (RegularFile [])"
  shows "w_file_path w = p"
    "prefix (o_buffer (w_file w)) (encode_segment_header (make_segment_header s e first))"
    "fs' p = (if o_open (w_file w) then Some (RegularFile []) else fs p)"
    "w_writer_error w = NoError \<Longrightarrow> o_open (w_file w)"
  by (rule fresh_writer [OF assms]; simp split: if_splits)+

text \<open>What a constructor can find, and that only a fresh or a complete header lets it go on.\<close>

lemma segment_state_cases:
  assumes "segment_state p s e first log tried fs"
  obtains (fresh) "fs p = None \<or> fs p = Some (RegularFile [])" "log = []"
  | (torn) "header_torn fs p" "log = []"
  | (stored) disk where "file_bytes fs p = Some disk" "sizeof_segment_header \<le> length disk"
      "list_all unpadded tried" "prefix log tried" "prefix disk (segment_bytes s e first tried)"
      "log \<noteq> [] \<Longrightarrow> prefix (segment_bytes s e first log) disk"
  using assms
proof (cases rule: segment_stateE)
  case missing
  then show ?thesis using fresh by blast
next
  case (there disk)
  consider "disk = []" | "disk \<noteq> []" "length disk < sizeof_segment_header"
    | "sizeof_segment_header \<le> length disk" by linarith
  then show ?thesis
  proof cases
    case 1
    then show ?thesis
      using fresh there committed_log_nonempty [of s e first log disk]
      by (auto simp: file_bytes_Some sizeof_segment_header_def)
  next
    case 2
    then show ?thesis
      using torn there committed_log_nonempty [of s e first log disk] by (force simp: header_torn_def)
  next
    case 3
    then show ?thesis using stored there by blast
  qed
qed

lemma new_writer_dirs:
  assumes "new_segment_writer fs outcomes p s e first = Some (w, fs')"
  obtains fs0 where "ensure_parent_directory_exists fs p = Some fs0"
  using assms by (auto simp: new_segment_writer_def Let_def split: option.splits)

lemma opened_life_ok:
  assumes nz: "s \<noteq> 0" "e \<noteq> 0" "first \<noteq> 0" "unat first \<le> 2 ^ 63"
    and st: "segment_state p s e first log tried fs"
    and new: "new_segment_writer fs outcomes p s e first = Some (w, fs')" "w_writer_error w = NoError"
    and range: "file_in_range fs p" and kept: "kept = take (found_records first w) tried"
  shows "life_ok p s e first (Running (start_session kept fs' w) kept) \<and> prefix log kept"
  using st
proof (cases rule: segment_state_cases)
  case fresh
  have ok: "session_ok unpadded 0 p s e first (start_session [] fs' w)"
    by (rule fresh_writer_session [OF new(1) fresh(1) new(2)])
  have "w_next_sequence w = first" using session_ok_fields(4) [OF ok] by (simp add: start_session_def)
  then have "kept = []" using kept by (simp add: found_records_def)
  then show ?thesis using ok log_in_order_fresh [OF new(1) fresh(1) new(2)] fresh(2) by auto
next
  case torn
  then show ?thesis using new_writer_torn_header [OF _ new(1)] new(2) by simp
next
  case (stored disk)
  obtain fs0 where dirs: "ensure_parent_directory_exists fs p = Some fs0"
    by (rule new_writer_dirs [OF new(1)])
  have len: "length disk < 2 ^ 63" using range stored(1) by (simp add: file_in_range_def)
  obtain kept' w' fs1 where k: "prefix log kept'" "prefix kept' tried" "found_records first w' = length kept'"
    "new_segment_writer fs outcomes p s e first = Some (w', fs1)"
    "file_bytes fs1 p = Some (segment_bytes s e first kept')" "o_buffer (w_file w') = []"
    "session_ok unpadded (length kept') p s e first (start_session kept' fs1 w')"
    by (rule open_stored_segment [OF nz stored(1,2) len stored(3-6) dirs, of outcomes]) blast+
  have same: "w' = w" "fs1 = fs'" using k(4) new(1) by simp_all
  have "kept = kept'" using kept k(2,3) unfolding same by (auto simp: prefix_def)
  moreover have "list_all unpadded kept'" using stored(3) k(2) by (auto simp: prefix_def)
  ultimately show ?thesis using log_in_order_start [OF k(7)] k(1,5-7) unfolding same by auto
qed

lemma failed_open_leaves_state:
  assumes nz: "s \<noteq> 0" "e \<noteq> 0" "first \<noteq> 0" "unat first \<le> 2 ^ 63"
    and st: "segment_state p s e first log tried fs"
    and new: "new_segment_writer fs outcomes p s e first = Some (w, fs')" "w_writer_error w \<noteq> NoError"
    and range: "file_in_range fs p" and files: "files = fs' \<or> files = close_segment_writer fs' w"
  shows "segment_state p s e first log tried files"
  using st
proof (cases rule: segment_state_cases)
  case fresh
  let ?out = "w_file w"
  have tried: "list_all unpadded tried" using st by (simp add: segment_state_def)
  note w = fresh_writer_facts [OF new(1) fresh(1)]
  show ?thesis
  proof (cases "files p = None")
    case True
    then show ?thesis using fresh(2) tried by (simp add: segment_state_def)
  next
    case False
    have "\<exists>disk. file_bytes files p = Some disk \<and> prefix disk (o_buffer ?out)"
    proof (cases "files = fs'")
      case True
      then show ?thesis using w(3) fresh(1) False by (auto simp: file_bytes_Some split: if_splits)
    next
      case closed: False
      then have c: "files = close_segment_writer fs' w" using files by blast
      show ?thesis
      proof (cases "o_open ?out")
        case True
        then have "file_bytes fs' p = Some []" using w(3) by (simp add: file_bytes_Some)
        then show ?thesis using close_writer_bytes [OF _ w(1)] c by (metis append_Nil)
      next
        case False
        then show ?thesis using closed c close_unopened [of w fs'] by simp
      qed
    qed
    then obtain disk where "file_bytes files p = Some disk" "prefix disk (o_buffer ?out)" by blast
    then show ?thesis
      using segment_stateI [of files p disk tried log s e first] fresh(2) w(2) tried
        prefix_segment_header prefix_order.trans by (metis Nil_prefix)
  qed
next
  case torn
  then have "files p = fs p" using new_writer_torn_header [OF _ new(1)] close_unopened files by metis
  then show ?thesis using st by (simp add: segment_state_def)
next
  case (stored disk)
  obtain fs0 where dirs: "ensure_parent_directory_exists fs p = Some fs0"
    by (rule new_writer_dirs [OF new(1)])
  have len: "length disk < 2 ^ 63" using range stored(1) by (simp add: file_in_range_def)
  have "\<exists>w' fs1. new_segment_writer fs outcomes p s e first = Some (w', fs1) \<and> w_writer_error w' = NoError"
    by (rule open_stored_segment [OF nz stored(1,2) len stored(3-6) dirs, of outcomes]) blast+
  then show ?thesis using new by simp
qed

section \<open>Stopping and recovery\<close>

text \<open>Whatever part of the buffer reaches the device, the state is one of the invariant.\<close>

lemma stopped_session_state:
  assumes ok: "session_ok unpadded base p s e first x" and order: "log_in_order p s e first tried x"
    and tried: "list_all unpadded tried"
    and files: "\<And>disk. file_bytes (ses_files x) p = Some disk \<Longrightarrow> \<exists>disk'. file_bytes files p = Some disk' \<and>
      prefix disk disk' \<and> prefix disk' (disk @ o_buffer (w_file (ses_writer x)))"
  shows "segment_state p s e first (ses_committed x) tried files"
proof -
  obtain disk more where d: "file_bytes (ses_files x) p = Some disk" "prefix (ses_accepted x @ more) tried"
    "prefix (disk @ o_buffer (w_file (ses_writer x))) (segment_bytes s e first (ses_accepted x @ more))"
    using order unfolding log_in_order_def by blast
  obtain disk' where d': "file_bytes files p = Some disk'" "prefix disk disk'"
    "prefix disk' (disk @ o_buffer (w_file (ses_writer x)))"
    using files [OF d(1)] by blast
  show ?thesis
  proof (rule segment_stateI [OF d'(1) tried])
    show "prefix (ses_committed x) tried"
      using prefix_prefix [OF session_ok_fields(5) [OF ok], of more] d(2) by (rule prefix_order.trans)
    show "prefix disk' (segment_bytes s e first tried)"
      using d'(3) d(3) prefix_segment_bytes [OF d(2)] prefix_order.trans by blast
    show "prefix (segment_bytes s e first (ses_committed x)) disk'" if "ses_committed x \<noteq> []"
      using ok d(1) that d'(2) prefix_order.trans unfolding session_ok_def on_disk_def by fastforce
  qed
qed

lemma recovered_segment_state:
  assumes nz: "s \<noteq> 0" "e \<noteq> 0" "first \<noteq> 0"
    and st: "segment_state p s e first log tried fs" and range: "file_in_range fs p"
    and rec: "recover_wal_segment fs p = Some (result, fs')"
  shows "segment_state p s e first log tried fs' \<and>
    (log \<noteq> [] \<longrightarrow> recovery_ok result \<and>
       (\<exists>kept. prefix log kept \<and> file_bytes fs' p = Some (segment_bytes s e first kept)))"
  using st
proof (cases rule: segment_state_cases)
  case fresh
  have "scan_segment (file_bytes fs p) = empty_scan_result\<lparr>scan_error := scan_error (scan_segment (file_bytes fs p))\<rparr>
      \<and> scan_error (scan_segment (file_bytes fs p)) \<noteq> IncompleteTrailingRecord"
    using fresh(1) scan_torn_header [of "[]"]
    by (auto simp: scan_segment_def file_bytes_def empty_scan_result_def sizeof_segment_header_def)
  then have "fs' = fs"
    using rec by (auto simp: recover_wal_segment_def Let_def empty_scan_result_def split: if_splits option.splits)
  then show ?thesis using st fresh(2) by simp
next
  case torn
  then show ?thesis using recover_torn_header [OF torn(1)] rec st by auto
next
  case (stored disk)
  have "cut_off s e first tried disk"
    using nz stored range by (auto simp: cut_off_def file_in_range_def)
  then obtain kept fs1 result' where k: "prefix kept tried"
    "\<forall>c. prefix c tried \<and> prefix (segment_bytes s e first c) disk \<longrightarrow> prefix c kept"
    "recover_wal_segment fs p = Some (result', fs1)" "recovery_ok result'"
    "file_bytes fs1 p = Some (segment_bytes s e first kept)"
    by (rule recover_cut_off [OF _ stored(1)]) (rule that, assumption+, simp_all)
  then have log: "prefix log kept" using stored(4,6) by (cases "log = []") auto
  have "segment_state p s e first log tried fs1"
    using segment_stateI [OF k(5) stored(3,4)] prefix_segment_bytes [OF k(1)] prefix_segment_bytes [OF log]
    by blast
  then show ?thesis using k(3-5) rec log by auto
qed

section \<open>Every step keeps the invariant and the committed records\<close>

lemma session_step_keeps:
  assumes "session_ok unpadded base p s e first x" "op_good unpadded op"
  shows "session_ok unpadded base p s e first (session_step op x)"
    "prefix (ses_committed x) (ses_committed (session_step op x))"
proof -
  show "session_ok unpadded base p s e first (session_step op x)"
    using session_ok_run [OF assms(1), of "[op]"] assms(2) by (simp add: run_session_def)
  have "prefix (ses_committed x) (ses_accepted x)" by (rule session_ok_fields [OF assms(1)])
  then show "prefix (ses_committed x) (ses_committed (session_step op x))"
    by (cases op) (auto simp: split_beta split: option.splits prod.splits)
qed

lemma operate_keeps:
  assumes ok: "life_ok p s e first (Running x tried)" and op: "op_good unpadded op"
  shows "life_ok p s e first (Running (session_step op x) (tried @ appended_records [op]))"
proof -
  obtain base where b: "session_ok unpadded base p s e first x" using ok by auto
  have "log_in_order p s e first (tried @ appended_records [op]) (run_session [op] x)"
    using log_in_order_run [OF b] ok op by simp
  moreover have "list_all unpadded (appended_records [op])"
    using op_good_appended [of unpadded "[op]"] op by simp
  ultimately show ?thesis using session_step_keeps(1) [OF b op] ok by (auto simp: run_session_def)
qed

lemma stopping_keeps:
  assumes ok: "life_ok p s e first (Running x tried)"
    and files: "files = close_segment_writer (ses_files x) (ses_writer x) \<or>
      files = append_to_file (ses_files x) p (take n (o_buffer (w_file (ses_writer x))))"
  shows "life_ok p s e first (Stopped files (ses_committed x) tried)"
proof -
  obtain base where b: "session_ok unpadded base p s e first x" and o: "log_in_order p s e first tried x"
    and tried: "list_all unpadded tried" using ok by auto
  have "\<exists>disk'. file_bytes files p = Some disk' \<and> prefix disk disk' \<and>
      prefix disk' (disk @ o_buffer (w_file (ses_writer x)))" if "file_bytes (ses_files x) p = Some disk" for disk
    using files close_writer_bytes [OF that session_ok_fields(1) [OF b]] file_bytes_append_to_file [OF that]
    by (metis prefixI same_prefix_prefix take_is_prefix)
  from stopped_session_state [OF b o tried this] show ?thesis by simp
qed

lemma life_step_keeps:
  assumes nz: "s \<noteq> 0" "e \<noteq> 0" "first \<noteq> 0" "unat first \<le> 2 ^ 63"
    and step: "life_step unpadded p s e first st st'" and ok: "life_ok p s e first st"
  shows "life_ok p s e first st' \<and> prefix (known_committed st) (known_committed st')"
  using step
proof cases
  case (open_segment fs outcomes w fs' kept tried log)
  then show ?thesis
    using opened_life_ok [OF nz _ open_segment(3-6)] ok by (simp add: start_session_def)
next
  case (open_failed fs outcomes w fs' files log tried)
  then show ?thesis using failed_open_leaves_state [OF nz _ open_failed(3-6)] ok by simp
next
  case (operate op x tried)
  then obtain base where b: "session_ok unpadded base p s e first x" using ok by auto
  show ?thesis
    using operate_keeps [of p s e first x tried op, OF _ operate(3)] session_step_keeps(2) [OF b operate(3)] ok
    unfolding operate by simp
next
  case (close_writer x tried)
  then show ?thesis using stopping_keeps [OF _ disjI1 [OF refl]] ok by simp
next
  case (crash files x n tried)
  then show ?thesis using stopping_keeps [OF _ disjI2 [OF crash(3)]] ok by simp
next
  case (recover_segment fs result fs' log tried)
  then show ?thesis using recovered_segment_state [OF nz(1-3) _ recover_segment(4,3)] ok by simp
qed

lemma life_steps_keep:
  assumes nz: "s \<noteq> 0" "e \<noteq> 0" "first \<noteq> 0" "unat first \<le> 2 ^ 63"
    and steps: "(life_step unpadded p s e first)\<^sup>*\<^sup>* st st'" and ok: "life_ok p s e first st"
  shows "life_ok p s e first st' \<and> prefix (known_committed st) (known_committed st')"
  using steps
proof (induction rule: rtranclp_induct)
  case base
  then show ?case using ok by simp
next
  case (step st' st'')
  then show ?case using life_step_keeps [OF nz step.hyps(2)] prefix_order.trans by blast
qed

lemma life_ok_start: "fs p = None \<Longrightarrow> life_ok p s e first (Stopped fs [] [])"
  by (simp add: segment_state_def)

lemma life_ok_committed:
  assumes "life_ok p s e first st" "known_committed st \<noteq> []"
  shows "\<exists>disk. file_bytes (life_files st) p = Some disk \<and>
    prefix (segment_bytes s e first (known_committed st)) disk"
proof (cases st)
  case (Stopped fs log tried)
  then show ?thesis using assms by (auto elim: segment_stateE)
next
  case (Running x tried)
  then show ?thesis using assms by (auto simp: session_ok_def on_disk_def)
qed

end
