(* ===== verification/LifecycleProperties.thy ===== *)
theory LifecycleProperties
  imports WalLifecycle WalProperties
begin

text \<open>
  The properties of a segment over its whole life: what was committed survives any number of crashes,
  recoveries and writers, and a stopped segment can go on unless its header is torn.
\<close>

lemma list_all_append_ops: "list_all (op_good good) (map append_op rs) \<longleftrightarrow> list_all good rs"
  by (induction rs) auto

lemma appended_append_ops: "appended_records (map append_op rs @ ops) = rs @ appended_records ops"
  by (induction rs) auto

lemma running_steps:
  assumes "list_all (op_good good) ops"
  shows "(life_step good p s e first)\<^sup>*\<^sup>* (Running x tried)
    (Running (run_session ops x) (tried @ appended_records ops))"
  using assms
proof (induction ops arbitrary: x tried)
  case (Cons op ops)
  have "life_step good p s e first (Running x tried) (Running (session_step op x) (tried @ appended_records [op]))"
    using Cons.prems by (intro operate) simp
  moreover have "run_session (op # ops) x = run_session ops (session_step op x)"
    by (simp add: run_session_def)
  moreover have "appended_records (op # ops) = appended_records [op] @ appended_records ops"
    by (cases op) simp_all
  ultimately show ?case
    using Cons.IH [of "session_step op x" "tried @ appended_records [op]"] Cons.prems
    by (simp add: converse_rtranclp_into_rtranclp)
qed (simp add: run_session_def)

text \<open>An accepting writer commits what it is given.\<close>

lemma accepting_commits:
  assumes "accepting w"
  shows "ses_committed (run_session (map append_op rs @ [Commit]) (start_session kept fs w)) = kept @ rs"
    "accepting (ses_writer (run_session (map append_op rs @ [Commit]) (start_session kept fs w)))"
proof -
  have a: "accepting (ses_writer (start_session kept fs w))" using assms by (simp add: start_session_def)
  note r = run_appends_accepting [OF a, of rs]
  show "ses_committed (run_session (map append_op rs @ [Commit]) (start_session kept fs w)) = kept @ rs"
    "accepting (ses_writer (run_session (map append_op rs @ [Commit]) (start_session kept fs w)))"
    using r run_commit_accepting [of "run_session (map append_op rs) (start_session kept fs w)"]
    by (simp_all add: run_session_append start_session_def)
qed

lemma opened_running:
  assumes "new_segment_writer fs outcomes p s e first = Some (w, fs1)" "w_writer_error w = NoError"
    and "file_in_range fs p" "kept = take (found_records first w) tried" "list_all (op_good good) ops"
  shows "(life_step good p s e first)\<^sup>*\<^sup>* (Stopped fs log tried)
    (Running (run_session ops (start_session kept fs1 w)) (kept @ appended_records ops))"
  using open_segment [OF assms(1-4)] running_steps [OF assms(5)]
  by (rule converse_rtranclp_into_rtranclp)

text \<open>A sample life: two records are committed, the system stops with nothing else written.\<close>

lemma sample_life:
  obtains w fs1 where "new_segment_writer (\<lambda>_. None) [] [''a.wal''] 7 1 1 = Some (w, fs1)" "accepting w"
    "fs1 [''a.wal''] = Some (RegularFile [])"
    "(life_step unpadded [''a.wal''] 7 1 1)\<^sup>*\<^sup>* (Stopped (\<lambda>_. None) [] [])
       (Running (run_session sample_session (start_session [] fs1 w)) sample_log)"
    "life_step unpadded [''a.wal''] 7 1 1 (Stopped (\<lambda>_. None) [] []) (Running (start_session [] fs1 w) [])"
proof -
  obtain w fs1 where w: "new_segment_writer (\<lambda>_. None) [] [''a.wal''] 7 1 1 = Some (w, fs1)" "accepting w"
    "fs1 [''a.wal''] = Some (RegularFile [])"
    using new_writer_accepting [of "\<lambda>_. None" "[''a.wal'']" "\<lambda>_. None" 7 1 1]
    by (auto simp: ensure_parent_directory_exists_def)
  have err: "w_writer_error w = NoError" using w(2) by (simp add: accepting_def)
  have range: "file_in_range (\<lambda>_. None) [''a.wal'']" by (simp add: file_in_range_def file_bytes_def)
  have none: "[] = take (found_records 1 w) []" by simp
  have "appended_records sample_session = sample_log"
    by (simp add: sample_session_def appended_append_ops)
  then show ?thesis
    using that [OF w] opened_running [OF w(1) err range none sample_session_fits(1)]
      open_segment [OF w(1) err range none] by simp
qed

text \<open>
  C6: Durability over the whole life of a segment. However often writers are opened and closed, fail or
  are lost in a crash with any part of their buffer on the device, and however often the segment is
  recovered: a record that was once reported as committed stays at its place in the log, later
  states only add records behind it, and its bytes are in the file in every later state. This holds
  for records whose payload is a multiple of eight bytes long, as those of commands and events (a
  record torn inside its padding is not noticed when the segment is opened again), for a first
  sequence number of at most 2^63 and a file below 2^63 bytes.
\<close>

theorem acknowledged_records_survive_restarts:
  assumes "s \<noteq> 0" "e \<noteq> 0" "first \<noteq> 0" "unat first \<le> 2 ^ 63" "fs p = None"
    and "(life_step unpadded p s e first)\<^sup>*\<^sup>* (Stopped fs [] []) st"
    and "(life_step unpadded p s e first)\<^sup>*\<^sup>* st st'"
  shows "prefix (known_committed st) (known_committed st') \<and>
    (known_committed st \<noteq> [] \<longrightarrow>
       (\<exists>disk. file_bytes (life_files st') p = Some disk \<and>
          prefix (segment_bytes s e first (known_committed st)) disk))"
proof -
  have "life_ok p s e first st"
    using life_steps_keep [OF assms(1-4,6)] life_ok_start [of fs p] assms(5) by blast
  then have st': "life_ok p s e first st'" "prefix (known_committed st) (known_committed st')"
    using life_steps_keep [OF assms(1-4,7)] by blast+
  moreover have "known_committed st' \<noteq> []" if "known_committed st \<noteq> []" using st'(2) that by auto
  ultimately show ?thesis
    using life_ok_committed [OF st'(1)] prefix_segment_bytes [OF st'(2)] prefix_order.trans by metis
qed

lemma acknowledged_records_survive_restarts_witness:
  "\<exists>files disk. (life_step unpadded [''a.wal''] 7 1 1)\<^sup>*\<^sup>* (Stopped (\<lambda>_. None) [] [])
       (Stopped files sample_log sample_log) \<and>
     file_bytes files [''a.wal''] = Some disk \<and> prefix (segment_bytes 7 1 1 sample_log) disk"
proof -
  obtain w fs1 where w: "accepting w" and life: "(life_step unpadded [''a.wal''] 7 1 1)\<^sup>*\<^sup>* (Stopped (\<lambda>_. None) [] [])
       (Running (run_session sample_session (start_session [] fs1 w)) sample_log)"
    by (rule sample_life)
  let ?x = "run_session sample_session (start_session [] fs1 w)"
  have c: "ses_committed ?x = sample_log" using accepting_commits(1) [OF w] by (simp add: sample_session_def)
  let ?files = "close_segment_writer (ses_files ?x) (ses_writer ?x)"
  have step: "(life_step unpadded [''a.wal''] 7 1 1)\<^sup>*\<^sup>* (Running ?x sample_log) (Stopped ?files sample_log sample_log)"
    using close_writer [of unpadded "[''a.wal'']" 7 1 1 ?x sample_log] unfolding c by (rule r_into_rtranclp)
  have "sample_log \<noteq> []" by (simp add: sample_log_def)
  then show ?thesis
    using acknowledged_records_survive_restarts [OF _ _ _ _ refl life step] c
      rtranclp_trans [OF life step] by simp blast
qed

text \<open>
  C14: A stopped segment can go on. Whatever happened to it before, with records whose payloads are
  multiples of eight bytes long: if its header is complete or was never begun, then on a device that
  works a new writer opens it without an error, finds all records that were committed, and appends
  and commits any further such records behind them. The first sequence number is at most 2^63 and
  the file is below 2^63 bytes.
\<close>

theorem stopped_segment_can_go_on:
  assumes "s \<noteq> 0" "e \<noteq> 0" "first \<noteq> 0" "unat first \<le> 2 ^ 63" "fs p = None"
    and "(life_step unpadded p s e first)\<^sup>*\<^sup>* (Stopped fs [] []) (Stopped fs1 log tried)"
    and "\<not> header_torn fs1 p" "file_in_range fs1 p" "ensure_parent_directory_exists fs1 p = Some fs2"
    and "list_all unpadded rs"
  shows "\<exists>kept w fs3 x. prefix log kept \<and> prefix kept tried \<and>
    new_segment_writer fs1 [] p s e first = Some (w, fs3) \<and>
    x = run_session (map append_op rs @ [Commit]) (start_session kept fs3 w) \<and>
    (life_step unpadded p s e first)\<^sup>*\<^sup>* (Stopped fs1 log tried) (Running x (kept @ rs)) \<and>
    w_writer_error (ses_writer x) = NoError \<and> known_committed (Running x (kept @ rs)) = kept @ rs"
proof -
  have ops: "list_all (op_good unpadded) (map append_op rs @ [Commit])"
    using assms(10) by (simp add: list_all_append_ops)
  have "life_ok p s e first (Stopped fs1 log tried)"
    using life_steps_keep [OF assms(1-4,6)] life_ok_start [of fs p] assms(5) by blast
  then have st: "segment_state p s e first log tried fs1" by simp
  then have "\<exists>w fs3. new_segment_writer fs1 [] p s e first = Some (w, fs3) \<and> accepting w"
  proof (cases rule: segment_state_cases)
    case fresh
    then show ?thesis using fresh_writer_accepting [OF fresh(1) assms(9), of s e first] by blast
  next
    case torn
    then show ?thesis using assms(7) by simp
  next
    case (stored disk)
    have "length disk < 2 ^ 63" using assms(8) stored(1) by (simp add: file_in_range_def)
    note opn = open_stored_segment [OF assms(1-4) stored(1,2) this stored(3-6) assms(9), of "[]"]
    show ?thesis
      by (rule opn, assumption+) (force simp: accepting_def)
  qed
  then obtain w fs3 where w: "new_segment_writer fs1 [] p s e first = Some (w, fs3)" "accepting w" by blast
  let ?kept = "take (found_records first w) tried"
  have fine: "w_writer_error w = NoError" using w(2) by (simp add: accepting_def)
  have "prefix log ?kept" using opened_life_ok [OF assms(1-4) st w(1) fine assms(8) refl] by simp
  moreover have "prefix ?kept tried" by (rule take_is_prefix)
  moreover have "appended_records (map append_op rs @ [Commit]) = rs" by (simp add: appended_append_ops)
  ultimately show ?thesis
    using opened_running [OF w(1) fine assms(8) refl ops, of log] w(1) accepting_commits [OF w(2), of rs ?kept fs3]
    by (intro exI [of _ ?kept] exI [of _ w] exI [of _ fs3] exI) (auto simp: accepting_def)
qed

lemma stopped_segment_can_go_on_witness:
  "\<exists>files w x kept fs3. (life_step unpadded [''a.wal''] 7 1 1)\<^sup>*\<^sup>* (Stopped (\<lambda>_. None) [] [])
       (Stopped files sample_log sample_log) \<and>
     prefix sample_log kept \<and> new_segment_writer files [] [''a.wal''] 7 1 1 = Some (w, fs3) \<and>
     (life_step unpadded [''a.wal''] 7 1 1)\<^sup>*\<^sup>* (Stopped files sample_log sample_log) (Running x (kept @ sample_log)) \<and>
     ses_committed x = kept @ sample_log"
proof -
  obtain w fs1 where w: "new_segment_writer (\<lambda>_. None) [] [''a.wal''] 7 1 1 = Some (w, fs1)" "accepting w"
    and life: "(life_step unpadded [''a.wal''] 7 1 1)\<^sup>*\<^sup>* (Stopped (\<lambda>_. None) [] [])
       (Running (run_session sample_session (start_session [] fs1 w)) sample_log)"
    by (rule sample_life)
  let ?x = "run_session sample_session (start_session [] fs1 w)"
  let ?files = "close_segment_writer (ses_files ?x) (ses_writer ?x)"
  have c: "ses_committed ?x = sample_log" "ses_accepted ?x = sample_log" "accepting (ses_writer ?x)"
    using sample_session_run [of "start_session [] fs1 w"] w(2) by (simp_all add: start_session_def)
  have "session_ok record_fits 0 [''a.wal''] 7 1 1 ?x"
    using new_writer_session [OF w(1)] session_ok_run sample_session_fits(2) w(2) by (auto simp: accepting_def)
  from close_accepting [OF this c(3)]
  have f: "file_bytes ?files [''a.wal''] = Some (segment_bytes 7 1 1 sample_log)" unfolding c(2) .
  have stop: "(life_step unpadded [''a.wal''] 7 1 1)\<^sup>*\<^sup>* (Stopped (\<lambda>_. None) [] []) (Stopped ?files sample_log sample_log)"
    using rtranclp.rtrancl_into_rtrancl [OF life close_writer] unfolding c(1) .
  have facts: "\<not> header_torn ?files [''a.wal'']" "file_in_range ?files [''a.wal'']"
    "ensure_parent_directory_exists ?files [''a.wal''] = Some ?files"
    by (simp_all add: header_torn_def file_in_range_def f sample_log_lengths sizeof_segment_header_def
        ensure_parent_directory_exists_def)
  obtain kept v fs3 x where "prefix sample_log kept" "new_segment_writer ?files [] [''a.wal''] 7 1 1 = Some (v, fs3)"
    "(life_step unpadded [''a.wal''] 7 1 1)\<^sup>*\<^sup>* (Stopped ?files sample_log sample_log) (Running x (kept @ sample_log))"
    "known_committed (Running x (kept @ sample_log)) = kept @ sample_log"
    using stopped_segment_can_go_on [OF _ _ _ _ refl stop facts sample_log_unpadded(1)] by auto
  then show ?thesis using stop by fastforce
qed

text \<open>
  C40: A torn segment header is final. A crash that leaves only a part of the segment header, before
  anything was committed, leaves a file that no writer and no recovery accepts or repairs: all report
  \<open>InvalidSegmentHeader\<close>, and the file stays as it is in all later states. (The payloads are
  multiples of eight bytes long, the first sequence number is at most 2^63.)
\<close>

theorem torn_header_is_final:
  assumes "s \<noteq> 0" "e \<noteq> 0" "first \<noteq> 0" "unat first \<le> 2 ^ 63" "fs p = None"
    and "(life_step unpadded p s e first)\<^sup>*\<^sup>* (Stopped fs [] []) (Stopped fs1 log tried)" "header_torn fs1 p"
    and "(life_step unpadded p s e first)\<^sup>*\<^sup>* (Stopped fs1 log tried) st"
  shows "\<exists>fs2. st = Stopped fs2 [] tried \<and> fs2 p = fs1 p \<and>
    (\<forall>outcomes w fs3. new_segment_writer fs2 outcomes p s e first = Some (w, fs3) \<longrightarrow>
       w_writer_error w = InvalidSegmentHeader) \<and>
    (\<exists>result. recover_wal_segment fs2 p = Some (result, fs2) \<and>
       recovery_error result = InvalidSegmentHeader)"
proof -
  have "life_ok p s e first (Stopped fs1 log tried)"
    using life_steps_keep [OF assms(1-4,6)] life_ok_start [of fs p] assms(5) by blast
  then have log: "log = []"
    using assms(7) committed_log_nonempty by (fastforce simp: header_torn_def elim: segment_stateE)
  have "\<exists>fs2. st = Stopped fs2 [] tried \<and> fs2 p = fs1 p"
    using assms(8)
  proof (induction rule: rtranclp_induct)
    case base
    then show ?case using log by simp
  next
    case (step st st')
    then obtain fs2 where fs2: "st = Stopped fs2 [] tried" "fs2 p = fs1 p" by blast
    then have torn: "header_torn fs2 p" using assms(7) by (simp add: header_torn_def file_bytes_def)
    from step.hyps(2) [unfolded fs2] show ?case
      by (rule life_step_stopped)
        (use new_writer_torn_header [OF torn] recover_torn_header [OF torn] close_unopened fs2 in auto)
  qed
  then obtain fs2 where fs2: "st = Stopped fs2 [] tried" "fs2 p = fs1 p" by blast
  then have "header_torn fs2 p" using assms(7) by (simp add: header_torn_def file_bytes_def)
  then show ?thesis using fs2 new_writer_torn_header recover_torn_header by metis
qed

lemma torn_header_is_final_witness:
  "\<exists>files result. (life_step unpadded [''a.wal''] 7 1 1)\<^sup>*\<^sup>* (Stopped (\<lambda>_. None) [] []) (Stopped files [] []) \<and>
     header_torn files [''a.wal''] \<and> recover_wal_segment files [''a.wal''] = Some (result, files) \<and>
     recovery_error result = InvalidSegmentHeader"
proof -
  obtain w fs1 where w: "new_segment_writer (\<lambda>_. None) [] [''a.wal''] 7 1 1 = Some (w, fs1)" "accepting w"
    "fs1 [''a.wal''] = Some (RegularFile [])"
    and opened: "life_step unpadded [''a.wal''] 7 1 1 (Stopped (\<lambda>_. None) [] []) (Running (start_session [] fs1 w) [])"
    by (rule sample_life)
  let ?header = "encode_segment_header (make_segment_header 7 1 1)"
  have buffer: "o_buffer (w_file w) = ?header"
  proof (rule fresh_writer [OF w(1)])
    fix out
    assume "\<not> o_fail out \<Longrightarrow> o_open out \<and> o_buffer out = ?header"
      and "w = \<lparr>w_file_path = [''a.wal''], w_file = out, w_stream_id = 7,
        w_epoch = 1, w_next_sequence = 1, w_last_position = no_position,
        w_last_committed_position = no_position,
        w_writer_error = (if o_fail out then CannotWriteFile else NoError),
        w_pending_positions = [], w_committed_positions = []\<rparr>"
    then show "o_buffer (w_file w) = ?header" using w(2) by (simp add: accepting_def)
  qed simp
  let ?files = "append_to_file fs1 [''a.wal''] (take 10 ?header)"
  have "life_step unpadded [''a.wal''] 7 1 1 (Running (start_session [] fs1 w) []) (Stopped ?files [] [])"
    using crash [of ?files "start_session [] fs1 w" "[''a.wal'']" 10 unpadded 7 1 1 "[]"] buffer
    by (simp add: start_session_def)
  then have life: "(life_step unpadded [''a.wal''] 7 1 1)\<^sup>*\<^sup>* (Stopped (\<lambda>_. None) [] []) (Stopped ?files [] [])"
    using opened by (meson rtranclp.rtrancl_into_rtrancl rtranclp.rtrancl_refl)
  have "file_bytes ?files [''a.wal''] = Some (take 10 ?header)"
    using file_bytes_append_to_file [of fs1 "[''a.wal'']" "[]"] w(3) by (simp add: file_bytes_def)
  moreover have "length ?header = 40"
    by (simp add: segment_header_codec.length_encode sizeof_segment_header_def)
  ultimately have torn: "header_torn ?files [''a.wal'']"
    by (auto simp: header_torn_def sizeof_segment_header_def)
  show ?thesis
    using torn_header_is_final [OF _ _ _ _ refl life torn rtranclp.rtrancl_refl] life torn by auto
qed

end
