(* ===== verification/CrashReplay.thy ===== *)
theory CrashReplay
  imports StoredLogs LifecycleProperties ReplayProperties
begin

text \<open>
  The logs a crash leaves behind, and what replay says of them: the records of a session reach the
  file in the order of the appends, recovery keeps a prefix of them, and replay of a prefix of the
  commands against a prefix of the events names exactly what is missing.
\<close>

section \<open>Replay of logs that were cut off\<close>

definition cut_verdict ::
  "ExecutionEventRecordV1 list \<Rightarrow> ExecutionEventRecordV1 list \<Rightarrow> u64 \<Rightarrow> ReplayResult \<Rightarrow> bool" where
  "cut_verdict gen evs m res \<longleftrightarrow>
     res_ok res = (evs = gen) \<and>
     res_events_compared res = m + of_nat (min (length gen) (length evs)) \<and>
     f_failure_class (res_failure res) =
       (if evs = gen then NoFailure else if prefix evs gen then StoredEventMissing else ExtraStoredEvent) \<and>
     f_expected_event (res_failure res) = (if strict_prefix evs gen then Some (gen ! length evs) else None) \<and>
     f_actual_event (res_failure res) = (if strict_prefix gen evs then Some (evs ! length gen) else None)"

lemma cut_verdict_append: "cut_verdict gen evs (m + of_nat (length es)) res \<Longrightarrow> cut_verdict (es @ gen) (es @ evs) m res"
  by (auto simp: cut_verdict_def strict_prefix_def nth_append add.assoc simp flip: of_nat_add min_add_distrib_right)

context replay_logs
begin

lemma compare_generated_equal:
  assumes "has_events er (generated @ stored) e"
  obtains er' where "compare_generated read_event c bf af generated i er k = (Inr er', k + of_nat (length generated))"
    "has_events er' stored e"
  using compare_generated_cases [OF assms, of generated c bf af i k] diverges_neq by fastforce

lemma compare_generated_missing:
  assumes "has_events er stored EndOfLog" "strict_prefix stored generated"
  shows "\<exists>f. compare_generated read_event c bf af generated i er k = (Inl f, k + of_nat (length stored)) \<and>
    f_failure_class f = StoredEventMissing \<and> f_expected_event f = Some (generated ! length stored) \<and>
    f_actual_event f = None"
  using assms
proof (induction stored arbitrary: er generated i k)
  case Nil
  then obtain g gs where gs: "generated = g # gs" by (cases generated) auto
  from Nil.prems(1) show ?case
    by (cases rule: events.read_end_cases) (auto simp: gs no_failure_def)
next
  case (Cons x xs)
  then obtain gs where gs: "generated = x # gs" "strict_prefix xs gs"
    by (cases generated) (auto simp: strict_prefix_def)
  obtain er' where rd: "read_event er = (RecordRead, x, er')" and xs: "has_events er' xs EndOfLog"
    using events.read_record Cons.prems(1) by blast
  have step: "compare_generated read_event c bf af (x # gs) i er k =
      compare_generated read_event c bf af gs (i + 1) er' (k + 1)"
    using rd compare_events_equal [of x x] by (simp add: Let_def)
  show ?case
    using Cons.IH [OF xs gs(2), of "i + 1" "k + 1"] unfolding gs(1) step by (simp add: add.assoc)
qed

lemma replay_tail_cut:
  assumes "has_events er evs EndOfLog"
  shows "cut_verdict [] evs m (replay_tail read_event er n m)"
proof (cases evs)
  case Nil
  then have "has_events er [] EndOfLog" using assms by simp
  then show ?thesis
    by (cases rule: events.read_end_cases)
      (auto simp: Nil cut_verdict_def replay_tail_def no_failure_def)
next
  case (Cons x xs)
  then obtain er' where "read_event er = (RecordRead, x, er')"
    using events.read_record assms by blast
  then show ?thesis
    by (simp add: Cons cut_verdict_def replay_tail_def failed_result_def no_failure_def)
qed

lemma replay_loop_cut:
  assumes "has_commands cr cmds EndOfLog" "has_events er evs EndOfLog" "engine_inv g"
    and "follows prev (map c_command_sequence cmds)"
    and "prefix evs (fst (run_commands engine_apply g cmds)) \<or> prefix (fst (run_commands engine_apply g cmds)) evs"
  shows "\<exists>res. replay_loop read_command read_event cr er g prev n m = Some res \<and>
    cut_verdict (fst (run_commands engine_apply g cmds)) evs m res"
  using assms
proof (induction cmds arbitrary: cr er evs g prev n m)
  case Nil
  then show ?case using replay_loop_end [of cr EndOfLog er g prev n m] replay_tail_cut by simp
next
  case (Cons c cmds)
  obtain cr' where rd: "read_command cr = (RecordRead, c, cr')" and cr': "has_commands cr' cmds EndOfLog"
    using commands.read_record Cons.prems(1) by blast
  obtain gen g' where ap: "engine_apply g c = (gen, g')" by (cases "engine_apply g c")
  let ?rest = "fst (run_commands engine_apply g' cmds)"
  have run: "fst (run_commands engine_apply g (c # cmds)) = gen @ ?rest"
    by (rule run_commands_Cons [of engine_apply, OF ap])
  have inv: "engine_inv g'" using engine_inv_apply [OF Cons.prems(3), of c] ap by simp
  then have ok: "validate_invariants (engine_order_book g')"
    unfolding engine_inv_def by (rule validate_invariants_of_book_inv)
  have fol: "\<not> (prev \<noteq> None \<and> c_command_sequence c \<noteq> the prev + 1)"
    "follows (Some (c_command_sequence c)) (map c_command_sequence cmds)"
    using Cons.prems(4) by (simp_all add: follows_Cons)
  note step = replay_loop_step [OF rd fol(1) ap ok]
  consider "strict_prefix evs gen" | evs' where "evs = gen @ evs'" "prefix evs' ?rest \<or> prefix ?rest evs'"
  proof -
    consider "prefix evs gen" | evs' where "evs = gen @ evs'" "prefix evs' ?rest \<or> prefix ?rest evs'"
      using Cons.prems(5) unfolding run prefix_append by (auto simp: prefix_def)
    then show thesis using that by cases (cases "evs = gen", auto simp: strict_prefix_def)
  qed
  then show ?case
  proof cases
    case 1
    obtain f where f: "compare_generated read_event c (snapshot (engine_order_book g))
        (snapshot (engine_order_book g')) gen 0 er m = (Inl f, m + of_nat (length evs))"
      "f_failure_class f = StoredEventMissing" "f_expected_event f = Some (gen ! length evs)"
      "f_actual_event f = None"
      using compare_generated_missing [OF Cons.prems(2) 1] by blast
    have len: "length evs < length gen" using 1 by (rule prefix_length_less)
    have pre: "strict_prefix evs (gen @ ?rest)" using 1 by (auto simp: strict_prefix_def prefix_def)
    then have "evs \<noteq> gen @ ?rest" "prefix evs (gen @ ?rest)" "\<not> strict_prefix (gen @ ?rest) evs"
      unfolding strict_prefix_def using prefix_order.antisym by blast+
    moreover have "min (length (gen @ ?rest)) (length evs) = length evs" using len by simp
    moreover have "(gen @ ?rest) ! length evs = gen ! length evs" using len by (simp add: nth_append)
    ultimately have "cut_verdict (gen @ ?rest) evs m (failed_result f n (m + of_nat (length evs)))"
      using pre f(2-4) by (simp only: cut_verdict_def failed_result_def ReplayResult.simps if_True if_False simp_thms)
    then show ?thesis unfolding run using step [OF f(1)] by simp
  next
    case (2 evs')
    obtain er' where er': "compare_generated read_event c (snapshot (engine_order_book g))
        (snapshot (engine_order_book g')) gen 0 er m = (Inr er', m + of_nat (length gen))"
      "has_events er' evs' EndOfLog"
      using compare_generated_equal Cons.prems(2) unfolding 2(1) by blast
    obtain res where res: "replay_loop read_command read_event cr' er' g' (Some (c_command_sequence c))
        (n + 1) (m + of_nat (length gen)) = Some res"
      "cut_verdict ?rest evs' (m + of_nat (length gen)) res"
      using Cons.IH [OF cr' er'(2) inv fol(2) 2(2)] by blast
    then have "cut_verdict (gen @ ?rest) evs m res" unfolding 2(1) by (intro cut_verdict_append)
    then show ?thesis unfolding run using step [OF er'(1)] res(1) by simp
  qed
qed

end

section \<open>Logs after a crash\<close>

text \<open>A session stops: a crash leaves any part of the buffer on the device, or the writer is closed.\<close>

definition stops_as :: "wal_session \<Rightarrow> path \<Rightarrow> file_system \<Rightarrow> bool" where
  "stops_as x p files \<longleftrightarrow>
     (\<exists>n. files = append_to_file (ses_files x) p (take n (o_buffer (w_file (ses_writer x))))) \<or>
     files = close_segment_writer (ses_files x) (ses_writer x)"

text \<open>
  The file \<open>p\<close> is what a session left that tried to append \<open>rs\<close> to a new segment, in this order, with
  commits anywhere between, on any device; \<open>committed\<close> were reported as committed.
\<close>

definition crashed_log ::
  "path \<Rightarrow> u64 \<Rightarrow> u64 \<Rightarrow> log_record list \<Rightarrow> log_record list \<Rightarrow> file_system \<Rightarrow> bool" where
  "crashed_log p s first rs committed fs \<longleftrightarrow>
     (\<exists>fs0 outcomes w fs1 ops files.
        new_segment_writer fs0 outcomes p s wal_epoch first = Some (w, fs1) \<and> fs0 p = None \<and>
        appended_records ops = rs \<and> ses_committed (run_session ops (start_session [] fs1 w)) = committed \<and>
        stops_as (run_session ops (start_session [] fs1 w)) p files \<and> fs p = files p)"

lemma stops_as_bytes:
  assumes "stops_as x p files" "file_bytes (ses_files x) p = Some disk" "w_file_path (ses_writer x) = p"
  obtains disk' where "file_bytes files p = Some disk'" "prefix disk disk'"
    "prefix disk' (disk @ o_buffer (w_file (ses_writer x)))"
proof -
  consider n where "files = append_to_file (ses_files x) p (take n (o_buffer (w_file (ses_writer x))))"
    | "files = close_segment_writer (ses_files x) (ses_writer x)"
    using assms(1) unfolding stops_as_def by blast
  then show ?thesis
  proof cases
    case (1 n)
    then show ?thesis
      using that file_bytes_append_to_file [OF assms(2)] by (simp add: take_is_prefix)
  next
    case 2
    then show ?thesis using that close_writer_bytes [OF assms(2,3)] by blast
  qed
qed

lemma recover_other:
  assumes "recover_wal_segment fs p = Some (result, fs')" "q \<noteq> p"
  shows "fs' q = fs q"
  using assms by (auto simp: recover_wal_segment_def wal_file_truncate_def Let_def split: if_splits option.splits)

lemma crashed_log_recovered:
  assumes crash: "crashed_log p s first rs committed fs" "committed \<noteq> []"
    and nz: "s \<noteq> 0" "first \<noteq> 0" and rs: "list_all unpadded rs" and range: "file_in_range fs p"
  obtains kept result fs' where "recover_wal_segment fs p = Some (result, fs')" "recovery_ok result"
    "prefix committed kept" "prefix kept rs" "file_bytes fs' p = Some (segment_bytes s wal_epoch first kept)"
proof -
  obtain fs0 outcomes w fs1 ops files where
    new: "new_segment_writer fs0 outcomes p s wal_epoch first = Some (w, fs1)" "fs0 p = None"
    and ops: "appended_records ops = rs"
    and com: "ses_committed (run_session ops (start_session [] fs1 w)) = committed"
    and stop: "stops_as (run_session ops (start_session [] fs1 w)) p files" "fs p = files p"
    using crash(1) unfolding crashed_log_def by blast
  let ?x = "run_session ops (start_session [] fs1 w)"
  have fine: "w_writer_error w = NoError"
    using failed_writer_run [of "start_session [] fs1 w" ops] com crash(2)
    by (auto simp: start_session_def)
  have good: "list_all (op_good unpadded) ops" using rs ops by (simp add: op_good_appended)
  note start = new_writer_session [OF new fine, of unpadded]
  have ok: "session_ok unpadded 0 p s wal_epoch first ?x" by (rule session_ok_run [OF start good])
  have "log_in_order p s wal_epoch first rs ?x"
    using log_in_order_run [OF start log_in_order_fresh [OF new(1) disjI1 [OF new(2)] fine] good] ops by simp
  then obtain disk more where d: "file_bytes (ses_files ?x) p = Some disk" "prefix (ses_accepted ?x @ more) rs"
    "prefix (disk @ o_buffer (w_file (ses_writer ?x))) (segment_bytes s wal_epoch first (ses_accepted ?x @ more))"
    unfolding log_in_order_def by blast
  have c: "prefix (segment_bytes s wal_epoch first committed) disk"
    using ok d(1) com crash(2) unfolding session_ok_def on_disk_def by auto
  have "prefix committed (ses_accepted ?x)" using session_ok_fields(5) [OF ok] com by simp
  then have pre: "prefix committed (ses_accepted ?x @ more)" by (rule prefix_prefix)
  obtain disk' where d': "file_bytes files p = Some disk'" "prefix disk disk'"
    "prefix disk' (disk @ o_buffer (w_file (ses_writer ?x)))"
    by (rule stops_as_bytes [OF stop(1) d(1) session_ok_fields(1) [OF ok]])
  have bytes: "file_bytes fs p = Some disk'" using d'(1) stop(2) by (simp add: file_bytes_def)
  have "list_all unpadded (ses_accepted ?x @ more)" using rs d(2) by (auto simp: prefix_def)
  then have "cut_off s wal_epoch first (ses_accepted ?x @ more) disk'"
    using nz prefix_order.trans [OF d'(3) d(3)] range bytes
      committed_log_nonempty [OF prefix_order.trans [OF c d'(2)]]
    by (simp add: cut_off_def wal_epoch_def file_in_range_def)
  from recover_cut_off [OF this bytes] obtain kept fs' result where
    k: "prefix kept (ses_accepted ?x @ more)" "recover_wal_segment fs p = Some (result, fs')" "recovery_ok result"
    "\<forall>c. prefix c (ses_accepted ?x @ more) \<and> prefix (segment_bytes s wal_epoch first c) disk' \<longrightarrow> prefix c kept"
    "file_bytes fs' p = Some (segment_bytes s wal_epoch first kept)"
    by (metis WalRecoveryResult.select_convs(1))
  have "prefix (segment_bytes s wal_epoch first committed) disk'" using c d'(2) by (rule prefix_order.trans)
  then have "prefix committed kept" using k(4) pre by blast
  moreover have "prefix kept rs" using k(1) d(2) by (rule prefix_order.trans)
  ultimately show ?thesis using that k by blast
qed

text \<open>A prefix of a stored log is the log of some of the records.\<close>

lemma prefix_log_entries:
  assumes "prefix kept (log_entries encode t pads n xs)"
  shows "kept = log_entries encode t pads n (take (length kept) xs)"
  using assms
proof (induction xs arbitrary: kept n)
  case (Cons x xs)
  then show ?case by (cases kept) auto
qed simp

lemma log_entries_unpadded:
  assumes "\<And>pad x. length (encode pad x) = len" "len < 2 ^ 32 - 64" "8 dvd len"
  shows "list_all unpadded (log_entries encode t pads n xs)"
  using assms
  by (induction encode t pads n xs rule: log_entries.induct)
    (simp_all add: unpadded_def record_fits_def payload_fits_def)

lemma follows_take: "follows prev xs \<Longrightarrow> follows prev (take n xs)"
proof (induction prev xs arbitrary: n rule: follows.induct)
  case (2 x xs)
  then show ?case by (cases n) simp_all
next
  case (3 p x xs)
  then show ?case by (cases n) auto
qed simp

lemma run_engine_prefix: "prefix (run_engine (take k cs)) (run_engine cs)"
  using run_commands_append [of engine_apply _ "take k cs" "drop k cs"]
  by (simp add: run_engine_def split_beta Let_def)

text \<open>What is read back from the recovered log of a crashed session.\<close>

lemma recovered_records:
  assumes crash: "crashed_log p s first (log_entries encode t pads 0 xs) committed fs" "committed \<noteq> []"
    and nz: "s \<noteq> 0" "first \<noteq> 0" and range: "file_in_range fs p" "unat first + length xs \<le> 2 ^ 64"
    and codec: "\<And>pad. codec (encode pad) decode len" and len: "len < 2 ^ 32 - 64" "8 dvd len"
  obtains k result fs' where "recover_wal_segment fs p = Some (result, fs')" "recovery_ok result"
    "length committed \<le> k" "k \<le> length xs"
    "\<And>fs''. fs'' p = fs' p \<Longrightarrow>
       stored_records decode len t (file_content fs'' p) (open_reader fs'' p) = (take k xs, EndOfLog)"
proof -
  have un: "list_all unpadded (log_entries encode t pads 0 xs)"
    by (rule log_entries_unpadded [OF codec.length_encode [OF codec] len])
  obtain kept result fs' where k: "recover_wal_segment fs p = Some (result, fs')" "recovery_ok result"
    "prefix committed kept" "prefix kept (log_entries encode t pads 0 xs)"
    "file_bytes fs' p = Some (segment_bytes s wal_epoch first kept)"
    by (rule crashed_log_recovered [OF crash nz un range(1)])
  have "length kept \<le> length xs" using prefix_length_le [OF k(4)] by simp
  moreover have "stored_records decode len t (file_content fs'' p) (open_reader fs'' p) =
      (take (length kept) xs, EndOfLog)" if "fs'' p = fs' p" for fs''
  proof (rule stored_log)
    have "kept = log_entries encode t pads 0 (take (length kept) xs)" by (rule prefix_log_entries [OF k(4)])
    then show "file_bytes fs'' p = Some (segment_bytes s wal_epoch first
        (log_entries encode t pads 0 (take (length kept) xs)))"
      using k(5) that by (simp add: file_bytes_def)
  qed (use nz range(2) codec len in \<open>simp_all add: wal_epoch_def\<close>)
  ultimately show ?thesis using that k(1,2) prefix_length_le [OF k(3)] by blast
qed

text \<open>The verdict on two prefixes of one list of events.\<close>

lemma cut_verdict_take:
  assumes "cut_verdict (take n es) (take m es) 0 res" "n \<le> length es" "m \<le> length es"
  shows "res_ok res = (m = n) \<and> res_events_compared res = of_nat (min n m) \<and>
    f_failure_class (res_failure res) =
      (if m = n then NoFailure else if m < n then StoredEventMissing else ExtraStoredEvent) \<and>
    f_expected_event (res_failure res) = (if m < n then Some (es ! m) else None) \<and>
    f_actual_event (res_failure res) = (if n < m then Some (es ! n) else None)"
proof -
  have eq: "take i es = take j es \<longleftrightarrow> i = j" if "i \<le> length es" "j \<le> length es" for i j
    using that by (metis length_take min.absorb2)
  have pre: "prefix (take i es) (take j es) \<longleftrightarrow> i \<le> j" if "i \<le> length es" "j \<le> length es" for i j
  proof
    show "i \<le> j" if "prefix (take i es) (take j es)"
      using prefix_length_le [OF that] \<open>i \<le> length es\<close> \<open>j \<le> length es\<close> by simp
    show "prefix (take i es) (take j es)" if "i \<le> j"
      using take_is_prefix [of i "take j es"] that by (simp add: min_def)
  qed
  show ?thesis
    using assms by (auto simp: cut_verdict_def strict_prefix_def eq pre)
qed

text \<open>Replay of a prefix of the commands against a prefix of the events of their run.\<close>

lemma replay_of_cut_logs:
  assumes logs: "stored_commands (file_content fs pc) (open_reader fs pc) = (take k cs, EndOfLog)"
    "stored_events (file_content fs pe) (open_reader fs pe) = (take m (run_engine cs), EndOfLog)"
    and "m \<le> length (run_engine cs)"
    and "map c_command_sequence cs = consecutive (hd (map c_command_sequence cs)) (length cs)"
  shows "\<exists>res. replay (command_replay_read (file_content fs pc)) (event_replay_read (file_content fs pe))
      (open_reader fs pc) (open_reader fs pe) (new_instrument_engine first_sequence_number) = Some res \<and>
    (let n = length (run_engine (take k cs)) in
     res_ok res = (m = n) \<and> res_events_compared res = of_nat (min n m) \<and>
     f_failure_class (res_failure res) =
       (if m = n then NoFailure else if m < n then StoredEventMissing else ExtraStoredEvent) \<and>
     f_expected_event (res_failure res) = (if m < n then Some (run_engine cs ! m) else None) \<and>
     f_actual_event (res_failure res) = (if n < m then Some (run_engine cs ! n) else None))"
proof -
  let ?gen = "run_engine (take k cs)"
  have run: "fst (run_commands engine_apply (new_instrument_engine first_sequence_number) (take k cs)) = ?gen"
    by (simp add: run_engine_def)
  have inv: "engine_inv (new_instrument_engine first_sequence_number)" by (rule engine_inv_new)
  have "follows None (map c_command_sequence cs)" using assms(4) by (simp add: follows_None)
  then have "follows None (map c_command_sequence (take k cs))" by (simp add: take_map [symmetric] follows_take)
  moreover have pre: "prefix ?gen (run_engine cs)" by (rule run_engine_prefix)
  then have "prefix (take m (run_engine cs)) ?gen \<or> prefix ?gen (take m (run_engine cs))"
    using prefix_same_cases take_is_prefix by blast
  ultimately obtain res where res: "replay (command_replay_read (file_content fs pc))
      (event_replay_read (file_content fs pe)) (open_reader fs pc) (open_reader fs pe)
      (new_instrument_engine first_sequence_number) = Some res"
    "cut_verdict ?gen (take m (run_engine cs)) 0 res"
    using wal_logs.replay_loop_cut [OF logs inv, of None 0 0] unfolding run replay_def by blast
  have "?gen = take (length ?gen) (run_engine cs)" "length ?gen \<le> length (run_engine cs)"
    using pre by (auto simp: prefix_def)
  then show ?thesis
    using cut_verdict_take [OF _ _ assms(3), of "length ?gen" res] res by (simp add: Let_def)
qed

text \<open>
  C3: After a crash replay says exactly what is missing. Let a session append the commands of a run to one
  log and another session its events to a second log, on any devices, and let both stop at any
  moment once something was committed. Then recovery of both files succeeds and keeps at least the
  committed records; replay of the recovered logs returns, compares all events both sides have
  without finding a difference, and succeeds, or reports the first event that is missing, or the
  first one for which the command is missing, according to which log reaches further.
\<close>

theorem replay_after_crash:
  assumes "crashed_log pc command_stream_id fc
      (log_entries encode_command order_command_record_type padsc 0 cs) cc fs" "cc \<noteq> []"
    and "crashed_log pe event_stream_id fe
      (log_entries encode_event execution_event_record_type padse 0 (run_engine cs)) ce fs" "ce \<noteq> []"
    and "pc \<noteq> pe" "file_in_range fs pc" "file_in_range fs pe"
    and "fc \<noteq> 0" "unat fc + length cs \<le> 2 ^ 64" "fe \<noteq> 0" "unat fe + length (run_engine cs) \<le> 2 ^ 64"
    and "map c_command_sequence cs = consecutive (hd (map c_command_sequence cs)) (length cs)"
  shows "\<exists>rc fs1 re fs2 k m res.
    recover_wal_segment fs pc = Some (rc, fs1) \<and> recovery_ok rc \<and> length cc \<le> k \<and> k \<le> length cs \<and>
    recover_wal_segment fs1 pe = Some (re, fs2) \<and> recovery_ok re \<and> length ce \<le> m \<and> m \<le> length (run_engine cs) \<and>
    replay (command_replay_read (file_content fs2 pc)) (event_replay_read (file_content fs2 pe))
      (open_reader fs2 pc) (open_reader fs2 pe) (new_instrument_engine first_sequence_number) = Some res \<and>
    (let n = length (run_engine (take k cs)) in
     res_ok res = (m = n) \<and> res_events_compared res = of_nat (min n m) \<and>
     f_failure_class (res_failure res) =
       (if m = n then NoFailure else if m < n then StoredEventMissing else ExtraStoredEvent) \<and>
     f_expected_event (res_failure res) = (if m < n then Some (run_engine cs ! m) else None) \<and>
     f_actual_event (res_failure res) = (if n < m then Some (run_engine cs ! n) else None))"
proof -
  obtain k rc fs1 where k: "recover_wal_segment fs pc = Some (rc, fs1)" "recovery_ok rc"
    "length cc \<le> k" "k \<le> length cs"
    and commands: "\<And>fs''. fs'' pc = fs1 pc \<Longrightarrow>
       stored_records decode_command sizeof_command order_command_record_type
         (file_content fs'' pc) (open_reader fs'' pc) = (take k cs, EndOfLog)"
    by (rule recovered_records [OF assms(1,2) _ assms(8,6,9) command_codec.codec_axioms])
      (simp_all add: command_stream_id_def sizeof_command_def)
  have same: "fs1 pe = fs pe" using recover_other [OF k(1)] assms(5) by simp
  then have "crashed_log pe event_stream_id fe
      (log_entries encode_event execution_event_record_type padse 0 (run_engine cs)) ce fs1"
    "file_in_range fs1 pe"
    using assms(3,7) by (simp_all add: crashed_log_def file_in_range_def file_bytes_def)
  from this(1) assms(4) _ assms(10) this(2) assms(11) event_codec.codec_axioms
  obtain m re fs2 where m: "recover_wal_segment fs1 pe = Some (re, fs2)" "recovery_ok re"
    "length ce \<le> m" "m \<le> length (run_engine cs)"
    and events: "\<And>fs''. fs'' pe = fs2 pe \<Longrightarrow>
       stored_records decode_event sizeof_event execution_event_record_type
         (file_content fs'' pe) (open_reader fs'' pe) = (take m (run_engine cs), EndOfLog)"
    by (rule recovered_records) (simp_all add: event_stream_id_def sizeof_event_def)
  have "fs2 pc = fs1 pc" using recover_other [OF m(1)] assms(5) by simp
  then have logs: "stored_commands (file_content fs2 pc) (open_reader fs2 pc) = (take k cs, EndOfLog)"
    "stored_events (file_content fs2 pe) (open_reader fs2 pe) = (take m (run_engine cs), EndOfLog)"
    using commands [of fs2] events [of fs2] by (simp_all add: stored_commands_def stored_events_def)
  from replay_of_cut_logs [OF this m(4) assms(12)] show ?thesis using k m by blast
qed

text \<open>A session that committed the first record and lost the others in a crash.\<close>

lemma lost_tail_log:
  assumes p: "p = [c]" and there: "fs p = Some (RegularFile (segment_bytes s wal_epoch first rs))" and rs: "rs \<noteq> []"
  shows "crashed_log p s first (rs @ rest) rs fs"
proof -
  obtain w fs1 where new: "new_segment_writer (\<lambda>_. None) [] p s wal_epoch first = Some (w, fs1)" "accepting w"
    using new_writer_accepting [of "\<lambda>_. None" p "\<lambda>_. None" s wal_epoch first]
    by (auto simp: p ensure_parent_directory_exists_def)
  let ?y = "run_session (map append_op rs @ [Commit]) (start_session [] fs1 w)"
  let ?ops = "(map append_op rs @ [Commit]) @ map append_op rest"
  let ?x = "run_session ?ops (start_session [] fs1 w)"
  have y: "ses_committed ?y = rs" "accepting (ses_writer ?y)"
    using accepting_commits [OF new(2), of rs "[]" fs1] by simp_all
  have ok: "session_ok (\<lambda>_. True) 0 p s wal_epoch first (run_session ops (start_session [] fs1 w))" for ops
  proof -
    have "list_all (op_good (\<lambda>_. True)) ops" unfolding op_good_appended by (simp add: list_all_iff)
    then show ?thesis
      using session_ok_run [OF new_writer_session [OF new(1)]] new(2) by (simp add: accepting_def)
  qed
  have "ses_accepted ?y = rs"
    using run_appends_accepting [of "start_session [] fs1 w" rs] new(2)
      run_commit_accepting [of "run_session (map append_op rs) (start_session [] fs1 w)"]
    by (simp add: run_session_append start_session_def)
  then have "file_bytes (ses_files ?y) p = Some (segment_bytes s wal_epoch first rs)"
    using settled_log(1) [OF ok] y rs by (simp add: accepting_def)
  then have "ses_files ?y p = fs p" using there by (simp add: file_bytes_Some)
  moreover have run: "?x = run_session (map append_op rest) ?y" by (rule run_session_append)
  ultimately have x: "ses_committed ?x = rs" "ses_files ?x p = fs p"
    using run_appends_accepting [OF y(2), of rest] y(1) unfolding run by simp_all
  let ?files = "append_to_file (ses_files ?x) p (take 0 (o_buffer (w_file (ses_writer ?x))))"
  have "stops_as ?x p ?files" unfolding stops_as_def by blast
  moreover have "fs p = ?files p" using x(2) there by (simp add: append_to_file_def file_bytes_def)
  moreover have "appended_records ?ops = rs @ rest"
    using appended_append_ops [of rest "[]"] by (simp add: appended_append_ops)
  ultimately show ?thesis unfolding crashed_log_def using new(1) x(1) by blast
qed

definition crash_files :: file_system where
  "crash_files =
     (\<lambda>_. None)([''c''] \<mapsto> RegularFile (segment_bytes command_stream_id wal_epoch 1
         (take 1 (log_entries encode_command order_command_record_type (\<lambda>_. (0, 0)) 0 sample_commands))),
       [''e''] \<mapsto> RegularFile (segment_bytes event_stream_id wal_epoch 1
         (take 2 (log_entries encode_event execution_event_record_type (\<lambda>_. (0, 0)) 0 (run_engine sample_commands)))))"

lemma length_segment_bytes_bound:
  assumes "\<And>r. r \<in> set rs \<Longrightarrow> length (snd (snd r)) \<le> 100"
  shows "length (segment_bytes s e first rs) \<le> 40 + length rs * 200"
proof -
  have "length (log_bytes s e q rs) \<le> length rs * 200" for q
    using assms
  proof (induction rs arbitrary: q)
    case (Cons r rs)
    obtain pb t payload where r: "r = (pb, t, payload)" by (cases r)
    have "length payload \<le> 100" using Cons.prems [of r] by (simp add: r)
    moreover from this have "unat (record_padding payload) < 8"
      by (intro record_lengths(4)) (simp add: payload_fits_def)
    ultimately have "length (record_bytes s e pb t payload q) \<le> 200" by (simp add: length_record_bytes)
    moreover have "length (log_bytes s e (q + 1) rs) \<le> length rs * 200" using Cons by simp
    ultimately show ?case by (simp add: r)
  qed simp
  from this [of first] show ?thesis
    by (simp add: segment_bytes_def segment_header_codec.length_encode sizeof_segment_header_def)
qed

lemma log_entries_payloads:
  assumes "r \<in> set (log_entries encode t pads n xs)" "\<And>pad x. length (encode pad x) = len"
  shows "length (snd (snd r)) = len"
  using assms by (induction encode t pads n xs rule: log_entries.induct) auto

lemma crash_files_facts:
  defines "lc \<equiv> log_entries encode_command order_command_record_type (\<lambda>_. (0, 0)) 0 sample_commands"
    and "le \<equiv> log_entries encode_event execution_event_record_type (\<lambda>_. (0, 0)) 0 (run_engine sample_commands)"
  shows "crashed_log [''c''] command_stream_id 1 lc (take 1 lc) crash_files" "take 1 lc \<noteq> []"
    "crashed_log [''e''] event_stream_id 1 le (take 2 le) crash_files" "take 2 le \<noteq> []"
    "file_in_range crash_files [''c'']" "file_in_range crash_files [''e'']"
    "unat (1 :: u64) + length sample_commands \<le> 2 ^ 64" "unat (1 :: u64) + length (run_engine sample_commands) \<le> 2 ^ 64"
proof -
  have n: "length sample_commands = 4" "length (run_engine sample_commands) \<le> 40" "run_engine sample_commands \<noteq> []"
    by code_simp+
  then show ne: "take 1 lc \<noteq> []" "take 2 le \<noteq> []" unfolding lc_def le_def by auto
  have "fs p = Some (RegularFile (segment_bytes s wal_epoch 1 (take j rs))) \<Longrightarrow> p = [c] \<Longrightarrow> take j rs \<noteq> [] \<Longrightarrow>
      crashed_log p s 1 rs (take j rs) fs" for fs p s j rs c
    using lost_tail_log [of p c fs s 1 "take j rs" "drop j rs"] by simp
  from this [OF _ _ ne(1)] this [OF _ _ ne(2)]
  show "crashed_log [''c''] command_stream_id 1 lc (take 1 lc) crash_files"
    "crashed_log [''e''] event_stream_id 1 le (take 2 le) crash_files"
    by (simp_all add: crash_files_def lc_def le_def)
  have small: "length (segment_bytes s e first (take j rs)) < 2 ^ 63"
    if "\<And>r. r \<in> set rs \<Longrightarrow> length (snd (snd r)) \<le> 100" "j \<le> 2" for s e first j and rs :: "log_record list"
  proof -
    have "length (segment_bytes s e first (take j rs)) \<le> 40 + length (take j rs) * 200"
      by (rule length_segment_bytes_bound) (use that(1) in_set_takeD in fast)
    also have "\<dots> \<le> 440" using that(2) by simp
    finally show ?thesis by simp
  qed
  have "length (segment_bytes command_stream_id wal_epoch 1 (take 1 lc)) < 2 ^ 63" unfolding lc_def
    by (rule small) (use log_entries_payloads [OF _ command_codec.length_encode] in \<open>fastforce simp: sizeof_command_def\<close>)+
  moreover have "length (segment_bytes event_stream_id wal_epoch 1 (take 2 le)) < 2 ^ 63" unfolding le_def
    by (rule small) (use log_entries_payloads [OF _ event_codec.length_encode] in \<open>fastforce simp: sizeof_event_def\<close>)+
  ultimately show "file_in_range crash_files [''c'']" "file_in_range crash_files [''e'']"
    by (simp_all add: file_in_range_def crash_files_def file_bytes_def lc_def le_def)
  show "unat (1 :: u64) + length sample_commands \<le> 2 ^ 64" "unat (1 :: u64) + length (run_engine sample_commands) \<le> 2 ^ 64"
    using n(1,2) by simp_all
qed

lemma replay_after_crash_witness:
  "\<exists>rc fs1 re fs2 res. recover_wal_segment crash_files [''c''] = Some (rc, fs1) \<and> recovery_ok rc \<and>
     recover_wal_segment fs1 [''e''] = Some (re, fs2) \<and> recovery_ok re \<and>
     replay (command_replay_read (file_content fs2 [''c''])) (event_replay_read (file_content fs2 [''e'']))
       (open_reader fs2 [''c'']) (open_reader fs2 [''e'']) (new_instrument_engine first_sequence_number) = Some res \<and>
     f_failure_class (res_failure res) \<noteq> EventFieldMismatch"
proof -
  let ?cs = "sample_commands"
  have consecutive: "map c_command_sequence ?cs = consecutive (hd (map c_command_sequence ?cs)) (length ?cs)"
    by code_simp
  obtain rc fs1 re fs2 k m res where r: "recover_wal_segment crash_files [''c''] = Some (rc, fs1)" "recovery_ok rc"
    "recover_wal_segment fs1 [''e''] = Some (re, fs2)" "recovery_ok re"
    "replay (command_replay_read (file_content fs2 [''c''])) (event_replay_read (file_content fs2 [''e'']))
       (open_reader fs2 [''c'']) (open_reader fs2 [''e'']) (new_instrument_engine first_sequence_number) = Some res"
    and v: "let n = length (run_engine (take k ?cs)) in
       res_ok res = (m = n) \<and> res_events_compared res = of_nat (min n m) \<and>
       f_failure_class (res_failure res) =
         (if m = n then NoFailure else if m < n then StoredEventMissing else ExtraStoredEvent) \<and>
       f_expected_event (res_failure res) = (if m < n then Some (run_engine ?cs ! m) else None) \<and>
       f_actual_event (res_failure res) = (if n < m then Some (run_engine ?cs ! n) else None)"
    using replay_after_crash [OF crash_files_facts(1-4) _ crash_files_facts(5,6) _ crash_files_facts(7) _
        crash_files_facts(8) consecutive]
    by auto
  have "f_failure_class (res_failure res) \<noteq> EventFieldMismatch" using v by (simp add: Let_def)
  then show ?thesis using r by blast
qed

end
