(* ===== verification/RecoveredViews.thy ===== *)
theory RecoveredViews
  imports CliProperties CrashReplay
begin

text \<open>
  What the dump commands show of an event log that a crash cut off, once it was recovered: the
  composition of the engine, the WAL writer and its recovery, the projection and the program.
\<close>

lemma projected_run_prefix:
  assumes "stored_events (file_content fs p) (open_reader fs p) = (take m (run_engine commands), EndOfLog)"
    and "\<forall>c \<in> set commands. nonzero_id c" "\<And>orders. mset (it orders) = mset orders"
  obtains proj where "apply_projection_from_event_wal it fs p new_market_data_projection = (True, proj, [])"
    "p_trades proj = map public_trade (trades_of (take m (run_engine commands)))"
proof -
  obtain events g where run: "run_commands engine_apply (new_instrument_engine 1) commands = (events, g)"
    by (cases "run_commands engine_apply (new_instrument_engine 1) commands")
  then have ev: "run_engine commands = events" by (simp add: run_engine_def first_sequence_number_def)
  obtain results p' where p': "project_events it new_market_data_projection (take m events @ drop m events) =
      (results, p')"
    by (cases "project_events it new_market_data_projection (take m events @ drop m events)")
  then have "list_all (\<lambda>r. apply_status r \<noteq> Rejected) results"
    using projection_of_run(1) [OF assms(2,3) run] by simp
  then obtain results' proj where proj:
    "project_events it new_market_data_projection (take m events) = (results', proj)"
    "list_all (\<lambda>r. apply_status r \<noteq> Rejected) results'"
    using accepted_prefix [OF p'] by blast
  have "p_trades proj = map public_trade (trades_of (take m events))"
    using accepted_trades [OF proj] by (simp add: new_market_data_projection_def)
  moreover have "apply_projection_from_event_wal it fs p new_market_data_projection = (True, proj, [])"
    unfolding apply_projection_from_event_wal_def
    by (rule projection_loop_stored [OF assms(1) [unfolded ev] proj])
  ultimately show ?thesis using that [of proj] by (simp add: ev)
qed

lemma dump_book_of_run:
  assumes "stored_events (file_content fs (path_of arg)) (open_reader fs (path_of arg)) =
      (run_engine commands, EndOfLog)"
    and "\<forall>c \<in> set commands. nonzero_id c" "\<And>orders. mset (it orders) = mset orders"
  shows "dump_book_command it path_of fs [arg] =
    Some (0, book_text (engine_order_book (snd (run_commands engine_apply (new_instrument_engine 1) commands)))
      (length (run_engine commands)), [], fs)"
  by (rule projected_run [OF assms refl]) (simp add: dump_book_command_def book_text_def print_levels_lines)

text \<open>
  C5: After a crash the views show a moment of the run. Let a session append the events of a run of the
  engine, on commands that introduce no order id 0, to a log, on any device, and stop at any moment
  once something was committed. Then recovery of the file succeeds and keeps a number of events, the
  committed ones among them; the event dump prints exactly these events and the trade dump exactly
  their trades, and both end well; if the kept events are those of the first commands, the book dump
  shows the book the engine had after these commands: of each side, best price first, every level
  with the total that rests there (a total of 2^63 or more is reduced to 64 bits, and left out if
  that is not positive). The iteration order of the projection's hash map does not matter, the file
  is below 2^63 bytes, and the sequence numbers of its records do not wrap around.
\<close>

theorem views_after_crash:
  assumes "crashed_log (path_of arg) event_stream_id first
      (log_entries encode_event execution_event_record_type pads 0 (run_engine commands)) committed fs"
    and "committed \<noteq> []" "first \<noteq> 0" "unat first + length (run_engine commands) \<le> 2 ^ 64"
    and "file_in_range fs (path_of arg)"
    and "\<forall>c \<in> set commands. nonzero_id c" "\<And>orders. mset (it orders) = mset orders"
  shows "\<exists>result fs' m. recover_wal_segment fs (path_of arg) = Some (result, fs') \<and> recovery_ok result \<and>
    length committed \<le> m \<and> m \<le> length (run_engine commands) \<and>
    (let events = take m (run_engine commands) in
     dump_events_command path_of fs' [arg] = Some (0, concat (map print_event events), [], fs') \<and>
     dump_trades_command it path_of fs' [arg] =
       Some (0, concat (map trade_line (trades_of events)), [], fs') \<and>
     (\<forall>k. m = length (run_engine (take k commands)) \<longrightarrow>
        dump_book_command it path_of fs' [arg] =
          Some (0, book_text (engine_order_book (snd (run_commands engine_apply (new_instrument_engine 1)
            (take k commands)))) m, [], fs')))"
proof -
  obtain m result fs' where m: "recover_wal_segment fs (path_of arg) = Some (result, fs')" "recovery_ok result"
    "length committed \<le> m" "m \<le> length (run_engine commands)"
    and events: "\<And>fs''. fs'' (path_of arg) = fs' (path_of arg) \<Longrightarrow>
       stored_records decode_event sizeof_event execution_event_record_type
         (file_content fs'' (path_of arg)) (open_reader fs'' (path_of arg)) =
       (take m (run_engine commands), EndOfLog)"
    by (rule recovered_records [OF assms(1,2) _ assms(3,5,4) event_codec.codec_axioms])
      (simp_all add: event_stream_id_def sizeof_event_def)
  then have stored: "stored_events (file_content fs' (path_of arg)) (open_reader fs' (path_of arg)) =
      (take m (run_engine commands), EndOfLog)"
    by (simp add: stored_events_def)
  have "dump_trades_command it path_of fs' [arg] = Some (0,
      concat (map trade_line (trades_of (take m (run_engine commands)))), [], fs')"
    by (rule projected_run_prefix [OF stored assms(6,7)]) (simp add: dump_trades_command_def print_trade_line comp_def)
  moreover have "dump_book_command it path_of fs' [arg] = Some (0, book_text (engine_order_book
      (snd (run_commands engine_apply (new_instrument_engine 1) (take k commands)))) m, [], fs')"
    if k: "m = length (run_engine (take k commands))" for k
  proof -
    have "take m (run_engine commands) = run_engine (take k commands)"
      using run_engine_prefix [of k commands] k by (auto simp: prefix_def)
    then show ?thesis
      using dump_book_of_run [of fs' path_of arg "take k commands" it] stored assms(6,7) k
      by (auto dest: in_set_takeD)
  qed
  moreover have "dump_events_command path_of fs' [arg] =
      Some (0, concat (map print_event (take m (run_engine commands))), [], fs')"
    using dump_events_prints_stored_events [of fs' path_of arg] stored by simp
  ultimately show ?thesis using m unfolding Let_def by blast
qed

lemma views_after_crash_witness:
  "\<exists>result fs' m. recover_wal_segment crash_files [''e''] = Some (result, fs') \<and> recovery_ok result \<and> 2 \<le> m \<and>
     dump_events_command (\<lambda>s. [s]) fs' [''e''] =
       Some (0, concat (map print_event (take m (run_engine sample_commands))), [], fs')"
proof -
  have "\<forall>c \<in> set sample_commands. nonzero_id c" "2 \<le> length (run_engine sample_commands)" by code_simp+
  then show ?thesis
    using views_after_crash [of "\<lambda>s. [s]" "''e''", OF crash_files_facts(3,4) _ crash_files_facts(8,6), of id]
    by (auto simp: Let_def)
qed

end
