(* ===== verification/TypedProperties.thy ===== *)
theory TypedProperties
  imports StoredLogs LifecycleProperties
begin

text \<open>
  Typed logs: what is appended through \<open>TypedWalWriter\<close> and committed is delivered by
  \<open>TypedWalReader\<close>, and nothing is delivered to a reader of another type. The proofs use the
  contracts \<open>raw_wal_writer\<close> and \<open>raw_wal_reader\<close> only through their interpretations.
\<close>

text \<open>Appending and reading several records, with the results.\<close>

fun typed_append_all ::
  "('a \<Rightarrow> bytes) \<Rightarrow> u32 \<Rightarrow> (u32 \<Rightarrow> bytes \<Rightarrow> 'w \<Rightarrow> WalAppendResult \<times> 'w) \<Rightarrow> 'a list \<Rightarrow> 'w \<Rightarrow>
   WalAppendResult list \<times> 'w" where
  "typed_append_all encode t raw_append [] w = ([], w)"
| "typed_append_all encode t raw_append (x # xs) w =
     (case typed_append encode t raw_append x w of (result, w1) \<Rightarrow>
        (case typed_append_all encode t raw_append xs w1 of (results, w2) \<Rightarrow> (result # results, w2)))"

fun typed_read_all ::
  "(bytes \<Rightarrow> 'a) \<Rightarrow> nat \<Rightarrow> u32 \<Rightarrow> ('r \<Rightarrow> WalReadResult \<times> WalRecordView option \<times> 'r) \<Rightarrow> nat \<Rightarrow> 'r \<Rightarrow>
   (WalReadStatus \<times> 'a option) list" where
  "typed_read_all decode len t read_next 0 r = []"
| "typed_read_all decode len t read_next (Suc n) r =
     (case typed_read_next decode len t read_next r of (result, record, r') \<Rightarrow>
        (read_status result, record) # typed_read_all decode len t read_next n r')"

context raw_wal_writer
begin

lemma typed_append_all_accepts:
  assumes "typed_append_all encode t append xs w = (results, w')"
    and "\<forall>result \<in> set results. append_status result = Appended"
  shows "accepted w' = accepted w @ map (\<lambda>x. (t, encode x)) xs \<and> committed w' = committed w"
  using assms
proof (induction xs arbitrary: w results)
  case (Cons x xs)
  obtain result w1 where s: "typed_append encode t append x w = (result, w1)"
    by (cases "typed_append encode t append x w")
  obtain rest w2 where r: "typed_append_all encode t append xs w1 = (rest, w2)"
    by (cases "typed_append_all encode t append xs w1")
  have "append_status result = Appended" "w2 = w'" "\<forall>result \<in> set rest. append_status result = Appended"
    using Cons.prems s r by auto
  then show ?case
    using Cons.IH [of w1 rest] r append_accepts [of t "encode x" w result w1] s
    by (simp add: typed_append_def)
qed simp

end

context raw_wal_reader
begin

lemma typed_read_all_end:
  "holds_log r [] \<Longrightarrow> typed_read_all decode len t read_next n r = replicate n (WalReadEnd, None)"
proof (induction n arbitrary: r)
  case (Suc n)
  obtain result r' where "typed_read_next decode len t read_next r = (result, None, r')"
    "read_status result = WalReadEnd" "holds_log r' []"
    by (rule typed_read_end [OF Suc.prems])
  then show ?case using Suc.IH by simp
qed simp

lemma typed_read_all_records:
  assumes "codec encode decode len" "holds_log r (map (\<lambda>x. (t, encode x)) xs)"
  shows "typed_read_all decode len t read_next (length xs + n) r =
    map (\<lambda>x. (WalRecordRead, Some x)) xs @ replicate n (WalReadEnd, None)"
  using assms(2)
proof (induction xs arbitrary: r)
  case Nil
  then show ?case using typed_read_all_end by simp
next
  case (Cons x xs)
  then have "holds_log r ((t, encode x) # map (\<lambda>x. (t, encode x)) xs)" by simp
  then obtain result r' where "typed_read_next decode len t read_next r = (result, Some x, r')"
    "read_status result = WalRecordRead" "holds_log r' (map (\<lambda>x. (t, encode x)) xs)"
    by (rule typed_read_ok [OF assms(1)])
  then show ?case using Cons.IH by simp
qed

end

text \<open>A session of typed appends keeps the invariant of the writer.\<close>

lemma typed_append_session:
  assumes "typed_append_all encode t (session_append pb) xs x = (results, x')"
  shows "x' = run_session (map (\<lambda>a. Append pb t (encode a)) xs) x"
  using assms
  by (induction xs arbitrary: x results)
    (auto simp: run_session_def typed_append_def session_append_def split: prod.splits)

text \<open>When all appends succeeded, the session has accepted exactly the encoded records.\<close>

lemma typed_appends_accepted:
  assumes new: "new_segment_writer fs outcomes p s e first = Some (w, fs1)" "fs p = None"
    and xs: "xs \<noteq> []" and len: "\<And>a. length (encode a) = len" "len < 2 ^ 32 - 64"
    and run: "typed_append_all encode t (session_append pb) xs (start_session [] fs1 w) = (results, x)"
      "\<forall>result \<in> set results. append_status result = Appended"
  shows "session_ok record_fits 0 p s e first x" "map snd (ses_accepted x) = map (\<lambda>a. (t, encode a)) xs"
    "ses_accepted x \<noteq> []" "length (ses_accepted x) = length xs" "list_all record_fits (ses_accepted x)"
proof -
  let ?ops = "map (\<lambda>a. Append pb t (encode a)) xs"
  have x: "x = run_session ?ops (start_session [] fs1 w)" by (rule typed_append_session [OF run(1)])
  show log: "map snd (ses_accepted x) = map (\<lambda>a. (t, encode a)) xs"
    using segment_writer.typed_append_all_accepts [OF run] by (simp add: start_session_def)
  then show acc: "ses_accepted x \<noteq> []" "length (ses_accepted x) = length xs"
    using xs map_eq_imp_length_eq by fastforce+
  have "w_writer_error w = NoError"
    using failed_writer_run [of "start_session [] fs1 w" ?ops] acc(1) x by (auto simp: start_session_def)
  from new_writer_session [OF new this] show "session_ok record_fits 0 p s e first x"
    unfolding x by (rule session_ok_run) (use len in \<open>simp add: list_all_iff record_fits_def payload_fits_def\<close>)
  show "list_all record_fits (ses_accepted x)"
  proof (unfold list_all_iff, intro ballI)
    fix r
    assume "r \<in> set (ses_accepted x)"
    then have "snd r \<in> set (map (\<lambda>a. (t, encode a)) xs)" using log by (metis image_eqI list.set_map)
    then show "record_fits r" using len by (cases r) (auto simp: record_fits_def payload_fits_def)
  qed
qed

text \<open>
  C19: Typed round trip: if every append through a typed writer on a new segment succeeded, and then the
  commit, on whatever device, then a typed reader that is opened on the file delivers exactly the
  records, in order, and then the end of the log as often as it is asked; a typed reader of another
  record type delivers nothing and reports the mismatch at once.
\<close>

theorem typed_log_round_trip:
  assumes "new_segment_writer fs outcomes p s e first = Some (w, fs1)" "fs p = None"
    and "s \<noteq> 0" "e \<noteq> 0" "first \<noteq> 0" "unat first + length xs \<le> 2 ^ 64" "xs \<noteq> []"
    and "codec encode decode len" "len < 2 ^ 32 - 64"
    and "typed_append_all encode t (session_append pb) xs (start_session [] fs1 w) = (results, x)"
    and "\<forall>result \<in> set results. append_status result = Appended"
    and "session_commit x = (result, x')" "commit_status result = Committed"
  shows "\<exists>content. file_bytes (ses_files x') p = Some content \<and>
    typed_read_all decode len t (segment_read_next content) (length xs + n) (new_segment_reader (Some content)) =
      map (\<lambda>a. (WalRecordRead, Some a)) xs @ replicate n (WalReadEnd, None) \<and>
    (t' \<noteq> t \<longrightarrow> (\<exists>result r. typed_read_next decode len t' (segment_read_next content)
        (new_segment_reader (Some content)) = (result, None, r) \<and>
      read_status result = WalReadFailed \<and> read_error result = RecordTypeMismatch))"
proof -
  let ?log = "map (\<lambda>a. (t, encode a)) xs"
  note acc = typed_appends_accepted [OF assms(1,2,7) codec.length_encode [OF assms(8)] assms(9-11)]
  obtain outcome w' fs' where c: "segment_commit (ses_files x) (ses_writer x) = (outcome, w', fs')"
    by (metis prod_cases3)
  have r: "outcome = result" "ses_files x' = fs'"
    using assms(12,13) c by (auto simp: session_commit_def)
  define content where "content = segment_bytes s e first (ses_accepted x)"
  have file_content: "file_bytes (ses_files x') p = Some content"
    using commit_leaves_log(1) [OF acc(1,3) c] assms(13) r by (simp add: content_def)
  have "reads_log content s e first (ses_accepted x) (new_segment_reader (Some content))"
    unfolding content_def using assms(3-6) acc(4,5) by (intro new_reader_reads_log) simp_all
  then have holds: "reader_holds content (new_segment_reader (Some content)) ?log"
    unfolding reader_holds_def using acc(2) by metis
  have "\<exists>result r. typed_read_next decode len t' (segment_read_next content)
        (new_segment_reader (Some content)) = (result, None, r) \<and>
      read_status result = WalReadFailed \<and> read_error result = RecordTypeMismatch" if "t' \<noteq> t"
  proof -
    obtain a as where xs: "xs = a # as" using assms(7) by (cases xs) auto
    show ?thesis
      using segment_reader.typed_read_mismatch [OF holds [unfolded xs list.map], of t' len decode] that
      by fastforce
  qed
  then show ?thesis
    using file_content segment_reader.typed_read_all_records [OF assms(8) holds, of n] by blast
qed

lemma typed_log_round_trip_witness:
  "\<exists>content. typed_read_all decode_command sizeof_command 1 (segment_read_next content) 2
     (new_segment_reader (Some content)) = [(WalRecordRead, Some empty_command), (WalReadEnd, None)]"
proof -
  obtain w fs1 where w: "new_segment_writer (\<lambda>_. None) [] [''a.wal''] 7 1 1 = Some (w, fs1)" "accepting w"
    by (rule sample_writer)
  let ?x = "start_session [] fs1 w"
  have acc: "accepting (ses_writer ?x)" using w(2) by (simp add: start_session_def)
  obtain result x where s: "typed_append (encode_command 0) 1 (session_append 0) empty_command ?x = (result, x)"
    by (cases "typed_append (encode_command 0) 1 (session_append 0) empty_command ?x")
  have "append_status result = Appended" "accepting (ses_writer x)"
    using append_accepting [OF acc, of 0 1 "encode_command 0 empty_command"] s
    by (auto simp: typed_append_def session_append_def split: prod.splits)
  moreover obtain outcome x' where c: "session_commit x = (outcome, x')" by (cases "session_commit x")
  ultimately have "\<forall>r \<in> set [result]. append_status r = Appended" "commit_status outcome = Committed"
    using commit_accepting(1) [of "ses_writer x" "ses_files x"] by (auto simp: session_commit_def)
  moreover have "typed_append_all (encode_command 0) 1 (session_append 0) [empty_command] ?x = ([result], x)"
    using s by simp
  ultimately obtain content where
    "typed_read_all decode_command sizeof_command 1 (segment_read_next content)
       (length [empty_command] + 1) (new_segment_reader (Some content)) =
     map (\<lambda>a. (WalRecordRead, Some a)) [empty_command] @ replicate 1 (WalReadEnd, None)"
    using typed_log_round_trip [OF w(1) refl _ _ _ _ _ command_codec.codec_axioms _ _ _ c,
        of "[empty_command]" 0 1 0 "[result]" 1 1]
    by (auto simp: sizeof_command_def)
  then show ?thesis by (intro exI [of _ content]) (simp add: numeral_2_eq_2)
qed

end
