(* ===== verification/ProjectionTotals.thy ===== *)
theory ProjectionTotals
  imports ProjectionRefinement
begin

text \<open>
  The quantities the projection publishes are the true totals of the book as long as no total leaves
  the range of \<open>std::int64_t\<close>; beyond it the addition of \<open>rebuild_book\<close> overflows.
\<close>

lemma total_quantity_positive:
  assumes "\<forall>r \<in> set q. 0 < to_int (r_remaining_quantity_lots r)"
  shows "0 \<le> total_quantity q" "q \<noteq> [] \<Longrightarrow> 0 < total_quantity q"
  using assms by (induction q) (fastforce simp: total_quantity_def)+

lemma total_in_range:
  assumes "\<forall>r \<in> set q. 0 < to_int (r_remaining_quantity_lots r)" "total_quantity q < 2 ^ 63"
  shows "to_int (i64_of_int (total_quantity q)) = total_quantity q"
  using total_quantity_positive(1) [OF assms(1)] assms(2) by (simp add: to_int_of_int)

text \<open>The levels of one side with their true totals.\<close>

definition level_totals :: "price_levels \<Rightarrow> (i64 \<times> int) list" where
  "level_totals ls = map (\<lambda>(p, q). (p, total_quantity q)) ls"

lemma level_view_totals:
  assumes "priced ls" "positive (flat ls)" "\<forall>(p, q) \<in> set ls. total_quantity q < 2 ^ 63"
  shows "level_view ls = level_totals ls"
  using assms
proof (induction ls)
  case Nil
  then show ?case by (simp add: level_view_def level_totals_def)
next
  case (Cons l ls)
  obtain p q where l: "l = (p, q)" by (cases l)
  have q: "q \<noteq> []" "\<forall>r \<in> set q. 0 < to_int (r_remaining_quantity_lots r)"
    and ls: "priced ls" "positive (flat ls)"
    using Cons.prems by (auto simp: l positive_def)
  then show ?case
    using Cons.IH [OF ls] Cons.prems(3) total_in_range [OF q(2)] total_quantity_positive(2) [OF q(2,1)]
    by (simp add: l level_view_def level_totals_def)
qed

text \<open>
  C39: Public totals are exact: after the events of any run on commands that introduce no order id 0,
  if the resting quantity at every price is below 2^63, the projection publishes exactly the prices
  of the engine's book, best first, each with the sum, over the integers, of the quantities that
  rest there.
\<close>

theorem public_view_shows_true_totals:
  assumes "\<forall>c \<in> set commands. nonzero_id c" "\<And>orders. mset (it orders) = mset orders"
    and "run_commands engine_apply (new_instrument_engine 1) commands = (events, g)"
    and "project_events it new_market_data_projection events = (results, p)"
    and "\<forall>(price, q) \<in> set (b_bids (engine_order_book g)) \<union> set (b_asks (engine_order_book g)).
      sum_list (map (\<lambda>r. to_int (r_remaining_quantity_lots r)) q) < 2 ^ 63"
  shows "map (\<lambda>(price, quantity). (price, to_int quantity)) (v_bids (p_book p)) =
      map (\<lambda>(price, q). (price, sum_list (map (\<lambda>r. to_int (r_remaining_quantity_lots r)) q)))
        (b_bids (engine_order_book g)) \<and>
    map (\<lambda>(price, quantity). (price, to_int quantity)) (v_asks (p_book p)) =
      map (\<lambda>(price, q). (price, sum_list (map (\<lambda>r. to_int (r_remaining_quantity_lots r)) q)))
        (b_asks (engine_order_book g))"
proof -
  note run = projection_of_run [OF assms(1-4)]
  note view = public_view_of_book [OF run(2,4) assms(2)]
  have "level_view (side_levels s (engine_order_book g)) = level_totals (side_levels s (engine_order_book g))" for s
    using side_okD(2,3) [OF book_invD(1) [OF run(4), of s]] assms(5)
    by (intro level_view_totals) (cases s; auto simp: total_quantity_def)+
  from this [of Buy] this [of Sell] show ?thesis
    by (simp add: view visible_levels_view level_totals_def total_quantity_def)
qed

lemma public_view_shows_true_totals_witness:
  "map (\<lambda>(price, quantity). (price, to_int quantity)) (v_asks (p_book (snd (project_events (\<lambda>orders. orders)
     new_market_data_projection (fst (run_commands engine_apply (new_instrument_engine 1) sample_commands_2))))))
   = [(I64 100, 9), (I64 101, 7)]"
proof -
  let ?run = "run_commands engine_apply (new_instrument_engine 1) sample_commands_2"
  let ?levels = "map (\<lambda>(price, q). (price, sum_list (map (\<lambda>r. to_int (r_remaining_quantity_lots r)) q)))"
  have nz: "\<forall>c \<in> set sample_commands_2. nonzero_id c" by code_simp
  have asks: "?levels (b_asks (engine_order_book (snd ?run))) = [(I64 100, 9), (I64 101, 7)]"
    and bids: "b_bids (engine_order_book (snd ?run)) = []" by code_simp+
  have "snd l < 2 ^ 63" if "l \<in> set (?levels (b_asks (engine_order_book (snd ?run))))" for l
    using that unfolding asks by auto
  then have small: "\<forall>(price, q) \<in> set (b_bids (engine_order_book (snd ?run))) \<union> set (b_asks (engine_order_book (snd ?run))).
      sum_list (map (\<lambda>r. to_int (r_remaining_quantity_lots r)) q) < 2 ^ 63"
    unfolding bids by force
  obtain results p where p: "project_events (\<lambda>orders. orders) new_market_data_projection (fst ?run) = (results, p)"
    by (cases "project_events (\<lambda>orders. orders) new_market_data_projection (fst ?run)")
  show ?thesis
    using public_view_shows_true_totals [OF nz _ prod.collapse [symmetric] p small] asks p by simp
qed

end
