(* ===== verification/Divergences.thy ===== *)
theory Divergences
  imports TypedProperties ReplayProperties ProjectionTotals
begin

text \<open>
  Places where the code does something else than it means to or than its documentation says, on
  concrete inputs.
\<close>

text \<open>
  \<open>NoSyncCommitPolicy\<close> (\<open>wal_commit_policy.hpp\<close>) is said to commit through the writer. It reports the
  last appended record as committed while the file is still empty and the writer has published
  nothing.
\<close>

lemma no_sync_policy_commits_nothing:
  "\<exists>(x :: wal_session) result x'. no_sync_policy_commit (w_last_position \<circ> ses_writer) x = (result, x') \<and>
     commit_status result = Committed \<and>
     committed_up_to result = \<lparr>pos_stream_id = 7, pos_epoch = 1, pos_sequence = 1\<rparr> \<and>
     file_bytes (ses_files x') [''a.wal''] = Some [] \<and> ses_committed x' = [] \<and>
     w_committed_positions (ses_writer x') = []"
proof -
  obtain w fs1 where w: "new_segment_writer (\<lambda>_. None) [] [''a.wal''] 7 1 1 = Some (w, fs1)" "accepting w"
    and f: "fs1 [''a.wal''] = Some (RegularFile [])"
    by (rule sample_life)
  let ?x = "run_session (map append_op [(0, 1, sample_payload)]) (start_session [] fs1 w)"
  have acc: "accepting (ses_writer (start_session [] fs1 w))" using w(2) by (simp add: start_session_def)
  note r = run_appends_accepting [OF acc, of "[(0, 1, sample_payload)]"]
  have "session_ok record_fits 0 [''a.wal''] 7 1 1 ?x"
    using session_ok_run [OF new_writer_session [OF w(1)], of record_fits "map append_op [(0, 1, sample_payload)]"]
      w(2) sample_log_unpadded(2)
    by (simp add: accepting_def sample_log_def)
  then have "w_last_position (ses_writer ?x) = \<lparr>pos_stream_id = 7, pos_epoch = 1, pos_sequence = 1\<rparr>"
    "w_committed_positions (ses_writer ?x) = []"
    using r by (simp_all add: session_ok_def counters_ok_def start_session_def log_position_def Let_def)
  moreover have "file_bytes (ses_files ?x) [''a.wal''] = Some []" "ses_committed ?x = []"
    using r f by (simp_all add: start_session_def file_bytes_def)
  ultimately show ?thesis by (intro exI [of _ ?x]) (simp add: no_sync_policy_commit_def)
qed

text \<open>
  An order id 0 counts as missing in the matching rules, but no validation refuses it: the engine rests
  the order, and the projection rejects its event, so the public view stops in front of it.
\<close>

lemma zero_order_id_rests_and_is_not_projected:
  "let (events, g) = run_commands engine_apply (new_instrument_engine 1) [sample_command NewOrder 0 Sell 100 5];
       (results, p) = project_events id new_market_data_projection events
   in active_order_count (engine_order_book g) = 1 \<and>
      apply_status (last results) = Rejected \<and>
      p_last_applied_event_sequence p + 1 = e_event_sequence (last events)"
  by code_simp

text \<open>
  The engine rests two sell orders at one price whose quantities add up to 2^63: \<open>rebuild_book\<close> adds
  them in \<open>std::int64_t\<close>. The sum overflows; with wrap-around it is negative, and the level the
  engine sells from is not published.
\<close>

lemma overflowing_level_is_not_published:
  "let (events, g) = run_commands engine_apply (new_instrument_engine 1)
         [sample_command NewOrder 1 Sell 100 4611686018427387904, sample_command NewOrder 2 Sell 100 4611686018427387904];
       (results, p) = project_events id new_market_data_projection events
   in to_int (best_ask_price (engine_order_book g)) = 100 \<and>
      list_all (\<lambda>r. apply_status r \<noteq> Rejected) results \<and> v_asks (p_book p) = []"
  by code_simp

end
