(* ===== verification/Spec2Isabelle.thy ===== *)
theory Spec2Isabelle
  imports BookProperties ReplayProperties ProjectionRefinement WalProperties ScenarioProperties CliProperties
    WalDemo BenchmarkProperties RecoveredViews Divergences
begin

text \<open>
  A verification development for the deterministic exchange matcher under \<open>src/\<close>.

  \<^bold>\<open>The program.\<close> Commands (new order, cancel, replace) are matched by one engine per
  instrument against an order book with price-time priority; every command is answered by
  execution events. Commands and events are stored in write-ahead logs (WALs) of checksummed
  binary records. A replay runner feeds stored commands to a fresh engine and compares the events
  it generates with the stored ones; a market data projection rebuilds the public view of the book
  and the trades from events alone. The command line program ties the parts together: it loads a
  scenario, runs it, stores both logs, replays them and prints dumps. A benchmark and a
  demonstration are two more clients of the engine and of the WAL.

  \<^bold>\<open>The theories and the code.\<close> Names are those of the source where Isabelle allows it; record
  fields carry a prefix. Every fallible function returns an error code, a sum or an option, as the
  comments at the definitions say; \<open>None\<close> of a program is a C++ exception that ends it.

  \<^item> \<open>Prelude\<close>: the machine types \<open>u8\<close> to \<open>u64\<close> (words), \<open>i64\<close> (a type of 64-bit words ordered as signed
    numbers), consecutive numbers, association lists without duplicate keys (the hash maps of the
    code; their iteration order is a parameter wherever the code iterates).
  \<^item> \<open>Domain\<close> (\<open>src/domain\<close>, \<open>core/matching_types.hpp\<close>): the command and event records, the enumerations
    with their numeric codes, and decoding of raw values.
  \<^item> \<open>Levels\<close>, \<open>Decimal\<close>: ordered maps of FIFO queues (\<open>std::map\<close> of \<open>std::deque\<close>), decimal numerals.
  \<^item> \<open>OrderBook\<close>, \<open>Engine\<close> (\<open>core/order_book.cpp\<close>, \<open>core/instrument_engine.cpp\<close>,
    \<open>core/dummy_instrument_engine.cpp\<close>): every member function of the book, and both engines.
    \<open>Matching\<close> relates the matching loops to a sweep over the flattened queue, \<open>BookInvariant\<close> states
    the invariant and that every command keeps it, \<open>BookEvents\<close> what the events number and carry,
    \<open>BookChecks\<close> that the run-time check \<open>validate_invariants\<close> decides the invariant except for its
    clause on the instrument, \<open>BookSpec\<close> the abstract book (one queue of orders per side) that the book refines; the properties are in
    \<open>BookProperties\<close>. The locale \<open>sequenced_machine\<close> of \<open>Engine\<close> lifts facts on one command to
    command sequences, for both engines.
  \<^item> \<open>Replay\<close>, \<open>ReplayProperties\<close> (\<open>core/replay.cpp\<close>): the comparator and the runner. The runner's readers
    are parameters; the locales \<open>record_source\<close> and \<open>replay_logs\<close> state what a reader of a stored log
    does, and are interpreted on lists and, in \<open>Cli\<close>, on the WAL readers of the program.
  \<^item> \<open>Projection\<close>, \<open>ProjectionRefinement\<close> (\<open>projections/market_data_projection.cpp\<close>): the projection, and
    that it follows the engine. \<open>ProjectionTotals\<close>: the published totals are exact while they fit.
  \<^item> \<open>ByteCodec\<close>, \<open>FileStream\<close>: the bytes of the records on a little-endian machine (padding bytes
    are parameters, since the code leaves them undetermined), files, directories and file streams
    with their state bits. An output stream has a list of device outcomes that decides which of its
    operations stops and after how many bytes.
  \<^item> \<open>WalFormat\<close>, \<open>WalRecord\<close>, \<open>WalScanner\<close>, \<open>WalReader\<close>, \<open>WalWriter\<close>, \<open>WalFacade\<close>, \<open>WalTyped\<close> (\<open>src/wal\<close>):
    checksum, alignment, headers, the scanner, the segment reader and writer, scan and recovery, the
    public facade, commit policies and typed adapters. \<open>WalSession\<close> has the invariant of a session of
    appends, commits and pops on any device, \<open>WalOrder\<close> that its records reach the file in the order
    of the attempts; \<open>WalCorruption\<close> follows a damaged byte; the locales
    \<open>raw_wal_writer\<close> and \<open>raw_wal_reader\<close> are the abstract interfaces of the code, interpreted on the
    segment writer and reader. The properties are in \<open>WalProperties\<close>.
  \<^item> \<open>WalLifecycle\<close>, \<open>LifecycleProperties\<close>: the life of a segment file as a step relation: writers open
    it, write, are closed or lost in a crash, and recovery repairs it, in any order; the invariant
    of its states. \<open>TypedProperties\<close> lifts the contracts of the raw interfaces to typed logs.
  \<^item> \<open>Scenario\<close>, \<open>ScenarioProperties\<close> (\<open>app/scenario_loader.cpp\<close>), \<open>EventDump\<close> (\<open>app/event_dump.cpp\<close>), \<open>Cli\<close>,
    \<open>CliFacts\<close>, \<open>CliProperties\<close> (\<open>app/main.cpp\<close>): the loader on the text of a file, the printed lines, and
    the five commands with exit code, output and files.
  \<^item> \<open>StoredLogs\<close>: what a client may conclude from results of appends and commits on any device.
  \<^item> \<open>CrashReplay\<close>: the logs that crashed sessions leave, recovered and replayed. \<open>RecoveredViews\<close>:
    what the dump commands show of them. \<open>Divergences\<close>: concrete inputs on which the code and its
    documentation differ.
  \<^item> \<open>WalDemo\<close> (\<open>examples/wal_demo.cpp\<close>), \<open>Benchmark\<close>, \<open>BenchmarkReport\<close>, \<open>BenchmarkFacts\<close>,
    \<open>BenchmarkProperties\<close> (\<open>benchmarks/load_pipeline_benchmark.cpp\<close>): the two other programs.

  \<^bold>\<open>What the theorems show.\<close>

  \<^item> The book: a new order does what the abstract queue of orders prescribes, on every branch; trades
    take place in price-time order, at resting prices, within the limit, and conserve quantity; every
    command keeps the invariant; event and trade numbers have no gaps; rejected commands change
    nothing; cancel and replace are characterised exactly; the best prices never cross.
  \<^item> Replay: it returns on all inputs and succeeds exactly on logs the engine reproduces, and reports
    the first difference otherwise.
  \<^item> The projection shows the engine's book and trades, whatever the order of its hash map, on commands
    that introduce no order id 0. What it is to publish of a level is defined without its code
    (\<open>level_view\<close>); totals of 2^63 or more overflow in the code and are shown reduced to 64 bits.
  \<^item> The WAL: whatever the device does, the file starts with the committed records and is a prefix of
    the log of the records tried, the accepted ones and at most one more; reading returns what was written; recovery keeps the complete
    records; a reopened writer goes on behind them; a changed payload byte is detected; a failed
    writer stays failed. Over any number of writers, crashes and recoveries no committed record is
    ever lost, and a stopped segment can go on unless its header is torn; both for records whose
    payloads are multiples of eight bytes long, as those of commands and events. One theorem shows a defect:
    a record cut off inside its padding is taken for valid, so recovery leaves the torn bytes.
  \<^item> Both together: when the sessions that store the commands and the events of a run stop anywhere,
    recovery and replay of the two files end in success or name the first event that is missing or
    surplus, and never report a difference; the dumps of the recovered events show a moment of the
    run.
  \<^item> The programs: written scenarios load back; a run stores logs that replay accepts, and on
    any device it claims only what it has stored; the dumps show the engine's state; replay decides on any two files. The benchmark's phases agree on the events
    and count them right, its book stays small, and its commit interval bounds what a crash can
    take; the demonstration never reports records it did not store.

  \<^bold>\<open>Bounds and termination.\<close> No fuel is used. Loops over files terminate because every record moves the
  reader on (\<open>length content - position\<close>); the matching loops by a measure on the queues and the
  quantity left. The replay loop and the generator loop of the benchmark are partial functions,
  since their readers or bounds could keep them running: that they return is proved
  (\<open>replay_wals_decides\<close>, \<open>generate_loop_returns\<close>). Sequence numbers, counters and prices are kept at their
  widths; where a theorem needs that a counter does not wrap, it says so. \<open>reserve\<close> throws above the
  maximal size of a vector, which is computed as in libstdc++.

  \<^bold>\<open>Not modelled.\<close> The tests. The placeholder targets without code (\<open>matcher\<close>, \<open>order_book\<close>). Hardware caches: a
  flush that reports success has reached the file, as the code assumes when it does without \<open>fsync\<close>.
  Running out of memory. Concurrent access to the files. The conversion of arguments to paths (a
  parameter) and directories opened as streams. The interleaving of standard output with standard
  error. The clock of the benchmark and the arithmetic and text of its floating point numbers are
  parameters. The static assertions and the deleted or defaulted constructors.
\<close>

end
